(* ===== verification/Prelude.thy ===== *)
theory Prelude
  imports Main "HOL-Library.Word" "HOL-Library.Char_ord" "HOL-Library.List_Lexorder"
begin

section \<open>Prelude: the types, hints and generic lemmas the components share\<close>

text \<open>
  Go's \<open>uint64\<close> is \<open>64 word\<close> (arithmetic wraps), Go's \<open>[]byte\<close> and \<open>string\<close> are
  \<open>char list\<close> (a \<open>char\<close> of HOL is exactly one byte, and the order of the type class
  instances imported here is the byte-wise lexicographic order of \<open>bytes.Compare\<close>), and Go's
  \<open>error\<close> values are the datatype \<open>error\<close> below.  A function that returns \<open>(T, error)\<close>
  becomes a function into \<open>error + 'a\<close>; one that returns only \<open>error\<close> and changes a state
  returns \<open>error option \<times> 's\<close>.
\<close>

subsection \<open>Types\<close>

type_synonym u64 = "64 word"
type_synonym bytes = "char list"

text \<open>
  \<open>Fail m\<close> is an error with the text \<open>m\<close>; \<open>Wrap m e\<close> is
  \<open>fmt.Errorf("m: %w", e)\<close>.
\<close>

datatype error = Fail string | Wrap string error

type_synonym 'a result = "error + 'a"

text \<open>A \<open>[]byte\<close> that may be nil, as a function result: \<open>None\<close> is Go's nil slice.\<close>

type_synonym slice = "bytes option"

definition slice_bytes :: "slice \<Rightarrow> bytes" where
  "slice_bytes d = (case d of None \<Rightarrow> [] | Some b \<Rightarrow> b)"

lemma slice_bytes_simps [simp]:
  "slice_bytes None = []" "slice_bytes (Some b) = b"
  by (simp_all add: slice_bytes_def)

text \<open>
  A call that may not come back: it panics, it waits for ever, or it returns.  Closing a channel
  that is closed already panics.
\<close>

datatype 'a called = PanicCall | HangCall | Returns 'a

definition close_chan :: "bool \<Rightarrow> bool called" where
  "close_chan closed = (if closed then PanicCall else Returns True)"

subsection \<open>Collections of hints\<close>

named_theorems u64_simps \<open>reading \<open>uint64\<close> arithmetic as arithmetic on naturals\<close>
named_theorems key_simps \<open>equality, order and parsing of database keys\<close>

subsection \<open>Unsigned 64-bit arithmetic\<close>

lemma u64_less_iff [u64_simps]: "(a :: u64) < b \<longleftrightarrow> unat a < unat b"
  by (rule word_less_nat_alt)

lemma u64_le_iff [u64_simps]: "(a :: u64) \<le> b \<longleftrightarrow> unat a \<le> unat b"
  by (rule word_le_nat_alt)

lemma u64_eq_iff: "(a :: u64) = b \<longleftrightarrow> unat a = unat b"
  by (metis unsigned_word_eqI)

lemma unat_u64_bound [simp, intro]: "unat (a :: u64) < 18446744073709551616"
  using unsigned_less [of a] by simp

lemma unat_u64_le [simp]: "unat (a :: u64) \<le> 18446744073709551615"
  using unat_u64_bound [of a] by linarith

lemma unat_add_u64: "unat a + unat b < 18446744073709551616 \<Longrightarrow> unat (a + b :: u64) = unat a + unat b"
  by (simp add: unat_word_ariths)

lemma unat_sub_u64: "(b :: u64) \<le> a \<Longrightarrow> unat (a - b) = unat a - unat b"
  by (rule unat_sub)

lemma unat_of_nat_u64: "n < 18446744073709551616 \<Longrightarrow> unat (of_nat n :: u64) = n"
  by (simp add: unat_of_nat take_bit_eq_mod)

text \<open>
  \<open>u64_range a k\<close> is \<open>a, a+1, \<dots>, a+k-1\<close>: what a loop \<open>for i := 0; i < k; i++\<close> over
  \<open>a+i\<close> visits.
\<close>

definition u64_range :: "u64 \<Rightarrow> nat \<Rightarrow> u64 list" where
  "u64_range a k = map (\<lambda>i. a + of_nat i) [0..<k]"

lemma length_u64_range [simp]: "length (u64_range a k) = k"
  by (simp add: u64_range_def)

lemma nth_u64_range [simp]: "i < k \<Longrightarrow> u64_range a k ! i = a + of_nat i"
  by (simp add: u64_range_def)

lemma u64_range_0 [simp]: "u64_range a 0 = []"
  by (simp add: u64_range_def)

lemma u64_range_Nil_iff [simp]: "u64_range a k = [] \<longleftrightarrow> k = 0"
  by (metis length_0_conv length_u64_range)

lemma u64_range_Suc: "u64_range a (Suc k) = a # u64_range (a + 1) k"
  unfolding u64_range_def by (simp add: upt_conv_Cons map_Suc_upt [symmetric] add.assoc del: upt_Suc)

lemma u64_range_add: "u64_range a (j + k) = u64_range a j @ u64_range (a + of_nat j) k"
  by (induction j arbitrary: a) (simp_all add: u64_range_Suc ac_simps)

lemma u64_range_snoc: "u64_range a (Suc k) = u64_range a k @ [a + of_nat k]"
  using u64_range_add [of a k 1] by (simp add: u64_range_Suc)

lemma drop_u64_range: "drop j (u64_range a k) = u64_range (a + of_nat j) (k - j)"
proof (cases "j \<le> k")
  case True
  then have "u64_range a k = u64_range a j @ u64_range (a + of_nat j) (k - j)"
    using u64_range_add [of a j "k - j"] by simp
  then show ?thesis by simp
qed simp

lemma set_u64_range:
  assumes "unat a + k \<le> 18446744073709551616"
  shows "set (u64_range a k) = {n. unat a \<le> unat n \<and> unat n < unat a + k}"
proof -
  have unat_i: "unat (a + of_nat i) = unat a + i" if "i < k" for i
    using that assms by (simp add: unat_add_u64 unat_of_nat_u64)
  show ?thesis
  proof (intro set_eqI iffI)
    fix n :: u64 assume "n \<in> set (u64_range a k)"
    then show "n \<in> {n. unat a \<le> unat n \<and> unat n < unat a + k}"
      by (auto simp: u64_range_def unat_i)
  next
    fix n :: u64 assume n: "n \<in> {n. unat a \<le> unat n \<and> unat n < unat a + k}"
    then have "n = a + of_nat (unat n - unat a)"
      by (simp add: u64_eq_iff unat_i)
    with n show "n \<in> set (u64_range a k)"
      by (auto simp: u64_range_def image_iff intro!: bexI [of _ "unat n - unat a"])
  qed
qed

subsection \<open>Lists\<close>

text \<open>A lookup that says when it is out of range.\<close>

definition nth_opt :: "'a list \<Rightarrow> nat \<Rightarrow> 'a option" where
  "nth_opt xs i = (if i < length xs then Some (xs ! i) else None)"

lemma nth_opt_Some [simp]: "nth_opt xs i = Some x \<longleftrightarrow> i < length xs \<and> xs ! i = x"
  by (simp add: nth_opt_def)

lemma filter_id_conv_all: "(\<forall>x \<in> set xs. P x) \<Longrightarrow> filter P xs = xs"
  by simp

end
