(* ===== verification/GoText.thy ===== *)
theory GoText
  imports Prelude
begin

section \<open>The parts of Go's standard library that work on text and bytes\<close>

text \<open>
  What the source uses of \<open>fmt\<close>, \<open>strconv\<close>, \<open>strings\<close>, \<open>bytes\<close>, \<open>bufio\<close> and
  \<open>encoding/binary\<close>, as executable functions on byte strings: printing and parsing of
  unsigned numbers, splitting and replacing, the line scanner and the big-endian codec.
  The lemmas give the round trips and the order of zero-padded numbers that the key layout of
  the block store rests on.
\<close>

subsection \<open>Digits\<close>

definition digit_char :: "nat \<Rightarrow> char" where
  "digit_char d = (if d < 10 then char_of (48 + d) else char_of (87 + d))"

text \<open>\<open>strconv\<close> reads \<open>0-9\<close>, and letters of either case as \<open>10\<close> to \<open>35\<close>.\<close>

definition digit_val :: "char \<Rightarrow> nat option" where
  "digit_val c = (let k = of_char c in
     if 48 \<le> k \<and> k \<le> 57 then Some (k - 48)
     else if 97 \<le> k \<and> k \<le> 122 then Some (k - 87)
     else if 65 \<le> k \<and> k \<le> 90 then Some (k - 55)
     else None)"

definition is_digit :: "char \<Rightarrow> bool" where
  "is_digit c \<longleftrightarrow> 48 \<le> (of_char c :: nat) \<and> (of_char c :: nat) \<le> 57"

lemma digit_val_digit_char: "d < 36 \<Longrightarrow> digit_val (digit_char d) = Some d"
  by (auto simp: digit_val_def digit_char_def Let_def)

lemma is_digit_digit_char: "d < 10 \<Longrightarrow> is_digit (digit_char d)"
  by (simp add: is_digit_def digit_char_def)

lemma digit_val_is_digit: "is_digit c \<Longrightarrow> digit_val c = Some (of_char c - 48)"
  by (simp add: is_digit_def digit_val_def Let_def)

subsection \<open>Printing: \<open>%d\<close>, \<open>%x\<close> and \<open>%020d\<close>\<close>

function show_base :: "nat \<Rightarrow> nat \<Rightarrow> string" where
  "show_base b n = (if b < 2 \<or> n < b then [digit_char n]
     else show_base b (n div b) @ [digit_char (n mod b)])"
  by pat_completeness auto
termination
  by (relation "measure (\<lambda>(b, n). n)") auto

declare show_base.simps [simp del]

abbreviation dec :: "nat \<Rightarrow> string" where "dec \<equiv> show_base 10"
abbreviation hex :: "nat \<Rightarrow> string" where "hex \<equiv> show_base 16"

definition pad20 :: "string \<Rightarrow> string" where
  "pad20 s = replicate (20 - length s) CHR ''0'' @ s"

definition fmt_020d :: "u64 \<Rightarrow> string" where
  "fmt_020d n = pad20 (dec (unat n))"

lemma show_base_nonempty [simp]: "show_base b n \<noteq> []"
  by (subst show_base.simps) simp

lemma dec_digits: "list_all is_digit (dec n)"
proof (induction n rule: less_induct)
  case (less n)
  show ?case
  proof (cases "n < 10")
    case True
    then show ?thesis by (subst show_base.simps) (simp add: is_digit_digit_char)
  next
    case False
    then have "list_all is_digit (dec (n div 10))" by (intro less.IH) simp
    with False show ?thesis by (subst show_base.simps) (simp add: is_digit_digit_char)
  qed
qed

lemma digit_char_printable:
  "d < 36 \<Longrightarrow> 48 \<le> (of_char (digit_char d) :: nat) \<and> (of_char (digit_char d) :: nat) \<le> 122"
  by (auto simp: digit_char_def)

lemma show_base_range:
  "2 \<le> b \<Longrightarrow> b \<le> 36 \<Longrightarrow> c \<in> set (show_base b n) \<Longrightarrow> 48 \<le> (of_char c :: nat) \<and> (of_char c :: nat) \<le> 122"
proof (induction n rule: less_induct)
  case (less n)
  have m: "n mod b < 36" using mod_less_divisor [of b n] less.prems by linarith
  show ?case
  proof (cases "n < b")
    case True
    then have "show_base b n = [digit_char n]" by (subst show_base.simps) simp
    with True less.prems digit_char_printable [of n] show ?thesis by simp
  next
    case False
    then have "show_base b n = show_base b (n div b) @ [digit_char (n mod b)]"
      using less.prems by (subst show_base.simps) simp
    moreover have "n div b < n" using False less.prems by (intro div_less_dividend) auto
    ultimately show ?thesis using less digit_char_printable [OF m] by auto
  qed
qed

lemmas show_base_printable = show_base_range [THEN conjunct1]

lemma length_dec_le: "n < 10 ^ Suc k \<Longrightarrow> length (dec n) \<le> Suc k"
proof (induction k arbitrary: n)
  case 0
  then show ?case by (subst show_base.simps) simp
next
  case (Suc k)
  show ?case
  proof (cases "n < 10")
    case True
    then show ?thesis by (subst show_base.simps) simp
  next
    case False
    have "n div 10 < 10 ^ Suc k" using Suc.prems by (simp add: less_mult_imp_div_less)
    then have "length (dec (n div 10)) \<le> Suc k" by (rule Suc.IH)
    with False show ?thesis by (subst show_base.simps) simp
  qed
qed

lemma length_fmt_020d [simp]: "length (fmt_020d n) = 20"
proof -
  have "unat n < 10 ^ Suc 19" using unat_u64_bound [of n] by (simp del: unat_u64_bound)
  then have "length (dec (unat n)) \<le> Suc 19" by (rule length_dec_le)
  then show ?thesis by (simp add: fmt_020d_def pad20_def)
qed

lemma fmt_020d_digits: "list_all is_digit (fmt_020d n)"
  using dec_digits [of "unat n"]
  by (auto simp: fmt_020d_def pad20_def list_all_iff is_digit_def)

subsection \<open>Parsing: \<open>strconv.ParseUint(s, base, 64)\<close>\<close>

abbreviation err_syntax :: error where "err_syntax \<equiv> Fail ''invalid syntax''"
abbreviation err_range :: error where "err_range \<equiv> Fail ''value out of range''"

fun parse_digits :: "nat \<Rightarrow> nat \<Rightarrow> string \<Rightarrow> nat result" where
  "parse_digits b acc [] = Inr acc"
| "parse_digits b acc (c # cs) =
     (case digit_val c of
        None \<Rightarrow> Inl err_syntax
      | Some d \<Rightarrow> if b \<le> d then Inl err_syntax
          else if 18446744073709551616 \<le> acc * b + d then Inl err_range
          else parse_digits b (acc * b + d) cs)"

definition ParseUint :: "string \<Rightarrow> nat \<Rightarrow> u64 result" where
  "ParseUint s b = (if s = [] then Inl err_syntax
     else (case parse_digits b 0 s of Inl e \<Rightarrow> Inl e | Inr n \<Rightarrow> Inr (of_nat n)))"

lemma parse_digits_append:
  "parse_digits b acc (xs @ ys) =
     (case parse_digits b acc xs of Inl e \<Rightarrow> Inl e | Inr a \<Rightarrow> parse_digits b a ys)"
  by (induction xs arbitrary: acc) (auto split: option.splits sum.splits)

lemma parse_show_base:
  assumes "2 \<le> b" "b \<le> 36" "n < 18446744073709551616"
  shows "parse_digits b 0 (show_base b n) = Inr n"
  using assms(3)
proof (induction n rule: less_induct)
  case (less n)
  show ?case
  proof (cases "n < b")
    case True
    with assms less.prems show ?thesis
      by (subst show_base.simps) (simp add: digit_val_digit_char)
  next
    case False
    have "n div b < n" using False assms by (intro div_less_dividend) auto
    then have IH: "parse_digits b 0 (show_base b (n div b)) = Inr (n div b)"
      using less.prems by (intro less.IH) auto
    have m: "n mod b < b" using assms by simp
    then have "n mod b < 36" using assms by linarith
    then have "digit_val (digit_char (n mod b)) = Some (n mod b)"
      by (rule digit_val_digit_char)
    with m False assms less.prems IH show ?thesis
      by (subst show_base.simps) (simp add: parse_digits_append not_le)
  qed
qed

lemma ParseUint_show_base:
  assumes "2 \<le> b" "b \<le> 36"
  shows "ParseUint (show_base b (unat n)) b = Inr n"
  using assms by (simp add: ParseUint_def parse_show_base)

lemma parse_digits_zeros: "0 < b \<Longrightarrow> parse_digits b 0 (replicate k CHR ''0'' @ s) = parse_digits b 0 s"
  by (induction k) (simp_all add: digit_val_def)

lemma ParseUint_fmt_020d [key_simps]: "ParseUint (fmt_020d n) 10 = Inr n"
  by (simp add: ParseUint_def fmt_020d_def pad20_def parse_digits_zeros parse_show_base)

lemma fmt_020d_inject [key_simps, simp]: "fmt_020d a = fmt_020d b \<longleftrightarrow> a = b"
  by (metis ParseUint_fmt_020d sum.inject(2))

subsection \<open>Zero-padded numbers sort as numbers\<close>

definition dec_value :: "string \<Rightarrow> nat" where
  "dec_value s = foldl (\<lambda>a c. a * 10 + (of_char c - 48)) 0 s"

lemma foldl_dec_value:
  "foldl (\<lambda>a c. a * 10 + (of_char c - 48)) k s = k * 10 ^ length s + dec_value s"
proof (induction s arbitrary: k)
  case Nil
  then show ?case by (simp add: dec_value_def)
next
  case (Cons c s)
  have "dec_value (c # s) = (of_char c - 48) * 10 ^ length s + dec_value s"
    using Cons.IH [of "of_char c - 48"] by (simp add: dec_value_def)
  then show ?case using Cons.IH by (simp add: algebra_simps)
qed

lemma dec_value_Cons: "dec_value (c # s) = (of_char c - 48) * 10 ^ length s + dec_value s"
  using foldl_dec_value [of "of_char c - 48" s] by (simp add: dec_value_def)

lemma dec_value_bound: "list_all is_digit s \<Longrightarrow> dec_value s < 10 ^ length s"
proof (induction s)
  case Nil
  then show ?case by (simp add: dec_value_def)
next
  case (Cons c s)
  then have "of_char c - 48 \<le> (9 :: nat)" and "dec_value s < 10 ^ length s"
    by (auto simp: is_digit_def)
  then have "(of_char c - 48) * 10 ^ length s + dec_value s < 9 * 10 ^ length s + 10 ^ length s"
    by (intro add_le_less_mono mult_right_mono) auto
  then show ?case by (simp add: dec_value_Cons)
qed

lemma dec_value_less_iff:
  assumes "length s = length t" "list_all is_digit s" "list_all is_digit t"
  shows "s < t \<longleftrightarrow> dec_value s < dec_value t"
  using assms
proof (induction s t rule: list_induct2)
  case Nil
  then show ?case by simp
next
  case (Cons c s d t)
  let ?p = "10 ^ length s :: nat"
  have bounds: "dec_value s < ?p" "dec_value t < ?p"
    using Cons dec_value_bound [of s] dec_value_bound [of t] by auto
  have digits: "48 \<le> (of_char c :: nat)" "48 \<le> (of_char d :: nat)"
    using Cons.prems by (auto simp: is_digit_def)
  have less: "x * ?p + a < y * ?p + b" if "x < y" "a < ?p" for x y a b :: nat
  proof -
    have "x * ?p + a < Suc x * ?p" using that by simp
    also have "\<dots> \<le> y * ?p" using that by (intro mult_right_mono) auto
    finally show ?thesis by simp
  qed
  consider (lt) "of_char c < (of_char d :: nat)" | (eq) "c = d" | (gt) "of_char d < (of_char c :: nat)"
    by (metis linorder_neqE_nat of_char_eq_iff)
  then show ?case
  proof cases
    case lt
    then have "of_char c - 48 < of_char d - (48 :: nat)" using digits by simp
    with lt show ?thesis using less bounds Cons.hyps
      by (simp add: dec_value_Cons less_char_def)
  next
    case eq
    with Cons show ?thesis by (simp add: dec_value_Cons)
  next
    case gt
    then have "of_char d - 48 < of_char c - (48 :: nat)" using digits by simp
    then have "dec_value (d # t) < dec_value (c # s)"
      using less bounds Cons.hyps by (simp add: dec_value_Cons)
    with gt show ?thesis by (auto simp: less_char_def)
  qed
qed

lemma dec_value_dec: "dec_value (dec n) = n"
proof (induction n rule: less_induct)
  case (less n)
  show ?case
  proof (cases "n < 10")
    case True
    then show ?thesis by (subst show_base.simps) (simp add: dec_value_def digit_char_def)
  next
    case False
    then have "dec_value (dec (n div 10)) = n div 10" by (intro less.IH) simp
    moreover have "of_char (digit_char (n mod 10)) = 48 + n mod 10"
      by (simp add: digit_char_def)
    ultimately show ?thesis using False
      by (subst show_base.simps) (simp add: dec_value_def)
  qed
qed

lemma dec_value_zeros: "dec_value (replicate k CHR ''0'' @ s) = dec_value s"
  by (induction k) (simp_all add: dec_value_Cons)

lemma fmt_020d_less_iff [key_simps]: "fmt_020d a < fmt_020d b \<longleftrightarrow> a < b"
proof -
  have "fmt_020d a < fmt_020d b \<longleftrightarrow> dec_value (fmt_020d a) < dec_value (fmt_020d b)"
    by (intro dec_value_less_iff) (simp_all add: fmt_020d_digits)
  then show ?thesis by (simp add: fmt_020d_def pad20_def dec_value_zeros dec_value_dec u64_less_iff)
qed

lemma fmt_020d_le_iff [key_simps]: "fmt_020d a \<le> fmt_020d b \<longleftrightarrow> a \<le> b"
  by (metis fmt_020d_less_iff not_le)

subsection \<open>Prefixes, containment and replacement\<close>

definition has_prefix :: "string \<Rightarrow> string \<Rightarrow> bool" where
  "has_prefix s p \<longleftrightarrow> take (length p) s = p"

definition TrimPrefix :: "string \<Rightarrow> string \<Rightarrow> string" where
  "TrimPrefix s p = (if has_prefix s p then drop (length p) s else s)"

fun Contains :: "string \<Rightarrow> string \<Rightarrow> bool" where
  "Contains [] sub = (sub = [])"
| "Contains (c # cs) sub = (has_prefix (c # cs) sub \<or> Contains cs sub)"

text \<open>\<open>strings.Replace(s, old, new, 1)\<close> for a non-empty \<open>old\<close>: the first occurrence only.\<close>

fun Replace1 :: "string \<Rightarrow> string \<Rightarrow> string \<Rightarrow> string" where
  "Replace1 [] old new = []"
| "Replace1 (c # cs) old new =
     (if has_prefix (c # cs) old then new @ drop (length old) (c # cs)
      else c # Replace1 cs old new)"

lemma has_prefix_append [simp]: "has_prefix (p @ s) p"
  by (simp add: has_prefix_def)

lemma TrimPrefix_append [simp]: "TrimPrefix (p @ s) p = s"
  by (simp add: TrimPrefix_def)

lemma Contains_iff: "Contains s sub \<longleftrightarrow> (\<exists>a b. s = a @ sub @ b)"
proof (induction s)
  case Nil
  then show ?case by auto
next
  case (Cons c s)
  have "has_prefix (c # s) sub \<longleftrightarrow> (\<exists>b. c # s = sub @ b)"
    unfolding has_prefix_def by (metis append_eq_conv_conj)
  moreover have "(\<exists>a b. c # s = a @ sub @ b) \<longleftrightarrow> (\<exists>b. c # s = sub @ b) \<or> (\<exists>a b. s = a @ sub @ b)"
    by (metis append_Cons append_Nil list.exhaust list.inject)
  ultimately show ?case using Cons.IH by simp
qed

text \<open>What stands before the first occurrence stays, and so does what follows it.\<close>

lemma Replace1_first:
  assumes "\<And>c d. a @ old = c @ old @ d \<Longrightarrow> c = a" "old \<noteq> []"
  shows "Replace1 (a @ old @ b) old new = a @ new @ b"
  using assms(1)
proof (induction a)
  case Nil
  then show ?case using assms(2) by (cases old) (auto simp: has_prefix_def)
next
  case (Cons x a)
  have "\<not> has_prefix (x # a @ old @ b) old"
  proof
    assume "has_prefix (x # a @ old @ b) old"
    then have "take (length old) ((x # a @ old) @ b) = old" by (simp add: has_prefix_def)
    then have "take (length old) (x # a @ old) = old" by (simp only: take_append) simp
    then have "(x # a) @ old = [] @ old @ drop (length old) (x # a @ old)"
      by (metis append_Cons append_Nil append_take_drop_id)
    from Cons.prems [OF this] show False by simp
  qed
  moreover have "Replace1 (a @ old @ b) old new = a @ new @ b"
    using Cons.prems [of "x # c" for c] by (intro Cons.IH) auto
  ultimately show ?case by simp
qed

lemma Replace1_absent: "\<not> Contains s old \<Longrightarrow> Replace1 s old new = s"
  by (induction s) auto

subsection \<open>Splitting at a byte\<close>

text \<open>
  \<open>strings.Split(s, sep)\<close> and \<open>bytes.Split(s, sep)\<close> for a separator of one byte: never an
  empty list, and the empty string gives one empty part.
\<close>

fun split_on :: "char \<Rightarrow> string \<Rightarrow> string list" where
  "split_on c [] = [[]]"
| "split_on c (x # xs) =
     (if x = c then [] # split_on c xs
      else (case split_on c xs of [] \<Rightarrow> [[x]] | p # ps \<Rightarrow> (x # p) # ps))"

lemma split_on_nonempty [simp]: "split_on c xs \<noteq> []"
  by (cases xs) (auto split: list.splits)

lemma split_on_absent: "c \<notin> set xs \<Longrightarrow> split_on c xs = [xs]"
  by (induction xs) auto

lemma split_on_append: "c \<notin> set xs \<Longrightarrow> split_on c (xs @ c # ys) = xs # split_on c ys"
  by (induction xs) auto

abbreviation newline :: char where "newline \<equiv> CHR 0x0A"
abbreviation carriage_return :: char where "carriage_return \<equiv> CHR 0x0D"

text \<open>JSONL: each line followed by a newline.\<close>

definition join_lines :: "bytes list \<Rightarrow> bytes" where
  "join_lines ls = concat (map (\<lambda>l. l @ [newline]) ls)"

definition nonempty_lines :: "bytes \<Rightarrow> bytes list" where
  "nonempty_lines raw = filter (\<lambda>l. l \<noteq> []) (split_on newline raw)"

lemma join_lines_simps [simp]:
  "join_lines [] = []" "join_lines (l # ls) = l @ newline # join_lines ls"
  by (simp_all add: join_lines_def)

lemma split_on_join_lines:
  "\<forall>l \<in> set ls. newline \<notin> set l \<Longrightarrow> split_on newline (join_lines ls) = ls @ [[]]"
  by (induction ls) (simp_all add: split_on_append)

lemma nonempty_lines_join_lines:
  assumes "\<forall>l \<in> set ls. newline \<notin> set l \<and> l \<noteq> []"
  shows "nonempty_lines (join_lines ls) = ls"
  using assms by (simp add: nonempty_lines_def split_on_join_lines)

subsection \<open>\<open>bufio.Scanner\<close> over lines\<close>

text \<open>
  \<open>bufio.ScanLines\<close> cuts at each newline and drops one trailing carriage return of the line.
  A line that does not fit into the buffer of \<open>cap\<close> bytes together with its newline ends the
  scan with \<open>bufio.ErrTooLong\<close>.
\<close>

definition drop_cr :: "bytes \<Rightarrow> bytes" where
  "drop_cr l = (if l \<noteq> [] \<and> last l = carriage_return then butlast l else l)"

abbreviation err_too_long :: error where "err_too_long \<equiv> Fail ''bufio.Scanner: token too long''"

function scan_lines :: "nat \<Rightarrow> bytes \<Rightarrow> bytes list result" where
  "scan_lines cap raw =
     (if raw = [] then Inr []
      else let line = takeWhile (\<lambda>c. c \<noteq> newline) raw; rest = drop (Suc (length line)) raw
        in if cap \<le> length line then Inl err_too_long
           else (case scan_lines cap rest of
                   Inl e \<Rightarrow> Inl e
                 | Inr ls \<Rightarrow> Inr (drop_cr line # ls)))"
  by pat_completeness auto
termination
  by (relation "measure (\<lambda>(cap, raw). length raw)") auto

declare scan_lines.simps [simp del]

lemma scan_lines_join_lines:
  assumes "\<forall>l \<in> set ls. newline \<notin> set l \<and> length l < cap"
  shows "scan_lines cap (join_lines ls) = Inr (map drop_cr ls)"
  using assms
proof (induction ls)
  case Nil
  then show ?case by (simp add: scan_lines.simps)
next
  case (Cons l ls)
  have "takeWhile (\<lambda>c. c \<noteq> newline) (l @ newline # join_lines ls) = l"
    using Cons.prems by (subst takeWhile_append2) auto
  with Cons show ?case by (subst scan_lines.simps) (simp add: Let_def)
qed

subsection \<open>\<open>fmt.Sscanf(s, "block:%020d", &num)\<close>\<close>

text \<open>
  The literal prefix must match; \<open>%d\<close> then skips blanks (a newline there is an error) and
  takes at most 20 decimal digits, at least one; what follows them is ignored.
\<close>

definition is_blank :: "char \<Rightarrow> bool" where
  "is_blank c \<longleftrightarrow> c \<in> {CHR 0x09, CHR 0x0B, CHR 0x0C, CHR 0x0D, CHR '' ''}"

definition sscanf_20d :: "string \<Rightarrow> string \<Rightarrow> u64 result" where
  "sscanf_20d lit s =
     (if \<not> has_prefix s lit then Inl (Fail ''input does not match format'')
      else let rest = dropWhile is_blank (drop (length lit) s);
               ds = takeWhile is_digit (take 20 rest)
        in if ds = [] then Inl (Fail ''expected integer'') else ParseUint ds 10)"

lemma sscanf_20d_fmt [key_simps]: "sscanf_20d lit (lit @ fmt_020d n) = Inr n"
proof -
  have digits: "list_all is_digit (fmt_020d n)" by (rule fmt_020d_digits)
  have nonempty: "fmt_020d n \<noteq> []" using length_fmt_020d [of n] by (metis list.size(3) zero_neq_numeral)
  have "\<not> is_blank c" if "is_digit c" for c
    using that by (auto simp: is_digit_def is_blank_def)
  then have drop: "dropWhile is_blank (fmt_020d n) = fmt_020d n"
    using digits nonempty by (cases "fmt_020d n") auto
  have take: "takeWhile is_digit (fmt_020d n) = fmt_020d n"
    using digits unfolding list_all_iff by (subst takeWhile_eq_all_conv)
  show ?thesis
    by (simp add: sscanf_20d_def Let_def ParseUint_fmt_020d drop take nonempty
        del: takeWhile_eq_all_conv)
qed

subsection \<open>\<open>binary.BigEndian\<close>\<close>

definition PutUint64 :: "u64 \<Rightarrow> bytes" where
  "PutUint64 v = map (\<lambda>i. char_of (unat v div 256 ^ (8 - Suc i))) [0..<8]"

definition BigEndian_Uint64 :: "bytes \<Rightarrow> u64" where
  "BigEndian_Uint64 b = of_nat (foldl (\<lambda>a c. a * 256 + of_char c) 0 (take 8 b))"

lemma length_PutUint64 [simp]: "length (PutUint64 v) = 8"
  by (simp add: PutUint64_def)

lemma foldl_be_bytes:
  "foldl (\<lambda>a c. a * 256 + of_char c) a (map (\<lambda>i. char_of (v div 256 ^ (k - Suc i))) [0..<k])
     = a * 256 ^ k + v mod 256 ^ k" for a v k :: nat
proof (induction k arbitrary: a)
  case 0
  then show ?case by simp
next
  case (Suc k)
  have "map (\<lambda>i. char_of (v div 256 ^ (Suc k - Suc i))) [0..<Suc k] =
      char_of (v div 256 ^ k) # map (\<lambda>i. char_of (v div 256 ^ (k - Suc i)) :: char) [0..<k]"
    by (subst upt_conv_Cons) (simp_all add: map_Suc_upt [symmetric] del: upt_Suc)
  then have "foldl (\<lambda>a c. a * 256 + of_char c) a
      (map (\<lambda>i. char_of (v div 256 ^ (Suc k - Suc i))) [0..<Suc k])
      = (a * 256 + v div 256 ^ k mod 256) * 256 ^ k + v mod 256 ^ k"
    by (simp only: foldl_Cons Suc.IH) simp
  also have "\<dots> = a * 256 ^ Suc k + (256 ^ k * (v div 256 ^ k mod 256) + v mod 256 ^ k)"
    by (simp add: algebra_simps)
  also have "256 ^ k * (v div 256 ^ k mod 256) + v mod 256 ^ k = v mod 256 ^ Suc k"
    by (simp add: mod_mult2_eq power_Suc2 del: power_Suc)
  finally show ?case .
qed

lemma BigEndian_PutUint64 [simp]: "BigEndian_Uint64 (PutUint64 v) = v"
proof -
  have "unat v mod 256 ^ 8 = unat v" using unat_u64_bound [of v] by (simp del: unat_u64_bound)
  then have "foldl (\<lambda>a c. a * 256 + of_char c) 0 (PutUint64 v) = unat v"
    using foldl_be_bytes [of 0 "unat v" 8] by (simp add: PutUint64_def)
  then show ?thesis by (simp add: BigEndian_Uint64_def)
qed

end
