(* ===== verification/KV.thy ===== *)
theory KV
  imports Prelude
begin

section \<open>The databases the block store is built on\<close>

text \<open>
  The program stores everything in an ordered key-value store it does not implement:
  CockroachDB's Pebble (standalone service) or the \<open>database.Database\<close> of avalanchego (VM
  plugin).  Both are parameters of the model: a record of the operations the code calls on an
  opaque state \<open>'db\<close>, and a locale with what their documentation promises, stated through a
  function \<open>content\<close> that reads the state as a finite map from keys to values.  A write may
  report an error; then it has happened entirely or not at all (both libraries apply a write or a
  batch atomically).  A read may fail; what it returns without an error is right.
\<close>

text \<open>What a write with result \<open>r\<close> may leave behind: \<open>new\<close>, or \<open>old\<close> if it failed.\<close>

definition write_outcome :: "error option \<Rightarrow> 'a \<Rightarrow> 'a \<Rightarrow> 'a \<Rightarrow> bool" where
  "write_outcome r old new res \<longleftrightarrow> res = new \<or> (r \<noteq> None \<and> res = old)"

lemma write_outcome_ok [simp]: "write_outcome None old new res \<longleftrightarrow> res = new"
  by (simp add: write_outcome_def)

lemma write_outcome_cases:
  assumes "write_outcome r old new res"
  obtains (written) "res = new" | (failed) "r \<noteq> None" "res = old"
  using assms by (auto simp: write_outcome_def)

lemma write_outcome_map: "write_outcome r old new res \<Longrightarrow> write_outcome r (f old) (f new) (f res)"
  by (auto simp: write_outcome_def)

definition in_range :: "bytes \<Rightarrow> bytes \<Rightarrow> bytes \<Rightarrow> bool" where
  "in_range lo hi k \<longleftrightarrow> lo \<le> k \<and> k < hi"

definition delete_range :: "bytes \<Rightarrow> bytes \<Rightarrow> (bytes \<rightharpoonup> bytes) \<Rightarrow> (bytes \<rightharpoonup> bytes)" where
  "delete_range lo hi m = (\<lambda>k. if in_range lo hi k then None else m k)"

definition delete_keys :: "bytes list \<Rightarrow> (bytes \<rightharpoonup> bytes) \<Rightarrow> (bytes \<rightharpoonup> bytes)" where
  "delete_keys ks m = (\<lambda>k. if k \<in> set ks then None else m k)"

subsection \<open>Pebble\<close>

text \<open>
  \<open>pb_first db lo hi\<close> is \<open>NewIter(LowerBound: lo, UpperBound: hi)\<close> followed by \<open>First()\<close> and
  \<open>Key()\<close>: an error if the iterator cannot be opened, \<open>None\<close> if \<open>First()\<close> is false;
  \<open>pb_last\<close> is the same with \<open>Last()\<close>.  \<open>pb_close\<close> is \<open>Close\<close>: the database keeps what it holds,
  to be opened again.
\<close>

record 'db pebble =
  pb_get :: "'db \<Rightarrow> bytes \<Rightarrow> bytes result"
  pb_set :: "'db \<Rightarrow> bytes \<Rightarrow> bytes \<Rightarrow> error option \<times> 'db"
  pb_delete_range :: "'db \<Rightarrow> bytes \<Rightarrow> bytes \<Rightarrow> error option \<times> 'db"
  pb_first :: "'db \<Rightarrow> bytes \<Rightarrow> bytes \<Rightarrow> bytes option result"
  pb_last :: "'db \<Rightarrow> bytes \<Rightarrow> bytes \<Rightarrow> bytes option result"
  pb_close :: "'db \<Rightarrow> error option \<times> 'db"

locale pebble_laws =
  fixes pb :: "'db pebble"
    and content :: "'db \<Rightarrow> (bytes \<rightharpoonup> bytes)"
  assumes get_sound: "pb_get pb db k = Inr v \<Longrightarrow> content db k = Some v"
    and set_law: "pb_set pb db k v = (r, db') \<Longrightarrow>
      write_outcome r (content db) ((content db)(k \<mapsto> v)) (content db')"
    and delete_range_law: "pb_delete_range pb db lo hi = (r, db') \<Longrightarrow>
      write_outcome r (content db) (delete_range lo hi (content db)) (content db')"
    and first_none: "pb_first pb db lo hi = Inr None \<Longrightarrow>
      \<not> (\<exists>k \<in> dom (content db). in_range lo hi k)"
    and first_some: "pb_first pb db lo hi = Inr (Some k) \<Longrightarrow>
      k \<in> dom (content db) \<and> in_range lo hi k \<and>
      (\<forall>k' \<in> dom (content db). in_range lo hi k' \<longrightarrow> k \<le> k')"
    and last_none: "pb_last pb db lo hi = Inr None \<Longrightarrow>
      \<not> (\<exists>k \<in> dom (content db). in_range lo hi k)"
    and last_some: "pb_last pb db lo hi = Inr (Some k) \<Longrightarrow>
      k \<in> dom (content db) \<and> in_range lo hi k \<and>
      (\<forall>k' \<in> dom (content db). in_range lo hi k' \<longrightarrow> k' \<le> k)"
    and close_law: "pb_close pb db = (r, db') \<Longrightarrow> content db' = content db"

text \<open>A healthy Pebble: no operation reports an error but a read of an absent key.\<close>

locale healthy_pebble = pebble_laws +
  assumes get_complete: "content db k = Some v \<Longrightarrow> pb_get pb db k = Inr v"
    and set_total: "fst (pb_set pb db k v) = None"
    and delete_range_total: "fst (pb_delete_range pb db lo hi) = None"
    and first_total: "\<exists>r. pb_first pb db lo hi = Inr r"
    and last_total: "\<exists>r. pb_last pb db lo hi = Inr r"

subsection \<open>avalanchego's \<open>database.Database\<close>\<close>

text \<open>
  \<open>av_iter db p\<close> lists the keys that \<open>NewIteratorWithPrefix(p)\<close> and \<open>Next()\<close> visit, in
  order; the code never asks the iterator for its error, so an iteration that fails is one that
  stops early.  Batches are built key by key and written in one step.
\<close>

record ('db, 'batch) avadb =
  av_get :: "'db \<Rightarrow> bytes \<Rightarrow> slice result"
  av_put :: "'db \<Rightarrow> bytes \<Rightarrow> bytes \<Rightarrow> error option \<times> 'db"
  av_iter :: "'db \<Rightarrow> bytes \<Rightarrow> bytes list"
  av_new_batch :: "'db \<Rightarrow> 'batch"
  av_batch_delete :: "'batch \<Rightarrow> bytes \<Rightarrow> error option \<times> 'batch"
  av_batch_write :: "'db \<Rightarrow> 'batch \<Rightarrow> error option \<times> 'db"

locale avadb_laws =
  fixes av :: "('db, 'batch) avadb"
    and content :: "'db \<Rightarrow> (bytes \<rightharpoonup> bytes)"
    and deletes :: "'batch \<Rightarrow> bytes list"
  assumes get_sound: "av_get av db k = Inr d \<Longrightarrow> content db k = Some (slice_bytes d)"
    and put_law: "av_put av db k v = (r, db') \<Longrightarrow>
      write_outcome r (content db) ((content db)(k \<mapsto> v)) (content db')"
    and iter_sorted: "sorted_wrt (<) (av_iter av db p)"
    and iter_sound: "k \<in> set (av_iter av db p) \<Longrightarrow>
      k \<in> dom (content db) \<and> take (length p) k = p"
    and iter_closed: "k \<in> set (av_iter av db p) \<Longrightarrow> k' \<in> dom (content db) \<Longrightarrow>
      take (length p) k' = p \<Longrightarrow> k' \<le> k \<Longrightarrow> k' \<in> set (av_iter av db p)"
    and new_batch_law: "deletes (av_new_batch av db) = []"
    and batch_delete_law: "av_batch_delete av b k = (None, b') \<Longrightarrow> deletes b' = deletes b @ [k]"
    and batch_write_law: "av_batch_write av db b = (r, db') \<Longrightarrow>
      write_outcome r (content db) (delete_keys (deletes b) (content db)) (content db')"

locale healthy_avadb = avadb_laws +
  assumes get_complete: "content db k = Some v \<Longrightarrow> \<exists>d. av_get av db k = Inr d"
    and put_total: "fst (av_put av db k v) = None"
    and iter_complete: "k \<in> dom (content db) \<Longrightarrow> take (length p) k = p \<Longrightarrow>
      k \<in> set (av_iter av db p)"
    and batch_delete_total: "fst (av_batch_delete av b k) = None"
    and batch_write_total: "fst (av_batch_write av db b) = None"

subsection \<open>An in-memory instance\<close>

text \<open>
  An association list with the documented behaviour of both libraries, used to show that the
  hypotheses above can hold and to evaluate the model on concrete runs.
\<close>

type_synonym memdb = "(bytes \<times> bytes) list"

definition mem_get :: "memdb \<Rightarrow> bytes \<Rightarrow> bytes result" where
  "mem_get db k = (case map_of db k of None \<Rightarrow> Inl (Fail ''not found'') | Some v \<Rightarrow> Inr v)"

definition mem_set :: "memdb \<Rightarrow> bytes \<Rightarrow> bytes \<Rightarrow> error option \<times> memdb" where
  "mem_set db k v = (None, (k, v) # filter (\<lambda>p. fst p \<noteq> k) db)"

definition mem_delete_range :: "memdb \<Rightarrow> bytes \<Rightarrow> bytes \<Rightarrow> error option \<times> memdb" where
  "mem_delete_range db lo hi = (None, filter (\<lambda>p. \<not> in_range lo hi (fst p)) db)"

definition mem_delete_keys :: "memdb \<Rightarrow> bytes list \<Rightarrow> error option \<times> memdb" where
  "mem_delete_keys db ks = (None, filter (\<lambda>p. fst p \<notin> set ks) db)"

definition mem_keys :: "(bytes \<Rightarrow> bool) \<Rightarrow> memdb \<Rightarrow> bytes list" where
  "mem_keys P db = sort (remdups (filter P (map fst db)))"

definition mem_pebble :: "memdb pebble" where
  "mem_pebble = \<lparr>pb_get = mem_get, pb_set = mem_set, pb_delete_range = mem_delete_range,
     pb_first = (\<lambda>db lo hi. case mem_keys (in_range lo hi) db of [] \<Rightarrow> Inr None | k # _ \<Rightarrow> Inr (Some k)),
     pb_last = (\<lambda>db lo hi. case rev (mem_keys (in_range lo hi) db) of [] \<Rightarrow> Inr None
                  | k # _ \<Rightarrow> Inr (Some k)),
     pb_close = (\<lambda>db. (None, db))\<rparr>"

definition mem_avadb :: "(memdb, bytes list) avadb" where
  "mem_avadb = \<lparr>av_get = (\<lambda>db k. case mem_get db k of Inl e \<Rightarrow> Inl e | Inr v \<Rightarrow> Inr (Some v)),
     av_put = mem_set, av_iter = (\<lambda>db p. mem_keys (\<lambda>k. take (length p) k = p) db),
     av_new_batch = (\<lambda>_. []), av_batch_delete = (\<lambda>b k. (None, b @ [k])),
     av_batch_write = mem_delete_keys\<rparr>"

lemmas mem_defs = mem_pebble_def mem_avadb_def mem_get_def mem_set_def mem_delete_range_def
  mem_delete_keys_def

lemma map_of_filter_key: "map_of (filter (\<lambda>p. P (fst p)) db) = (\<lambda>k. if P k then map_of db k else None)"
  by (induction db) auto

lemmas map_of_filters =
  map_of_filter_key [of "\<lambda>k'. k' \<noteq> k" for k]
  map_of_filter_key [of "\<lambda>k'. k' \<notin> A" for A]
  map_of_filter_key [of "\<lambda>k'. \<not> in_range lo hi k'" for lo hi]

lemma map_of_mem_set: "map_of (snd (mem_set db k v)) = (map_of db)(k \<mapsto> v)"
  by (auto simp: mem_set_def map_of_filters fun_eq_iff)

lemma set_mem_keys [simp]: "set (mem_keys P db) = {k \<in> dom (map_of db). P k}"
  by (auto simp: mem_keys_def dom_map_of_conv_image_fst)

lemma sorted_mem_keys: "sorted_wrt (<) (mem_keys P db)"
  by (simp add: mem_keys_def strict_sorted_iff)

lemma sorted_hd_le: "sorted_wrt (<) (k # ks) \<Longrightarrow> k' \<in> set (k # ks) \<Longrightarrow> (k :: bytes) \<le> k'"
  by auto

lemma sorted_last_ge: "sorted_wrt (<) xs \<Longrightarrow> rev xs = k # ks \<Longrightarrow> k' \<in> set xs \<Longrightarrow> k' \<le> (k :: bytes)"
  by (auto simp: rev_swap sorted_wrt_append)

lemma mem_keys_empty: "mem_keys P db = [] \<Longrightarrow> k \<in> dom (map_of db) \<Longrightarrow> \<not> P k"
  using set_mem_keys [of P db] by (metis (mono_tags, lifting) empty_iff list.set(1) mem_Collect_eq)

lemma mem_keys_hd:
  assumes "mem_keys P db = k # ks"
  shows "k \<in> dom (map_of db) \<and> P k \<and> (\<forall>k' \<in> dom (map_of db). P k' \<longrightarrow> k \<le> k')"
proof -
  have mem: "k' \<in> set (k # ks) \<longleftrightarrow> k' \<in> dom (map_of db) \<and> P k'" for k'
    using set_mem_keys [of P db] assms by simp
  have "sorted_wrt (<) (k # ks)" using sorted_mem_keys [of P db] assms by simp
  then have "k \<le> k'" if "k' \<in> dom (map_of db)" "P k'" for k'
    using that mem [of k'] by (intro sorted_hd_le) blast+
  moreover have "k \<in> dom (map_of db) \<and> P k" using mem [of k] by simp
  ultimately show ?thesis by blast
qed

lemma mem_keys_last:
  assumes "rev (mem_keys P db) = k # ks"
  shows "k \<in> dom (map_of db) \<and> P k \<and> (\<forall>k' \<in> dom (map_of db). P k' \<longrightarrow> k' \<le> k)"
proof -
  have "k \<in> set (rev (mem_keys P db))" using assms by simp
  then have "k \<in> dom (map_of db) \<and> P k" by simp
  with sorted_last_ge [OF sorted_mem_keys assms] show ?thesis by simp
qed

lemma mem_pebble_first_simps:
  "pb_first mem_pebble db lo hi = Inr None \<longleftrightarrow> mem_keys (in_range lo hi) db = []"
  "pb_first mem_pebble db lo hi = Inr (Some k) \<longleftrightarrow> (\<exists>ks. mem_keys (in_range lo hi) db = k # ks)"
  by (simp_all add: mem_pebble_def split: list.splits)

lemma mem_pebble_last_simps:
  "pb_last mem_pebble db lo hi = Inr None \<longleftrightarrow> mem_keys (in_range lo hi) db = []"
  "pb_last mem_pebble db lo hi = Inr (Some k) \<longleftrightarrow> (\<exists>ks. rev (mem_keys (in_range lo hi) db) = k # ks)"
  by (auto simp add: mem_pebble_def split: list.splits)

interpretation mem_pebble: healthy_pebble mem_pebble map_of
proof unfold_locales
  fix db :: memdb and lo hi k :: bytes
  show "\<not> (\<exists>k \<in> dom (map_of db). in_range lo hi k)"
    if "pb_first mem_pebble db lo hi = Inr None"
    using that by (auto simp: mem_pebble_first_simps dest: mem_keys_empty)
  show "\<not> (\<exists>k \<in> dom (map_of db). in_range lo hi k)"
    if "pb_last mem_pebble db lo hi = Inr None"
    using that by (auto simp: mem_pebble_last_simps dest: mem_keys_empty)
  show "k \<in> dom (map_of db) \<and> in_range lo hi k \<and>
      (\<forall>k' \<in> dom (map_of db). in_range lo hi k' \<longrightarrow> k \<le> k')"
    if "pb_first mem_pebble db lo hi = Inr (Some k)"
    using that unfolding mem_pebble_first_simps by (elim exE) (rule mem_keys_hd)
  show "k \<in> dom (map_of db) \<and> in_range lo hi k \<and>
      (\<forall>k' \<in> dom (map_of db). in_range lo hi k' \<longrightarrow> k' \<le> k)"
    if "pb_last mem_pebble db lo hi = Inr (Some k)"
    using that unfolding mem_pebble_last_simps by (elim exE) (rule mem_keys_last)
qed (auto simp: mem_defs map_of_filters delete_range_def fun_eq_iff
    split: option.splits list.splits)

interpretation mem_avadb: healthy_avadb mem_avadb map_of "\<lambda>b. b"
  by unfold_locales
    (auto simp: mem_defs map_of_filters delete_keys_def fun_eq_iff sorted_mem_keys
      dest!: sym [of _ "map_of _ _"] split: option.splits)

end
