(* ===== verification/Keys.thy ===== *)
theory Keys
  imports GoText KV
begin

section \<open>The key layout of the block store\<close>

text \<open>
  \<open>evm-ingestion/storage/pebble.go\<close>, lines 16 to 74: the three kinds of keys, how they are
  printed and parsed.  Block numbers are zero-padded to 20 digits, enough for every \<open>uint64\<close>,
  so the byte order of the keys is the numeric order of the blocks: the iterators of the two
  \<open>Storage\<close> implementations rest on that.
\<close>

definition metaKey :: bytes where "metaKey = ''meta''"

definition blockKey :: "u64 \<Rightarrow> bytes" where
  "blockKey blockNum = ''block:'' @ fmt_020d blockNum"

definition batchKey :: "u64 \<Rightarrow> u64 \<Rightarrow> bytes" where
  "batchKey start end = ''batch:'' @ fmt_020d start @ ''-'' @ fmt_020d end"

definition parseBlockKey :: "bytes \<Rightarrow> u64 option" where
  "parseBlockKey key = (case sscanf_20d ''block:'' key of Inl _ \<Rightarrow> None | Inr num \<Rightarrow> Some num)"

definition parseBatchKey :: "bytes \<Rightarrow> (u64 \<times> u64) option" where
  "parseBatchKey key =
     (let parts = split_on CHR '':'' key in
      if length parts \<noteq> 2 \<or> parts ! 0 \<noteq> ''batch'' then None
      else let rangeParts = split_on CHR ''-'' (parts ! 1) in
        if length rangeParts \<noteq> 2 then None
        else (case ParseUint (rangeParts ! 0) 10 of
                Inl _ \<Rightarrow> None
              | Inr start \<Rightarrow>
                  (case ParseUint (rangeParts ! 1) 10 of
                     Inl _ \<Rightarrow> None
                   | Inr end \<Rightarrow> Some (start, end))))"

subsection \<open>Parsing inverts printing\<close>

lemma parseBlockKey_blockKey [key_simps, simp]: "parseBlockKey (blockKey n) = Some n"
  by (simp add: parseBlockKey_def blockKey_def sscanf_20d_fmt del: append_Cons)

lemma fmt_020d_no_sep [simp]:
  "CHR '':'' \<notin> set (fmt_020d n)" "CHR ''-'' \<notin> set (fmt_020d n)"
  using fmt_020d_digits [of n] by (auto simp: list_all_iff is_digit_def)

lemma parseBatchKey_batchKey [key_simps, simp]: "parseBatchKey (batchKey s e) = Some (s, e)"
proof -
  have "split_on CHR '':'' (batchKey s e) = [''batch'', fmt_020d s @ ''-'' @ fmt_020d e]"
    using split_on_append [of "CHR '':''" "''batch''" "fmt_020d s @ ''-'' @ fmt_020d e"]
    by (simp add: batchKey_def split_on_absent)
  moreover have "split_on CHR ''-'' (fmt_020d s @ ''-'' @ fmt_020d e) = [fmt_020d s, fmt_020d e]"
    by (simp add: split_on_append split_on_absent)
  ultimately show ?thesis
    by (simp add: parseBatchKey_def Let_def ParseUint_fmt_020d)
qed

lemma blockKey_inject [key_simps, simp]: "blockKey a = blockKey b \<longleftrightarrow> a = b"
  by (simp add: blockKey_def)

lemma batchKey_inject [key_simps, simp]: "batchKey a b = batchKey c d \<longleftrightarrow> a = c \<and> b = d"
  by (metis parseBatchKey_batchKey option.inject prod.inject)

lemma key_kinds_distinct [key_simps, simp]:
  "blockKey a \<noteq> batchKey b c" "batchKey b c \<noteq> blockKey a"
  "blockKey a \<noteq> metaKey" "metaKey \<noteq> blockKey a"
  "batchKey b c \<noteq> metaKey" "metaKey \<noteq> batchKey b c"
  by (simp_all add: blockKey_def batchKey_def metaKey_def)

subsection \<open>The order of the keys\<close>

lemma append_less_same_length:
  "length xs = length xs' \<Longrightarrow> xs @ ys < xs' @ ys' \<longleftrightarrow> xs < xs' \<or> (xs = xs' \<and> ys < (ys' :: bytes))"
  by (induction xs xs' rule: list_induct2) auto

lemma blockKey_less_iff [key_simps]: "blockKey a < blockKey b \<longleftrightarrow> a < b"
  by (simp add: blockKey_def fmt_020d_less_iff)

lemma blockKey_le_iff [key_simps]: "blockKey a \<le> blockKey b \<longleftrightarrow> a \<le> b"
  by (metis blockKey_less_iff not_le)

lemma batchKey_less_iff [key_simps]:
  "batchKey a b < batchKey c d \<longleftrightarrow> a < c \<or> (a = c \<and> b < d)"
  by (simp add: batchKey_def append_less_same_length fmt_020d_less_iff)

lemma batchKey_le_iff [key_simps]:
  "batchKey a b \<le> batchKey c d \<longleftrightarrow> a < c \<or> (a = c \<and> b \<le> d)"
  by (metis batchKey_less_iff linorder_not_less order_le_less not_less_iff_gr_or_eq)

text \<open>
  The two iterator ranges \<open>["block:", "block;")\<close> and \<open>["batch:", "batch;")\<close> separate the
  kinds, and so do the prefixes \<open>"block:"\<close> and \<open>"batch:"\<close>.
\<close>

definition block_range :: "bytes \<Rightarrow> bool" where "block_range = in_range ''block:'' ''block;''"
definition batch_range :: "bytes \<Rightarrow> bool" where "batch_range = in_range ''batch:'' ''batch;''"

lemma range_simps [key_simps, simp]:
  "block_range (blockKey n)" "\<not> block_range (batchKey s e)" "\<not> block_range metaKey"
  "batch_range (batchKey s e)" "\<not> batch_range (blockKey n)" "\<not> batch_range metaKey"
  by (simp_all add: block_range_def batch_range_def in_range_def blockKey_def batchKey_def
      metaKey_def less_char_def)

lemma prefix_simps [key_simps, simp]:
  "take 6 (blockKey n) = ''block:''" "take 6 (batchKey s e) = ''batch:''"
  "take 6 metaKey = ''meta''"
  by (simp_all add: blockKey_def batchKey_def metaKey_def)

lemma blockKey_in_range [key_simps]:
  "in_range (blockKey lo) (blockKey hi) (blockKey n) \<longleftrightarrow> lo \<le> n \<and> n < hi"
  "\<not> in_range (blockKey lo) (blockKey hi) (batchKey s e)"
  "\<not> in_range (blockKey lo) (blockKey hi) metaKey"
  by (auto simp: in_range_def blockKey_le_iff blockKey_less_iff)
    (auto simp: blockKey_def batchKey_def metaKey_def less_char_def)

text \<open>A database that holds keys of the three kinds only.\<close>

definition well_keyed :: "(bytes \<rightharpoonup> bytes) \<Rightarrow> bool" where
  "well_keyed m \<longleftrightarrow> (\<forall>k \<in> dom m. k = metaKey \<or> (\<exists>n. k = blockKey n) \<or> (\<exists>s e. k = batchKey s e))"

lemma well_keyed_upd [simp]:
  "well_keyed m \<Longrightarrow> well_keyed (m(blockKey n \<mapsto> v))"
  "well_keyed m \<Longrightarrow> well_keyed (m(batchKey s e \<mapsto> v))"
  "well_keyed m \<Longrightarrow> well_keyed (m(metaKey \<mapsto> v))"
  by (auto simp: well_keyed_def)

lemma well_keyed_delete [simp]:
  "well_keyed m \<Longrightarrow> well_keyed (delete_range lo hi m)"
  "well_keyed m \<Longrightarrow> well_keyed (delete_keys ks m)"
  by (auto simp: well_keyed_def delete_range_def delete_keys_def dom_def split: if_splits)

lemma well_keyed_empty [simp]: "well_keyed Map.empty"
  by (simp add: well_keyed_def)

lemma well_keyed_cases:
  assumes "well_keyed m" "k \<in> dom m"
  obtains (meta) "k = metaKey" | (block) n where "k = blockKey n" | (batch) s e where "k = batchKey s e"
  using assms unfolding well_keyed_def by blast

lemma well_keyed_block:
  assumes "well_keyed m" "k \<in> dom m" and "block_range k \<or> take 6 k = ''block:''"
  obtains n where "k = blockKey n"
  using assms(1,2) by (rule well_keyed_cases) (use assms(3) that in auto)

lemma well_keyed_batch:
  assumes "well_keyed m" "k \<in> dom m" and "batch_range k \<or> take 6 k = ''batch:''"
  obtains s e where "k = batchKey s e"
  using assms(1,2) by (rule well_keyed_cases) (use assms(3) that in auto)

subsection \<open>The property\<close>

text \<open>C39: Keys parse back to the numbers they were printed from, and their byte order, which the
  iterators of both stores follow, is the numeric order of the blocks and of the batches.\<close>

theorem keys_parse_and_sort:
  "parseBlockKey (blockKey a) = Some a \<and> (blockKey a < blockKey b \<longleftrightarrow> a < b) \<and>
   parseBatchKey (batchKey a e) = Some (a, e) \<and>
   (batchKey a e < batchKey b f \<longleftrightarrow> a < b \<or> (a = b \<and> e < f))"
  by (simp add: blockKey_less_iff batchKey_less_iff)

end
