(* ===== verification/Consts.thy ===== *)
theory Consts
  imports Prelude
begin

section \<open>Package \<open>consts\<close>: the tunable constants\<close>

text \<open>
  \<open>evm-ingestion/consts/consts.go\<close>.  A \<open>time.Duration\<close> is an \<open>int64\<close> of nanoseconds; here
  it is an \<open>int\<close>, and the definitions that compute with durations say where the width matters.
  The untyped constants that the code uses at type \<open>uint64\<close> are words.
\<close>

definition Millisecond :: int where "Millisecond = 1000000"
definition Second :: int where "Second = 1000 * Millisecond"
definition Minute :: int where "Minute = 60 * Second"
definition Hour :: int where "Hour = 60 * Minute"

subsection \<open>RPC controller\<close>

definition RPCMetricsWindow :: int where "RPCMetricsWindow = 60 * Second"
definition RPCAdjustInterval :: int where "RPCAdjustInterval = 5 * Second"
definition RPCDefaultMaxParallelism :: int where "RPCDefaultMaxParallelism = 200"
definition RPCMaxLatency :: int where "RPCMaxLatency = 1000 * Millisecond"
definition RPCMaxErrorsPerMinute :: int where "RPCMaxErrorsPerMinute = 10"

subsection \<open>RPC fetcher\<close>

definition FetcherBatchSize :: int where "FetcherBatchSize = 50"
definition FetcherDebugBatchSizeMax :: int where "FetcherDebugBatchSizeMax = 2"
definition FetcherMaxRetries :: int where "FetcherMaxRetries = 20"
definition FetcherRetryDelay :: int where "FetcherRetryDelay = 500 * Millisecond"
definition FetcherHTTPTimeout :: int where "FetcherHTTPTimeout = 30 * Second"
definition FetcherMaxIdleConns :: int where "FetcherMaxIdleConns = 100"
definition FetcherMaxConnsPerHost :: int where "FetcherMaxConnsPerHost = 50"
definition FetcherIdleConnTimeout :: int where "FetcherIdleConnTimeout = 90 * Second"
definition FetcherDialTimeout :: int where "FetcherDialTimeout = 30 * Second"

subsection \<open>Storage\<close>

definition StorageBatchSize :: u64 where "StorageBatchSize = 100"
definition StorageMinBlocksBeforeCompaction :: u64 where "StorageMinBlocksBeforeCompaction = 1000"
definition StorageCompactionInterval :: int where "StorageCompactionInterval = 3 * Second"

text \<open>
  The storage package renames two of them (\<open>BatchSize\<close> in \<open>pebble.go\<close>,
  \<open>MinBlocksBeforeCompaction\<close> in \<open>compactor.go\<close>).
\<close>

definition BatchSize :: u64 where "BatchSize = StorageBatchSize"
definition MinBlocksBeforeCompaction :: u64 where
  "MinBlocksBeforeCompaction = StorageMinBlocksBeforeCompaction"

lemmas duration_defs = Millisecond_def Second_def Minute_def Hour_def RPCMetricsWindow_def
  RPCAdjustInterval_def RPCMaxLatency_def FetcherRetryDelay_def

lemma BatchSize_val [simp]: "BatchSize = 100"
  by (simp add: BatchSize_def StorageBatchSize_def)

lemma MinBlocksBeforeCompaction_val [simp]: "MinBlocksBeforeCompaction = 1000"
  by (simp add: MinBlocksBeforeCompaction_def StorageMinBlocksBeforeCompaction_def)

subsection \<open>Server\<close>

definition ServerListenAddr :: string where "ServerListenAddr = '':9090''"
definition MetricsListenAddr :: string where "MetricsListenAddr = '':9091''"
definition ServerTipPollInterval :: int where "ServerTipPollInterval = 50 * Millisecond"

end
