(* ===== verification/Batch.thy ===== *)
theory Batch
  imports GoText Consts
begin

section \<open>Batches: alignment and the compressed JSONL format\<close>

text \<open>
  \<open>evm-ingestion/storage/batch.go\<close>.  The zstd codec (klauspost/compress) is a parameter: a
  record of the operations the code calls, and a locale with what they promise.
\<close>

subsection \<open>Alignment\<close>

definition BatchStart :: "u64 \<Rightarrow> u64" where
  "BatchStart blockNum =
     (if blockNum = 0 then 1 else ((blockNum - 1) div BatchSize) * BatchSize + 1)"

definition BatchEnd :: "u64 \<Rightarrow> u64" where
  "BatchEnd batchStart = batchStart + BatchSize - 1"

lemma unat_BatchStart [u64_simps]: "unat (BatchStart n) = (unat n - 1) div 100 * 100 + 1"
proof (cases "n = 0")
  case True
  then show ?thesis by (simp add: BatchStart_def)
next
  case False
  then have "1 \<le> n" by (simp add: u64_le_iff u64_eq_iff)
  then have m: "unat (n - 1) = unat n - 1" by (simp add: unat_sub_u64)
  have le: "(unat n - 1) div 100 * 100 \<le> unat n - 1" by (rule div_times_less_eq_dividend)
  then have "(unat n - 1) div 100 * 100 + 1 < 18446744073709551616"
    using unat_u64_bound [of n] by linarith
  then have "unat ((n - 1) div 100 * 100 + 1) = (unat n - 1) div 100 * 100 + 1"
    by (simp add: unat_word_ariths unat_div m)
  with False show ?thesis by (simp add: BatchStart_def)
qed

lemma BatchStart_le: "n \<noteq> 0 \<Longrightarrow> unat (BatchStart n) \<le> unat n"
  using div_times_less_eq_dividend [of "unat n - 1" 100]
  by (simp add: unat_BatchStart u64_eq_iff)

lemma BatchStart_pos [simp]: "1 \<le> unat (BatchStart n)" "BatchStart n \<noteq> 0"
  by (simp_all add: unat_BatchStart u64_eq_iff)

lemma BatchStart_near: "unat n < unat (BatchStart n) + 100"
proof -
  have "unat n - 1 < (unat n - 1) div 100 * 100 + 100"
    using div_mult_mod_eq [of "unat n - 1" 100] mod_less_divisor [of 100 "unat n - 1"] by linarith
  then show ?thesis by (simp add: unat_BatchStart)
qed

text \<open>A batch start is any number \<open>1, 101, 201, \<dots>\<close>.\<close>

definition aligned :: "u64 \<Rightarrow> bool" where
  "aligned a \<longleftrightarrow> unat a mod 100 = 1"

lemma aligned_BatchStart [simp]: "aligned (BatchStart n)"
proof -
  have "(q * 100 + 1) mod 100 = (1 :: nat)" for q by presburger
  then show ?thesis by (simp add: aligned_def unat_BatchStart)
qed

lemma BatchStart_aligned:
  assumes "aligned a" "unat a \<le> unat n" "unat n < unat a + 100"
  shows "BatchStart n = a"
proof -
  define q where "q = unat a div 100"
  have q: "unat a = q * 100 + 1"
    using assms(1) div_mult_mod_eq [of "unat a" 100] by (simp add: aligned_def q_def)
  have "(unat n - 1) div 100 = q"
    using assms(2,3) unfolding q by (intro div_nat_eqI) auto
  with q show ?thesis by (simp add: u64_eq_iff unat_BatchStart)
qed

text \<open>
  \<open>BatchEnd\<close> does not wrap for the batch of any block up to \<open>2^64 - 16\<close>: the last batch that
  fits.
\<close>

abbreviation last_batched :: nat where "last_batched \<equiv> 18446744073709551600"

lemma unat_BatchEnd:
  assumes "unat a + 99 < 18446744073709551616"
  shows "unat (BatchEnd a) = unat a + 99"
proof -
  have "BatchEnd a = a + 99" by (simp add: BatchEnd_def algebra_simps)
  then show ?thesis using assms by (simp add: unat_add_u64)
qed

lemma BatchStart_fits:
  assumes "unat n \<le> last_batched"
  shows "unat (BatchStart n) + 99 \<le> last_batched"
proof -
  have "(unat n - 1) div 100 \<le> (last_batched - 1) div 100"
    using assms by (intro div_le_mono) linarith
  then have "(unat n - 1) div 100 \<le> 184467440737095515" by simp
  then show ?thesis by (simp add: unat_BatchStart)
qed

subsection \<open>The codec\<close>

text \<open>
  \<open>zw_new\<close>, \<open>zw_write\<close> and \<open>zw_close\<close> are \<open>zstd.NewWriter\<close> into a buffer, \<open>Write\<close> and
  \<open>Close\<close> followed by \<open>buf.Bytes()\<close>; \<open>enc_all\<close> and \<open>dec_all\<close> are \<open>EncodeAll\<close> and
  \<open>DecodeAll\<close>; \<open>zr_new\<close> is \<open>zstd.NewReader\<close> with everything the reader then yields: the
  bytes before it stops and the error it stops with, if it is not the end of the data.
\<close>

record 'w zstd =
  zw_new :: "'w result"
  zw_write :: "'w \<Rightarrow> bytes \<Rightarrow> 'w result"
  zw_close :: "'w \<Rightarrow> bytes result"
  enc_all :: "bytes \<Rightarrow> bytes"
  dec_all :: "bytes \<Rightarrow> bytes result"
  zr_new :: "bytes \<Rightarrow> (bytes \<times> error option) result"

locale zstd_laws =
  fixes zs :: "'w zstd"
    and written :: "'w \<Rightarrow> bytes"
  assumes new_law: "zw_new zs = Inr w \<Longrightarrow> written w = []"
    and write_law: "zw_write zs w b = Inr w' \<Longrightarrow> written w' = written w @ b"
    and close_law: "zw_close zs w = Inr z \<Longrightarrow>
      dec_all zs z = Inr (written w) \<and> zr_new zs z = Inr (written w, None)"
    and enc_law: "dec_all zs (enc_all zs b) = Inr b"
    and dec_empty: "dec_all zs [] = Inr []"

locale healthy_zstd = zstd_laws +
  assumes new_total: "\<exists>w. zw_new zs = Inr w"
    and write_total: "\<exists>w'. zw_write zs w b = Inr w'"
    and close_total: "\<exists>z. zw_close zs w = Inr z"

text \<open>An instance: a codec that stores its input behind a one-byte header.\<close>

definition stored_codec :: "bytes zstd" where
  "stored_codec = \<lparr>zw_new = Inr [], zw_write = (\<lambda>w b. Inr (w @ b)), zw_close = (\<lambda>w. Inr (CHR 0x28 # w)),
     enc_all = (\<lambda>b. CHR 0x28 # b),
     dec_all = (\<lambda>z. case z of [] \<Rightarrow> Inr [] | c # b \<Rightarrow>
       if c = CHR 0x28 then Inr b else Inl (Fail ''magic number mismatch'')),
     zr_new = (\<lambda>z. case z of [] \<Rightarrow> Inr ([], None) | c # b \<Rightarrow>
       if c = CHR 0x28 then Inr (b, None) else Inr ([], Some (Fail ''magic number mismatch'')))\<rparr>"

interpretation stored_codec: healthy_zstd stored_codec "\<lambda>w. w"
  by unfold_locales (auto simp: stored_codec_def)

subsection \<open>Compression and decompression\<close>

fun write_blocks :: "'w zstd \<Rightarrow> 'w \<Rightarrow> bytes list \<Rightarrow> 'w result" where
  "write_blocks zs zw [] = Inr zw"
| "write_blocks zs zw (block # bs) =
     (case zw_write zs zw block of
        Inl err \<Rightarrow> Inl (Wrap ''failed to write block'' err)
      | Inr zw1 \<Rightarrow>
          (case zw_write zs zw1 [newline] of
             Inl err \<Rightarrow> Inl (Wrap ''failed to write newline'' err)
           | Inr zw2 \<Rightarrow> write_blocks zs zw2 bs))"

definition CompressBlocks :: "'w zstd \<Rightarrow> bytes list \<Rightarrow> bytes result" where
  "CompressBlocks zs blocks =
     (case zw_new zs of
        Inl err \<Rightarrow> Inl (Wrap ''failed to create zstd writer'' err)
      | Inr zw \<Rightarrow>
          (case write_blocks zs zw blocks of
             Inl err \<Rightarrow> Inl err
           | Inr zw' \<Rightarrow>
               (case zw_close zs zw' of
                  Inl err \<Rightarrow> Inl (Wrap ''failed to close zstd writer'' err)
                | Inr z \<Rightarrow> Inr z)))"

definition max_line :: nat where "max_line = 10 * 1024 * 1024"

definition DecompressBlocks :: "'w zstd \<Rightarrow> bytes \<Rightarrow> bytes list result" where
  "DecompressBlocks zs data =
     (case zr_new zs data of
        Inl err \<Rightarrow> Inl (Wrap ''failed to create zstd reader'' err)
      | Inr (out, rerr) \<Rightarrow>
          (case scan_lines max_line out of
             Inl err \<Rightarrow> Inl (Wrap ''failed to scan JSONL'' err)
           | Inr ls \<Rightarrow>
               (case rerr of
                  Some err \<Rightarrow> Inl (Wrap ''failed to scan JSONL'' err)
                | None \<Rightarrow> Inr (filter (\<lambda>line. line \<noteq> []) ls))))"

text \<open>Data of a block that survives as one line: not empty, without a newline.\<close>

definition valid_line :: "bytes \<Rightarrow> bool" where
  "valid_line d \<longleftrightarrow> d \<noteq> [] \<and> newline \<notin> set d"

context zstd_laws
begin

lemma write_blocks_written:
  "write_blocks zs zw bs = Inr zw' \<Longrightarrow> written zw' = written zw @ join_lines bs"
  by (induction bs arbitrary: zw) (auto split: sum.splits dest!: write_law)

lemma CompressBlocks_content:
  assumes "CompressBlocks zs bs = Inr z"
  shows "dec_all zs z = Inr (join_lines bs)" "zr_new zs z = Inr (join_lines bs, None)"
  using assms
  by (auto simp: CompressBlocks_def split: sum.splits
      dest!: close_law write_blocks_written new_law)

lemma CompressBlocks_nonempty:
  assumes "CompressBlocks zs bs = Inr z" "bs \<noteq> []"
  shows "z \<noteq> []"
  using CompressBlocks_content(1) [OF assms(1)] assms(2) dec_empty by (cases bs) auto

lemma Compress_Decompress:
  assumes z: "CompressBlocks zs bs = Inr z"
    and lines: "\<forall>b \<in> set bs. valid_line b \<and> last b \<noteq> carriage_return \<and> length b < max_line"
  shows "DecompressBlocks zs z = Inr bs"
proof -
  have "scan_lines max_line (join_lines bs) = Inr (map drop_cr bs)"
    using lines by (intro scan_lines_join_lines) (auto simp: valid_line_def)
  moreover have "map drop_cr bs = bs"
    using lines by (intro map_idI) (auto simp: drop_cr_def)
  moreover have "filter (\<lambda>line. line \<noteq> []) bs = bs"
    using lines by (intro filter_True) (auto simp: valid_line_def)
  ultimately show ?thesis
    using CompressBlocks_content(2) [OF z] by (simp add: DecompressBlocks_def)
qed

end

context healthy_zstd
begin

lemma write_blocks_total: "\<exists>zw'. write_blocks zs zw bs = Inr zw'"
proof (induction bs arbitrary: zw)
  case (Cons b bs)
  obtain zw1 where "zw_write zs zw b = Inr zw1" using write_total by blast
  moreover obtain zw2 where "zw_write zs zw1 [newline] = Inr zw2" using write_total by blast
  ultimately show ?case using Cons.IH by simp
qed simp

lemma CompressBlocks_total: "\<exists>z. CompressBlocks zs bs = Inr z"
proof -
  obtain zw where "zw_new zs = Inr zw" using new_total by blast
  moreover obtain zw' where "write_blocks zs zw bs = Inr zw'" using write_blocks_total by blast
  moreover obtain z where "zw_close zs zw' = Inr z" using close_total by blast
  ultimately show ?thesis by (simp add: CompressBlocks_def)
qed

end

subsection \<open>The properties\<close>

text \<open>The batch of a block is the aligned range of 100 blocks around it, and it is the batch of
  every block of that range; nothing wraps up to block \<open>2^64 - 16\<close>.\<close>

lemma batch_of_block:
  assumes "n \<noteq> 0" "unat n \<le> last_batched"
  shows "BatchStart n \<le> n \<and> n \<le> BatchEnd (BatchStart n) \<and> aligned (BatchStart n) \<and>
    unat (BatchEnd (BatchStart n)) = unat (BatchStart n) + 99 \<and>
    (\<forall>m. BatchStart n \<le> m \<and> m \<le> BatchEnd (BatchStart n) \<longrightarrow> BatchStart m = BatchStart n)"
proof -
  have hi: "unat (BatchEnd (BatchStart n)) = unat (BatchStart n) + 99"
    using BatchStart_fits [OF assms(2)] by (intro unat_BatchEnd) linarith
  have same: "BatchStart m = BatchStart n" if "BatchStart n \<le> m" "m \<le> BatchEnd (BatchStart n)" for m
    using that hi by (intro BatchStart_aligned) (simp_all add: u64_le_iff)
  have "BatchStart n \<le> n" "n \<le> BatchEnd (BatchStart n)"
    using BatchStart_le [OF assms(1)] BatchStart_near [of n] hi by (simp_all add: u64_le_iff)
  with hi aligned_BatchStart same show ?thesis by blast
qed

text \<open>C38: What \<open>CompressBlocks\<close> writes, \<open>DecompressBlocks\<close> reads back, for lines without a newline, a
  final carriage return or more than 10 MiB.\<close>

theorem compress_round_trip:
  assumes "zstd_laws zs written" "CompressBlocks zs bs = Inr z"
    and "\<forall>b \<in> set bs. valid_line b \<and> last b \<noteq> carriage_return \<and> length b < max_line"
  shows "DecompressBlocks zs z = Inr bs"
  using zstd_laws.Compress_Decompress [OF assms] .

theorem compress_round_trip_witness:
  "DecompressBlocks stored_codec (projr (CompressBlocks stored_codec [''block 1'', ''block 2''])) =
    Inr [''block 1'', ''block 2'']"
proof (rule compress_round_trip [OF stored_codec.zstd_laws_axioms])
  show "CompressBlocks stored_codec [''block 1'', ''block 2''] =
    Inr (projr (CompressBlocks stored_codec [''block 1'', ''block 2'']))"
    by (simp add: CompressBlocks_def stored_codec_def)
  show "\<forall>b \<in> set [''block 1'', ''block 2'']. valid_line b \<and> last b \<noteq> carriage_return \<and> length b < max_line"
    by (simp add: valid_line_def max_line_def)
qed

end
