(* ===== verification/Storage.thy ===== *)
theory Storage
  imports Batch KV
begin

section \<open>The \<open>Storage\<close> interface and its contract\<close>

text \<open>
  \<open>evm-ingestion/storage/interface.go\<close>.  A Go interface value is a record of the methods on an
  opaque state \<open>'s\<close>; the compactor, the server, the ingestion loop and the VM wrapper take
  such a record.  A pair \<open>(uint64, bool)\<close> is an option.  The locale \<open>block_store\<close> is the
  contract that every implementation must keep, against an abstract store with the individual
  blocks, the batches and the meta record as maps; \<open>healthy_store\<close> adds what holds while the
  database underneath reports no errors.
\<close>

record 's Storage =
  SaveBlock :: "'s \<Rightarrow> u64 \<Rightarrow> bytes \<Rightarrow> error option \<times> 's"
  GetBlock :: "'s \<Rightarrow> u64 \<Rightarrow> slice result"
  FirstBlock :: "'s \<Rightarrow> u64 option"
  LatestBlock :: "'s \<Rightarrow> u64 option"
  DeleteBlockRange :: "'s \<Rightarrow> u64 \<Rightarrow> u64 \<Rightarrow> error option \<times> 's"
  SaveBatch :: "'s \<Rightarrow> u64 \<Rightarrow> u64 \<Rightarrow> bytes \<Rightarrow> error option \<times> 's"
  GetBatchCompressed :: "'s \<Rightarrow> u64 \<Rightarrow> slice result"
  FirstBatch :: "'s \<Rightarrow> u64 option"
  LatestBatch :: "'s \<Rightarrow> u64 option"
  GetMeta :: "'s \<Rightarrow> u64"
  SaveMeta :: "'s \<Rightarrow> u64 \<Rightarrow> error option \<times> 's"
  BlockCount :: "'s \<Rightarrow> int"
  StorageClose :: "'s \<Rightarrow> error option \<times> 's"

subsection \<open>The abstract store\<close>

record absstore =
  blocks :: "u64 \<rightharpoonup> bytes"
  batches :: "u64 \<times> u64 \<rightharpoonup> bytes"
  meta :: u64

definition put_block :: "u64 \<Rightarrow> bytes \<Rightarrow> absstore \<Rightarrow> absstore" where
  "put_block n d a = a\<lparr>blocks := (blocks a)(n \<mapsto> d)\<rparr>"

definition drop_blocks :: "u64 \<Rightarrow> u64 \<Rightarrow> absstore \<Rightarrow> absstore" where
  "drop_blocks lo hi a = a\<lparr>blocks := (\<lambda>n. if lo \<le> n \<and> n \<le> hi then None else blocks a n)\<rparr>"

definition put_batch :: "u64 \<Rightarrow> u64 \<Rightarrow> bytes \<Rightarrow> absstore \<Rightarrow> absstore" where
  "put_batch s e z a = a\<lparr>batches := (batches a)((s, e) \<mapsto> z)\<rparr>"

definition put_meta :: "u64 \<Rightarrow> absstore \<Rightarrow> absstore" where
  "put_meta m a = a\<lparr>meta := m\<rparr>"

definition empty_store :: absstore where
  "empty_store = \<lparr>blocks = Map.empty, batches = Map.empty, meta = 0\<rparr>"

lemma absstore_simps [simp]:
  "blocks (put_block n d a) = (blocks a)(n \<mapsto> d)"
  "batches (put_block n d a) = batches a" "meta (put_block n d a) = meta a"
  "blocks (drop_blocks lo hi a) m = (if lo \<le> m \<and> m \<le> hi then None else blocks a m)"
  "batches (drop_blocks lo hi a) = batches a" "meta (drop_blocks lo hi a) = meta a"
  "blocks (put_batch s e z a) = blocks a" "batches (put_batch s e z a) = (batches a)((s, e) \<mapsto> z)"
  "meta (put_batch s e z a) = meta a"
  "blocks (put_meta k a) = blocks a" "batches (put_meta k a) = batches a" "meta (put_meta k a) = k"
  "blocks empty_store = Map.empty" "batches empty_store = Map.empty" "meta empty_store = 0"
  by (simp_all add: put_block_def drop_blocks_def put_batch_def put_meta_def empty_store_def)

text \<open>Deleting a range is one update per block number, whatever the order.\<close>

lemma dom_drop_blocks: "dom (blocks (drop_blocks lo hi a)) = dom (blocks a) - {n. lo \<le> n \<and> n \<le> hi}"
  by (auto split: if_splits)

subsection \<open>The contract\<close>

locale block_store =
  fixes S :: "'s Storage"
    and abs :: "'s \<Rightarrow> absstore"
    and inv :: "'s \<Rightarrow> bool"
  assumes SaveBlock_law: "inv s \<Longrightarrow> SaveBlock S s n d = (r, s') \<Longrightarrow>
      inv s' \<and> write_outcome r (abs s) (put_block n d (abs s)) (abs s')"
    and DeleteBlockRange_law: "inv s \<Longrightarrow> lo \<le> hi \<Longrightarrow> unat hi < 18446744073709551615 \<Longrightarrow>
      DeleteBlockRange S s lo hi = (r, s') \<Longrightarrow>
      inv s' \<and> write_outcome r (abs s) (drop_blocks lo hi (abs s)) (abs s')"
    and SaveBatch_law: "inv s \<Longrightarrow> SaveBatch S s lo hi z = (r, s') \<Longrightarrow>
      inv s' \<and> write_outcome r (abs s) (put_batch lo hi z (abs s)) (abs s')"
    and SaveMeta_law: "inv s \<Longrightarrow> SaveMeta S s m = (r, s') \<Longrightarrow>
      inv s' \<and> write_outcome r (abs s) (put_meta m (abs s)) (abs s')"
    and GetBlock_sound: "inv s \<Longrightarrow> GetBlock S s n = Inr sl \<Longrightarrow>
      blocks (abs s) n = Some (slice_bytes sl)"
    and GetBatch_sound: "inv s \<Longrightarrow> GetBatchCompressed S s a = Inr sl \<Longrightarrow>
      batches (abs s) (a, a + 99) = Some (slice_bytes sl)"
    and FirstBlock_sound: "inv s \<Longrightarrow> FirstBlock S s = Some n \<Longrightarrow>
      n \<in> dom (blocks (abs s)) \<and> (\<forall>m \<in> dom (blocks (abs s)). n \<le> m)"
    and LatestBatch_sound: "inv s \<Longrightarrow> LatestBatch S s = Some e \<Longrightarrow>
      \<exists>a. (a, e) \<in> dom (batches (abs s))"
    and GetMeta_sound: "inv s \<Longrightarrow> GetMeta S s = meta (abs s) \<or> GetMeta S s = 0"
    and Close_law: "inv s \<Longrightarrow> StorageClose S s = (r, s') \<Longrightarrow> inv s' \<and> abs s' = abs s"

text \<open>
  \<open>tracked\<close> says that the implementation knows its highest block.  Pebble reads it from the
  database; the plugin's store caches it, and the cache stays right as long as no write fails and
  the highest block is never deleted.
\<close>

locale healthy_store = block_store +
  fixes tracked :: "'s \<Rightarrow> bool"
  assumes tracked_SaveBlock: "inv s \<Longrightarrow> tracked s \<Longrightarrow> tracked (snd (SaveBlock S s n d))"
    and tracked_SaveBatch: "inv s \<Longrightarrow> tracked s \<Longrightarrow> tracked (snd (SaveBatch S s lo hi z))"
    and tracked_SaveMeta: "inv s \<Longrightarrow> tracked s \<Longrightarrow> tracked (snd (SaveMeta S s m))"
    and tracked_Delete: "inv s \<Longrightarrow> tracked s \<Longrightarrow> lo \<le> hi \<Longrightarrow>
      unat hi < 18446744073709551615 \<Longrightarrow> n \<in> dom (blocks (abs s)) \<Longrightarrow> hi < n \<Longrightarrow>
      tracked (snd (DeleteBlockRange S s lo hi))"
    and LatestBlock_exact: "inv s \<Longrightarrow> tracked s \<Longrightarrow> LatestBlock S s = Some n \<Longrightarrow>
      n \<in> dom (blocks (abs s)) \<and> (\<forall>m \<in> dom (blocks (abs s)). m \<le> n)"
    and SaveBlock_total: "inv s \<Longrightarrow> fst (SaveBlock S s n d) = None"
    and DeleteBlockRange_total: "inv s \<Longrightarrow> lo \<le> hi \<Longrightarrow> unat hi < 18446744073709551615 \<Longrightarrow>
      fst (DeleteBlockRange S s lo hi) = None"
    and SaveBatch_total: "inv s \<Longrightarrow> fst (SaveBatch S s lo hi z) = None"
    and SaveMeta_total: "inv s \<Longrightarrow> fst (SaveMeta S s m) = None"
    and GetBlock_complete: "inv s \<Longrightarrow> blocks (abs s) n = Some b \<Longrightarrow> b \<noteq> [] \<Longrightarrow>
      GetBlock S s n = Inr (Some b)"
    and GetBatch_complete: "inv s \<Longrightarrow> batches (abs s) (a, a + 99) = Some z \<Longrightarrow> z \<noteq> [] \<Longrightarrow>
      GetBatchCompressed S s a = Inr (Some z)"
    and FirstBlock_complete: "inv s \<Longrightarrow> n \<in> dom (blocks (abs s)) \<Longrightarrow> \<exists>m. FirstBlock S s = Some m"
    and LatestBlock_complete: "inv s \<Longrightarrow> tracked s \<Longrightarrow> n \<in> dom (blocks (abs s)) \<Longrightarrow> n \<noteq> 0 \<Longrightarrow>
      \<exists>m. LatestBlock S s = Some m"
    and LatestBatch_complete: "inv s \<Longrightarrow> x \<in> dom (batches (abs s)) \<Longrightarrow>
      \<exists>e. LatestBatch S s = Some e"
    and LatestBatch_max: "inv s \<Longrightarrow> LatestBatch S s = Some e \<Longrightarrow>
      \<exists>a. (a, e) \<in> dom (batches (abs s)) \<and> (\<forall>(a', e') \<in> dom (batches (abs s)). a' \<le> a)"
    and GetMeta_complete: "inv s \<Longrightarrow> GetMeta S s = meta (abs s)"

context block_store
begin

lemma GetBlock_absent: "inv s \<Longrightarrow> blocks (abs s) n = None \<Longrightarrow> \<exists>e. GetBlock S s n = Inl e"
  using GetBlock_sound by (metis option.discI sum.exhaust)

lemma GetBatch_absent:
  "inv s \<Longrightarrow> batches (abs s) (a, a + 99) = None \<Longrightarrow> \<exists>e. GetBatchCompressed S s a = Inl e"
  using GetBatch_sound by (metis option.discI sum.exhaust)

end

end
