(* ===== verification/StoreView.thy ===== *)
theory StoreView
  imports Keys Storage
begin

section \<open>A key-value store read as a block store\<close>

text \<open>
  Both implementations of \<open>Storage\<close> lay their data out with the keys of \<open>Keys\<close>.  \<open>kv_abs\<close>
  reads a key-value map as an abstract store; each write of the code on the map is the matching
  update of the abstract store.
\<close>

definition decode_meta :: "bytes option \<Rightarrow> u64" where
  "decode_meta d = (case d of None \<Rightarrow> 0 | Some b \<Rightarrow> if length b < 8 then 0 else BigEndian_Uint64 b)"

definition kv_abs :: "(bytes \<rightharpoonup> bytes) \<Rightarrow> absstore" where
  "kv_abs m = \<lparr>blocks = (\<lambda>n. m (blockKey n)), batches = (\<lambda>(s, e). m (batchKey s e)),
     meta = decode_meta (m metaKey)\<rparr>"

lemma kv_abs_simps [simp]:
  "blocks (kv_abs m) n = m (blockKey n)"
  "batches (kv_abs m) (s, e) = m (batchKey s e)"
  "meta (kv_abs m) = decode_meta (m metaKey)"
  by (simp_all add: kv_abs_def)

lemma kv_abs_empty: "kv_abs Map.empty = empty_store"
  by (simp add: kv_abs_def empty_store_def decode_meta_def fun_eq_iff)

lemma kv_abs_block: "kv_abs (m(blockKey n \<mapsto> d)) = put_block n d (kv_abs m)"
  by (auto simp: kv_abs_def put_block_def fun_eq_iff)

lemma kv_abs_batch: "kv_abs (m(batchKey s e \<mapsto> z)) = put_batch s e z (kv_abs m)"
  by (auto simp: kv_abs_def put_batch_def fun_eq_iff)

lemma kv_abs_meta: "kv_abs (m(metaKey \<mapsto> PutUint64 v)) = put_meta v (kv_abs m)"
  by (auto simp: kv_abs_def put_meta_def fun_eq_iff decode_meta_def)

lemma kv_abs_delete_range:
  assumes "unat hi < 18446744073709551615"
  shows "kv_abs (delete_range (blockKey lo) (blockKey (hi + 1)) m) = drop_blocks lo hi (kv_abs m)"
proof -
  have "unat (hi + 1) = unat hi + 1" using assms by (simp add: unat_add_u64)
  then have "n < hi + 1 \<longleftrightarrow> n \<le> hi" for n by (auto simp: u64_simps)
  then show ?thesis
    by (simp add: kv_abs_def drop_blocks_def delete_range_def fun_eq_iff blockKey_in_range)
qed

lemma kv_abs_delete_keys:
  assumes "set ns = {n. lo \<le> n \<and> n \<le> hi}"
  shows "kv_abs (delete_keys (map blockKey ns) m) = drop_blocks lo hi (kv_abs m)"
  using assms by (auto simp: kv_abs_def drop_blocks_def delete_keys_def fun_eq_iff image_iff)

lemmas kv_abs_updates = kv_abs_block kv_abs_batch kv_abs_meta kv_abs_delete_range

end
