(* ===== verification/Pebble.thy ===== *)
theory Pebble
  imports StoreView
begin

section \<open>\<open>PebbleStorage\<close>: the block store of the standalone service\<close>

text \<open>
  \<open>evm-ingestion/storage/pebble.go\<close>, but its keys (see Keys).  The state of a \<open>PebbleStorage\<close> is the
  state \<open>'db\<close> of the Pebble database it opened; each method is a function of the record of
  database operations and that state.
\<close>

subsection \<open>The methods\<close>

text \<open>\<open>opened\<close> is \<open>pebble.Open\<close>: the database of a directory, or an error.\<close>

definition NewPebbleStorage :: "(string \<Rightarrow> 'db result) \<Rightarrow> string \<Rightarrow> 'db result" where
  "NewPebbleStorage opened path =
     (case opened path of
        Inl err \<Rightarrow> Inl (Wrap ''failed to open pebble db'' err)
      | Inr db \<Rightarrow> Inr db)"

definition Pebble_SaveBlock :: "'db pebble \<Rightarrow> 'db \<Rightarrow> u64 \<Rightarrow> bytes \<Rightarrow> error option \<times> 'db" where
  "Pebble_SaveBlock pb db blockNum data = pb_set pb db (blockKey blockNum) data"

definition Pebble_GetBlock :: "'db pebble \<Rightarrow> 'db \<Rightarrow> u64 \<Rightarrow> slice result" where
  "Pebble_GetBlock pb db blockNum =
     (case pb_get pb db (blockKey blockNum) of
        Inl err \<Rightarrow> Inl err
      | Inr data \<Rightarrow> Inr (Some data))"

definition Pebble_FirstBlock :: "'db pebble \<Rightarrow> 'db \<Rightarrow> u64 option" where
  "Pebble_FirstBlock pb db =
     (case pb_first pb db ''block:'' ''block;'' of
        Inl err \<Rightarrow> None
      | Inr None \<Rightarrow> None
      | Inr (Some key) \<Rightarrow> parseBlockKey key)"

definition Pebble_LatestBlock :: "'db pebble \<Rightarrow> 'db \<Rightarrow> u64 option" where
  "Pebble_LatestBlock pb db =
     (case pb_last pb db ''block:'' ''block;'' of
        Inl err \<Rightarrow> None
      | Inr None \<Rightarrow> None
      | Inr (Some key) \<Rightarrow> parseBlockKey key)"

definition Pebble_DeleteBlockRange :: "'db pebble \<Rightarrow> 'db \<Rightarrow> u64 \<Rightarrow> u64 \<Rightarrow> error option \<times> 'db" where
  "Pebble_DeleteBlockRange pb db start end =
     pb_delete_range pb db (blockKey start) (blockKey (end + 1))"

definition Pebble_SaveBatch :: "'db pebble \<Rightarrow> 'db \<Rightarrow> u64 \<Rightarrow> u64 \<Rightarrow> bytes \<Rightarrow> error option \<times> 'db" where
  "Pebble_SaveBatch pb db start end data = pb_set pb db (batchKey start end) data"

definition Pebble_GetBatchCompressed :: "'db pebble \<Rightarrow> 'db \<Rightarrow> u64 \<Rightarrow> slice result" where
  "Pebble_GetBatchCompressed pb db start =
     (let end = start + BatchSize - 1 in
      case pb_get pb db (batchKey start end) of
        Inl err \<Rightarrow> Inl err
      | Inr data \<Rightarrow> Inr (Some data))"

definition Pebble_FirstBatch :: "'db pebble \<Rightarrow> 'db \<Rightarrow> u64 option" where
  "Pebble_FirstBatch pb db =
     (case pb_first pb db ''batch:'' ''batch;'' of
        Inl err \<Rightarrow> None
      | Inr None \<Rightarrow> None
      | Inr (Some key) \<Rightarrow> map_option fst (parseBatchKey key))"

definition Pebble_LatestBatch :: "'db pebble \<Rightarrow> 'db \<Rightarrow> u64 option" where
  "Pebble_LatestBatch pb db =
     (case pb_last pb db ''batch:'' ''batch;'' of
        Inl err \<Rightarrow> None
      | Inr None \<Rightarrow> None
      | Inr (Some key) \<Rightarrow> map_option snd (parseBatchKey key))"

definition Pebble_GetMeta :: "'db pebble \<Rightarrow> 'db \<Rightarrow> u64" where
  "Pebble_GetMeta pb db =
     (case pb_get pb db metaKey of
        Inl err \<Rightarrow> 0
      | Inr data \<Rightarrow> if length data < 8 then 0 else BigEndian_Uint64 data)"

definition Pebble_SaveMeta :: "'db pebble \<Rightarrow> 'db \<Rightarrow> u64 \<Rightarrow> error option \<times> 'db" where
  "Pebble_SaveMeta pb db lastCompacted = pb_set pb db metaKey (PutUint64 lastCompacted)"

definition Pebble_BlockCount :: "'db pebble \<Rightarrow> 'db \<Rightarrow> int" where
  "Pebble_BlockCount pb db =
     (case Pebble_FirstBlock pb db of
        None \<Rightarrow> 0
      | Some firstN \<Rightarrow>
          (case Pebble_LatestBlock pb db of
             None \<Rightarrow> 0
           | Some lastN \<Rightarrow> sint (lastN - firstN + 1)))"

definition Pebble_Close :: "'db pebble \<Rightarrow> 'db \<Rightarrow> error option \<times> 'db" where
  "Pebble_Close pb db = pb_close pb db"

definition PebbleStorage :: "'db pebble \<Rightarrow> 'db Storage" where
  "PebbleStorage pb =
     \<lparr>SaveBlock = Pebble_SaveBlock pb, GetBlock = Pebble_GetBlock pb,
      FirstBlock = Pebble_FirstBlock pb, LatestBlock = Pebble_LatestBlock pb,
      DeleteBlockRange = Pebble_DeleteBlockRange pb, SaveBatch = Pebble_SaveBatch pb,
      GetBatchCompressed = Pebble_GetBatchCompressed pb, FirstBatch = Pebble_FirstBatch pb,
      LatestBatch = Pebble_LatestBatch pb, GetMeta = Pebble_GetMeta pb,
      SaveMeta = Pebble_SaveMeta pb, BlockCount = Pebble_BlockCount pb,
      StorageClose = Pebble_Close pb\<rparr>"

lemmas Pebble_defs = Pebble_SaveBlock_def Pebble_GetBlock_def Pebble_DeleteBlockRange_def
  Pebble_SaveBatch_def Pebble_GetBatchCompressed_def Pebble_GetMeta_def Pebble_SaveMeta_def

lemmas Pebble_tips = Pebble_FirstBlock_def Pebble_LatestBlock_def Pebble_FirstBatch_def
  Pebble_LatestBatch_def

lemma PebbleStorage_sel [simp]:
  "SaveBlock (PebbleStorage pb) = Pebble_SaveBlock pb"
  "GetBlock (PebbleStorage pb) = Pebble_GetBlock pb"
  "FirstBlock (PebbleStorage pb) = Pebble_FirstBlock pb"
  "LatestBlock (PebbleStorage pb) = Pebble_LatestBlock pb"
  "DeleteBlockRange (PebbleStorage pb) = Pebble_DeleteBlockRange pb"
  "SaveBatch (PebbleStorage pb) = Pebble_SaveBatch pb"
  "GetBatchCompressed (PebbleStorage pb) = Pebble_GetBatchCompressed pb"
  "FirstBatch (PebbleStorage pb) = Pebble_FirstBatch pb"
  "LatestBatch (PebbleStorage pb) = Pebble_LatestBatch pb"
  "GetMeta (PebbleStorage pb) = Pebble_GetMeta pb"
  "SaveMeta (PebbleStorage pb) = Pebble_SaveMeta pb"
  "BlockCount (PebbleStorage pb) = Pebble_BlockCount pb"
  "StorageClose (PebbleStorage pb) = Pebble_Close pb"
  by (simp_all add: PebbleStorage_def)

subsection \<open>The contract\<close>

text \<open>What the database holds, read as a block store, and the keys it may hold.\<close>

abbreviation (input) pebble_abs :: "('db \<Rightarrow> (bytes \<rightharpoonup> bytes)) \<Rightarrow> 'db \<Rightarrow> absstore" where
  "pebble_abs content db \<equiv> kv_abs (content db)"

abbreviation (input) pebble_inv :: "('db \<Rightarrow> (bytes \<rightharpoonup> bytes)) \<Rightarrow> 'db \<Rightarrow> bool" where
  "pebble_inv content db \<equiv> well_keyed (content db)"

context pebble_laws
begin

lemma first_block:
  assumes "well_keyed (content db)" "Pebble_FirstBlock pb db = Some n"
  shows "n \<in> dom (blocks (kv_abs (content db)))" "\<forall>m \<in> dom (blocks (kv_abs (content db))). n \<le> m"
proof -
  from assms(2) obtain k where k: "pb_first pb db ''block:'' ''block;'' = Inr (Some k)"
    and n: "parseBlockKey k = Some n"
    by (auto simp: Pebble_FirstBlock_def split: sum.splits option.splits)
  note least = first_some [OF k, folded block_range_def]
  then have "block_range k" and kd: "k \<in> dom (content db)" by (simp_all add: block_range_def)
  then obtain n' where "k = blockKey n'" using assms(1) by (auto elim: well_keyed_block)
  with n have kn: "k = blockKey n" by simp
  with kd show "n \<in> dom (blocks (kv_abs (content db)))" by auto
  show "\<forall>m \<in> dom (blocks (kv_abs (content db))). n \<le> m"
    using least range_simps(1) unfolding kn block_range_def
    by (auto simp: blockKey_le_iff dom_def)
qed

lemma latest_block:
  assumes "well_keyed (content db)" "Pebble_LatestBlock pb db = Some n"
  shows "n \<in> dom (blocks (kv_abs (content db)))" "\<forall>m \<in> dom (blocks (kv_abs (content db))). m \<le> n"
proof -
  from assms(2) obtain k where k: "pb_last pb db ''block:'' ''block;'' = Inr (Some k)"
    and n: "parseBlockKey k = Some n"
    by (auto simp: Pebble_LatestBlock_def split: sum.splits option.splits)
  note most = last_some [OF k]
  then have "block_range k" and kd: "k \<in> dom (content db)" by (simp_all add: block_range_def)
  then obtain n' where "k = blockKey n'" using assms(1) by (auto elim: well_keyed_block)
  with n have kn: "k = blockKey n" by simp
  with kd show "n \<in> dom (blocks (kv_abs (content db)))" by auto
  show "\<forall>m \<in> dom (blocks (kv_abs (content db))). m \<le> n"
    using most range_simps(1) unfolding kn block_range_def
    by (auto simp: blockKey_le_iff dom_def)
qed

lemma latest_batch:
  assumes "well_keyed (content db)" "Pebble_LatestBatch pb db = Some e"
  shows "\<exists>a. (a, e) \<in> dom (batches (kv_abs (content db))) \<and>
    (\<forall>(a', e') \<in> dom (batches (kv_abs (content db))). a' \<le> a)"
proof -
  from assms(2) obtain k a where k: "pb_last pb db ''batch:'' ''batch;'' = Inr (Some k)"
    and a: "parseBatchKey k = Some (a, e)"
    by (auto simp: Pebble_LatestBatch_def split: sum.splits option.splits)
  note most = last_some [OF k]
  then have "batch_range k" and kd: "k \<in> dom (content db)" by (simp_all add: batch_range_def)
  then obtain a' e' where "k = batchKey a' e'" using assms(1) by (auto elim: well_keyed_batch)
  with a have ka: "k = batchKey a e" by simp
  have "a' \<le> a" if "(a', e') \<in> dom (batches (kv_abs (content db)))" for a' e'
  proof -
    have "batchKey a' e' \<le> batchKey a e"
      using most that range_simps(4) [of a' e'] unfolding ka batch_range_def by auto
    then show ?thesis by (auto simp: batchKey_le_iff)
  qed
  with kd ka show ?thesis by (intro exI [of _ a]) auto
qed

end

sublocale pebble_laws \<subseteq> store: block_store "PebbleStorage pb" "pebble_abs content" "pebble_inv content"
proof (unfold_locales, goal_cases)
  case (1 s n d r s')
  then show ?case
    by (auto simp: Pebble_defs kv_abs_updates write_outcome_def dest!: set_law)
next
  case (2 s lo hi r s')
  then show ?case
    by (auto simp: Pebble_defs kv_abs_updates write_outcome_def dest!: delete_range_law)
next
  case (3 s lo hi z r s')
  then show ?case
    by (auto simp: Pebble_defs kv_abs_updates write_outcome_def dest!: set_law)
next
  case (4 s m r s')
  then show ?case
    by (auto simp: Pebble_defs kv_abs_updates write_outcome_def dest!: set_law)
next
  case (5 s n sl)
  then show ?case by (auto simp: Pebble_defs split: sum.splits dest!: get_sound)
next
  case (6 s a sl)
  then show ?case
    by (auto simp: Pebble_defs Let_def algebra_simps split: sum.splits dest!: get_sound)
next
  case (7 s n)
  then show ?case using first_block by simp
next
  case (8 s e)
  then show ?case using latest_batch by fastforce
next
  case (9 s)
  then show ?case
    by (auto simp: Pebble_defs decode_meta_def split: sum.splits option.splits dest!: get_sound)
next
  case (10 s r s')
  then show ?case by (simp add: Pebble_Close_def close_law)
qed

context healthy_pebble
begin

lemma first_block_ex:
  assumes "well_keyed (content db)" "n \<in> dom (blocks (kv_abs (content db)))"
  shows "\<exists>m. Pebble_FirstBlock pb db = Some m"
proof -
  obtain r where r: "pb_first pb db ''block:'' ''block;'' = Inr r" using first_total by blast
  have n: "blockKey n \<in> dom (content db)" "in_range ''block:'' ''block;'' (blockKey n)"
    using assms(2) range_simps(1) [of n] by (auto simp: block_range_def)
  then obtain k where k: "r = Some k" using r first_none by (cases r) blast+
  with first_some r have "k \<in> dom (content db)" "block_range k" by (simp_all add: block_range_def)
  then obtain n' where "k = blockKey n'" using assms(1) by (auto elim: well_keyed_block)
  with r k show ?thesis by (simp add: Pebble_FirstBlock_def)
qed

lemma latest_block_ex:
  assumes "well_keyed (content db)" "n \<in> dom (blocks (kv_abs (content db)))"
  shows "\<exists>m. Pebble_LatestBlock pb db = Some m"
proof -
  obtain r where r: "pb_last pb db ''block:'' ''block;'' = Inr r" using last_total by blast
  have n: "blockKey n \<in> dom (content db)" "in_range ''block:'' ''block;'' (blockKey n)"
    using assms(2) range_simps(1) [of n] by (auto simp: block_range_def)
  then obtain k where k: "r = Some k" using r last_none by (cases r) blast+
  with last_some r have "k \<in> dom (content db)" "block_range k" by (simp_all add: block_range_def)
  then obtain n' where "k = blockKey n'" using assms(1) by (auto elim: well_keyed_block)
  with r k show ?thesis by (simp add: Pebble_LatestBlock_def)
qed

lemma latest_batch_ex:
  assumes "well_keyed (content db)" "x \<in> dom (batches (kv_abs (content db)))"
  shows "\<exists>e. Pebble_LatestBatch pb db = Some e"
proof -
  obtain a e where x: "x = (a, e)" by fastforce
  obtain r where r: "pb_last pb db ''batch:'' ''batch;'' = Inr r" using last_total by blast
  have n: "batchKey a e \<in> dom (content db)" "in_range ''batch:'' ''batch;'' (batchKey a e)"
    using assms(2) range_simps(4) [of a e] by (auto simp: batch_range_def x)
  then obtain k where k: "r = Some k" using r last_none by (cases r) blast+
  with last_some r have "k \<in> dom (content db)" "batch_range k" by (simp_all add: batch_range_def)
  then obtain a' e' where "k = batchKey a' e'" using assms(1) by (auto elim: well_keyed_batch)
  with r k show ?thesis by (simp add: Pebble_LatestBatch_def)
qed

end

sublocale healthy_pebble \<subseteq> store: healthy_store "PebbleStorage pb" "pebble_abs content" "pebble_inv content"
  "\<lambda>_. True"
proof (unfold_locales, goal_cases)
  case (16 s)
  then show ?case
    using get_complete by (auto simp: Pebble_defs decode_meta_def split: sum.splits option.splits
      dest!: get_sound)
qed (use latest_block in \<open>auto simp: Pebble_defs set_total delete_range_total Let_def algebra_simps
  dest: get_complete latest_batch intro: first_block_ex latest_block_ex latest_batch_ex\<close>)

text \<open>The contract on the in-memory database.\<close>

interpretation pebble_mem: healthy_store "PebbleStorage mem_pebble" "\<lambda>db. kv_abs (map_of db)"
  "\<lambda>db. well_keyed (map_of db)" "\<lambda>_. True"
  by (rule mem_pebble.store.healthy_store_axioms)

subsection \<open>The properties\<close>

context pebble_laws
begin

lemma refines: "block_store (PebbleStorage pb) (\<lambda>db. kv_abs (content db)) (\<lambda>db. well_keyed (content db))"
  by (rule store.block_store_axioms)

end

context healthy_pebble
begin

lemma refines_healthy: "healthy_store (PebbleStorage pb) (\<lambda>db. kv_abs (content db))
    (\<lambda>db. well_keyed (content db)) (\<lambda>_. True)"
  by (rule store.healthy_store_axioms)

end

text \<open>C28: \<open>PebbleStorage\<close> refines the abstract block store: on any Pebble database that keeps its
  documented laws, failures included, every method acts as the abstract operation on the three
  maps that the keys encode, and closing keeps them.  If the database reports no failures, it also
  answers: every stored block, batch and meta record is found, first and latest are the smallest
  and the largest block, and every write succeeds.\<close>

theorem pebble_refines:
  assumes "pebble_laws pb content"
  shows "block_store (PebbleStorage pb) (\<lambda>db. kv_abs (content db)) (\<lambda>db. well_keyed (content db)) \<and>
    (healthy_pebble pb content \<longrightarrow>
      healthy_store (PebbleStorage pb) (\<lambda>db. kv_abs (content db)) (\<lambda>db. well_keyed (content db)) (\<lambda>_. True))"
  using pebble_laws.refines [OF assms] healthy_pebble.refines_healthy by blast

theorem pebble_refines_witness:
  "healthy_store (PebbleStorage mem_pebble) (\<lambda>db. kv_abs (map_of db)) (\<lambda>db. well_keyed (map_of db)) (\<lambda>_. True)"
  using pebble_refines [OF mem_pebble.pebble_laws_axioms] mem_pebble.healthy_pebble_axioms by blast

end
