(* ===== verification/AtomicMax.thy ===== *)
theory AtomicMax
  imports Prelude
begin

section \<open>The compare-and-swap loop that raises a counter\<close>

text \<open>
  \<open>VersionDBStorage.SaveBlock\<close> (versiondb.go) and \<open>Server.UpdateLatestBlock\<close> (server.go) raise
  an \<open>atomic.Uint64\<close> with the same loop: load the cell, stop if it is already high enough,
  otherwise try to swap.  \<open>cas_raise ws cell n\<close> runs the loop on a cell holding \<open>cell\<close>, where
  the head of \<open>ws\<close> is what the cell holds at the time of the swap of that round (the same value
  again if no other goroutine wrote it); the empty list is a round nobody disturbs.
\<close>

fun cas_raise :: "u64 list \<Rightarrow> u64 \<Rightarrow> u64 \<Rightarrow> u64" where
  "cas_raise [] current blockNum = (if blockNum \<le> current then current else blockNum)"
| "cas_raise (w # ws) current blockNum =
     (if blockNum \<le> current then current
      else if w = current then blockNum
      else cas_raise ws w blockNum)"

abbreviation raise_to :: "u64 \<Rightarrow> u64 \<Rightarrow> u64" where
  "raise_to cell n \<equiv> cas_raise [] cell n"

lemma raise_to_max: "raise_to cell n = max cell n"
  by (simp add: max.absorb1 max.absorb2 not_le less_imp_le)

text \<open>
  While the other writers only raise the cell, the loop leaves a value that is at least the
  requested one and at least every value the cell had.
\<close>

lemma cas_raise_bounds:
  assumes "sorted (cell # ws)"
  shows "n \<le> cas_raise ws cell n" "cell \<le> cas_raise ws cell n"
    "cas_raise ws cell n \<in> insert n (set (cell # ws))"
  using assms
proof (induction ws arbitrary: cell)
  case Nil
  case 1 show ?case by simp
  case 2 show ?case by (simp add: not_le less_imp_le)
  case 3 show ?case by simp
next
  case (Cons w ws)
  case 1 then show ?case using Cons.IH(1) [of w] by simp
  case 2 then show ?case using Cons.IH(2) [of w] by fastforce
  case 3 then show ?case using Cons.IH(3) [of w] by auto
qed

end
