(* ===== verification/VersionDB.thy ===== *)
theory VersionDB
  imports StoreView AtomicMax
begin

section \<open>\<open>VersionDBStorage\<close>: the block store of the VM plugin\<close>

text \<open>
  \<open>evm-ingestion/storage/versiondb.go\<close>.  The state is the state of the shared database and the
  cached number of the latest block, which the code keeps because the database's iterators
  cannot be read from the end.
\<close>

record 'db vdbs =
  vdb :: 'db
  latest_cache :: u64

subsection \<open>The methods\<close>

text \<open>\<open>initLatestBlockCache\<close>: the last key that parses wins.\<close>

fun last_parsed :: "u64 \<Rightarrow> bytes list \<Rightarrow> u64" where
  "last_parsed latest [] = latest"
| "last_parsed latest (key # keys) =
     (case parseBlockKey key of
        None \<Rightarrow> last_parsed latest keys
      | Some num \<Rightarrow> last_parsed num keys)"

definition NewVersionDBStorage :: "('db, 'batch) avadb \<Rightarrow> 'db \<Rightarrow> 'db vdbs" where
  "NewVersionDBStorage av db =
     \<lparr>vdb = db, latest_cache = last_parsed 0 (av_iter av db ''block:'')\<rparr>"

definition VersionDB_SaveBlock ::
  "('db, 'batch) avadb \<Rightarrow> 'db vdbs \<Rightarrow> u64 \<Rightarrow> bytes \<Rightarrow> error option \<times> 'db vdbs" where
  "VersionDB_SaveBlock av s blockNum data =
     (case av_put av (vdb s) (blockKey blockNum) data of
        (Some err, db') \<Rightarrow> (Some err, s\<lparr>vdb := db'\<rparr>)
      | (None, db') \<Rightarrow>
          (None, s\<lparr>vdb := db', latest_cache := raise_to (latest_cache s) blockNum\<rparr>))"

definition VersionDB_GetBlock :: "('db, 'batch) avadb \<Rightarrow> 'db vdbs \<Rightarrow> u64 \<Rightarrow> slice result" where
  "VersionDB_GetBlock av s blockNum = av_get av (vdb s) (blockKey blockNum)"

definition VersionDB_FirstBlock :: "('db, 'batch) avadb \<Rightarrow> 'db vdbs \<Rightarrow> u64 option" where
  "VersionDB_FirstBlock av s =
     (case av_iter av (vdb s) ''block:'' of [] \<Rightarrow> None | key # _ \<Rightarrow> parseBlockKey key)"

definition VersionDB_LatestBlock :: "('db, 'batch) avadb \<Rightarrow> 'db vdbs \<Rightarrow> u64 option" where
  "VersionDB_LatestBlock av s = (let latest = latest_cache s in
     if latest > 0 then Some latest else None)"

text \<open>
  The loop \<open>for i := start; i <= end; i++\<close> of \<open>DeleteBlockRange\<close>: it never ends for
  \<open>end = 2^64 - 1\<close>, so it is a partial function.
\<close>

partial_function (option) delete_loop ::
  "('db, 'batch) avadb \<Rightarrow> 'batch \<Rightarrow> u64 \<Rightarrow> u64 \<Rightarrow> (error option \<times> 'batch) option" where
  "delete_loop av batch i end =
     (if i \<le> end
      then (case av_batch_delete av batch (blockKey i) of
              (Some err, b) \<Rightarrow> Some (Some err, b)
            | (None, b) \<Rightarrow> delete_loop av b (i + 1) end)
      else Some (None, batch))"

text \<open>
  In the case \<open>None\<close> the method does not return; the value given here for it is never used,
  since the contract of \<open>DeleteBlockRange\<close> is for \<open>end < 2^64 - 1\<close> only.
\<close>

definition VersionDB_DeleteBlockRange ::
  "('db, 'batch) avadb \<Rightarrow> 'db vdbs \<Rightarrow> u64 \<Rightarrow> u64 \<Rightarrow> error option \<times> 'db vdbs" where
  "VersionDB_DeleteBlockRange av s start end =
     (case delete_loop av (av_new_batch av (vdb s)) start end of
        None \<Rightarrow> (Some (Fail ''does not return''), s)
      | Some (Some err, b) \<Rightarrow> (Some err, s)
      | Some (None, b) \<Rightarrow>
          (case av_batch_write av (vdb s) b of (r, db') \<Rightarrow> (r, s\<lparr>vdb := db'\<rparr>)))"

definition VersionDB_SaveBatch ::
  "('db, 'batch) avadb \<Rightarrow> 'db vdbs \<Rightarrow> u64 \<Rightarrow> u64 \<Rightarrow> bytes \<Rightarrow> error option \<times> 'db vdbs" where
  "VersionDB_SaveBatch av s start end data =
     (case av_put av (vdb s) (batchKey start end) data of (r, db') \<Rightarrow> (r, s\<lparr>vdb := db'\<rparr>))"

definition VersionDB_GetBatchCompressed ::
  "('db, 'batch) avadb \<Rightarrow> 'db vdbs \<Rightarrow> u64 \<Rightarrow> slice result" where
  "VersionDB_GetBatchCompressed av s start =
     (let end = start + BatchSize - 1 in av_get av (vdb s) (batchKey start end))"

definition VersionDB_FirstBatch :: "('db, 'batch) avadb \<Rightarrow> 'db vdbs \<Rightarrow> u64 option" where
  "VersionDB_FirstBatch av s =
     (case av_iter av (vdb s) ''batch:'' of
        [] \<Rightarrow> None
      | key # _ \<Rightarrow> map_option fst (parseBatchKey key))"

fun last_batch :: "u64 option \<Rightarrow> bytes list \<Rightarrow> u64 option" where
  "last_batch found [] = found"
| "last_batch found (key # keys) =
     (case parseBatchKey key of
        None \<Rightarrow> last_batch found keys
      | Some (start, end) \<Rightarrow> last_batch (Some end) keys)"

definition VersionDB_LatestBatch :: "('db, 'batch) avadb \<Rightarrow> 'db vdbs \<Rightarrow> u64 option" where
  "VersionDB_LatestBatch av s = last_batch None (av_iter av (vdb s) ''batch:'')"

definition VersionDB_GetMeta :: "('db, 'batch) avadb \<Rightarrow> 'db vdbs \<Rightarrow> u64" where
  "VersionDB_GetMeta av s =
     (case av_get av (vdb s) metaKey of
        Inl err \<Rightarrow> 0
      | Inr data \<Rightarrow> if length (slice_bytes data) < 8 then 0
          else BigEndian_Uint64 (slice_bytes data))"

definition VersionDB_SaveMeta ::
  "('db, 'batch) avadb \<Rightarrow> 'db vdbs \<Rightarrow> u64 \<Rightarrow> error option \<times> 'db vdbs" where
  "VersionDB_SaveMeta av s lastCompacted =
     (case av_put av (vdb s) metaKey (PutUint64 lastCompacted) of (r, db') \<Rightarrow> (r, s\<lparr>vdb := db'\<rparr>))"

definition VersionDB_BlockCount :: "('db, 'batch) avadb \<Rightarrow> 'db vdbs \<Rightarrow> int" where
  "VersionDB_BlockCount av s =
     (case VersionDB_FirstBlock av s of
        None \<Rightarrow> 0
      | Some firstN \<Rightarrow>
          (case VersionDB_LatestBlock av s of
             None \<Rightarrow> 0
           | Some lastN \<Rightarrow> sint (lastN - firstN + 1)))"

text \<open>\<open>Close\<close> leaves the database open: it belongs to the VM.\<close>

definition VersionDB_Close :: "'db vdbs \<Rightarrow> error option \<times> 'db vdbs" where
  "VersionDB_Close s = (None, s)"

definition VersionDBStorage :: "('db, 'batch) avadb \<Rightarrow> 'db vdbs Storage" where
  "VersionDBStorage av =
     \<lparr>SaveBlock = VersionDB_SaveBlock av, GetBlock = VersionDB_GetBlock av,
      FirstBlock = VersionDB_FirstBlock av, LatestBlock = VersionDB_LatestBlock av,
      DeleteBlockRange = VersionDB_DeleteBlockRange av, SaveBatch = VersionDB_SaveBatch av,
      GetBatchCompressed = VersionDB_GetBatchCompressed av, FirstBatch = VersionDB_FirstBatch av,
      LatestBatch = VersionDB_LatestBatch av, GetMeta = VersionDB_GetMeta av,
      SaveMeta = VersionDB_SaveMeta av, BlockCount = VersionDB_BlockCount av,
      StorageClose = VersionDB_Close\<rparr>"

lemmas VersionDB_defs = VersionDB_SaveBlock_def VersionDB_GetBlock_def VersionDB_SaveBatch_def
  VersionDB_GetBatchCompressed_def VersionDB_GetMeta_def VersionDB_SaveMeta_def

lemma VersionDBStorage_sel [simp]:
  "SaveBlock (VersionDBStorage av) = VersionDB_SaveBlock av"
  "GetBlock (VersionDBStorage av) = VersionDB_GetBlock av"
  "FirstBlock (VersionDBStorage av) = VersionDB_FirstBlock av"
  "LatestBlock (VersionDBStorage av) = VersionDB_LatestBlock av"
  "DeleteBlockRange (VersionDBStorage av) = VersionDB_DeleteBlockRange av"
  "SaveBatch (VersionDBStorage av) = VersionDB_SaveBatch av"
  "GetBatchCompressed (VersionDBStorage av) = VersionDB_GetBatchCompressed av"
  "FirstBatch (VersionDBStorage av) = VersionDB_FirstBatch av"
  "LatestBatch (VersionDBStorage av) = VersionDB_LatestBatch av"
  "GetMeta (VersionDBStorage av) = VersionDB_GetMeta av"
  "SaveMeta (VersionDBStorage av) = VersionDB_SaveMeta av"
  "BlockCount (VersionDBStorage av) = VersionDB_BlockCount av"
  "StorageClose (VersionDBStorage av) = VersionDB_Close"
  by (simp_all add: VersionDBStorage_def)

subsection \<open>The contract\<close>

abbreviation (input) vdb_inv :: "('db \<Rightarrow> (bytes \<rightharpoonup> bytes)) \<Rightarrow> 'db vdbs \<Rightarrow> bool" where
  "vdb_inv content s \<equiv> well_keyed (content (vdb s))"

abbreviation (input) vdb_abs :: "('db \<Rightarrow> (bytes \<rightharpoonup> bytes)) \<Rightarrow> 'db vdbs \<Rightarrow> absstore" where
  "vdb_abs content s \<equiv> kv_abs (content (vdb s))"

lemma length_prefixes: "length ''block:'' = 6" "length ''batch:'' = 6"
  by simp_all

lemma last_batch_cases:
  assumes "last_batch found keys = Some e" and "\<forall>k \<in> set keys. \<exists>a e. k = batchKey a e"
  shows "(keys = [] \<and> found = Some e) \<or> (keys \<noteq> [] \<and> (\<exists>a. last keys = batchKey a e))"
  using assms by (induction found keys rule: last_batch.induct) auto

lemma last_batch_total: "\<forall>k \<in> set keys. \<exists>a e. k = batchKey a e \<Longrightarrow> found \<noteq> None \<or> keys \<noteq> [] \<Longrightarrow>
  last_batch found keys \<noteq> None"
  by (induction found keys rule: last_batch.induct) auto

lemma last_parsed_last: "\<forall>k \<in> set keys. \<exists>n. k = blockKey n \<Longrightarrow>
  last_parsed latest keys = (if keys = [] then latest else the (parseBlockKey (last keys)))"
  by (induction latest keys rule: last_parsed.induct) auto

context avadb_laws
begin

lemma block_iter:
  assumes "well_keyed (content db)" "k \<in> set (av_iter av db ''block:'')"
  shows "\<exists>n. k = blockKey n \<and> n \<in> dom (blocks (kv_abs (content db)))"
proof -
  have "k \<in> dom (content db)" "take 6 k = ''block:''"
    using iter_sound [OF assms(2), unfolded length_prefixes] by auto
  then show ?thesis using assms(1) by (auto elim!: well_keyed_block)
qed

lemma batch_iter:
  assumes "well_keyed (content db)" "k \<in> set (av_iter av db ''batch:'')"
  shows "\<exists>a e. k = batchKey a e \<and> (a, e) \<in> dom (batches (kv_abs (content db)))"
proof -
  have "k \<in> dom (content db)" "take 6 k = ''batch:''"
    using iter_sound [OF assms(2), unfolded length_prefixes] by auto
  then show ?thesis using assms(1) by (auto elim!: well_keyed_batch)
qed

lemma first_block:
  assumes "well_keyed (content (vdb s))" "VersionDB_FirstBlock av s = Some n"
  shows "n \<in> dom (blocks (kv_abs (content (vdb s))))"
    "\<forall>m \<in> dom (blocks (kv_abs (content (vdb s)))). n \<le> m"
proof -
  from assms(2) obtain k ks where ks: "av_iter av (vdb s) ''block:'' = k # ks"
    and "parseBlockKey k = Some n"
    by (auto simp: VersionDB_FirstBlock_def split: list.splits)
  with block_iter [OF assms(1), of k] have k: "k = blockKey n"
    and n: "n \<in> dom (blocks (kv_abs (content (vdb s))))" by auto
  show "n \<in> dom (blocks (kv_abs (content (vdb s))))" by (rule n)
  show "\<forall>m \<in> dom (blocks (kv_abs (content (vdb s)))). n \<le> m"
  proof
    fix m assume m: "m \<in> dom (blocks (kv_abs (content (vdb s))))"
    show "n \<le> m"
    proof (rule ccontr)
      assume "\<not> n \<le> m"
      then have less: "blockKey m < k" by (simp add: k blockKey_less_iff)
      have "k \<in> set (av_iter av (vdb s) ''block:'')" by (simp add: ks)
      moreover have "blockKey m \<in> dom (content (vdb s))" using m by auto
      ultimately have "blockKey m \<in> set (k # ks)"
        using iter_closed [of k "vdb s" "''block:''" "blockKey m", unfolded length_prefixes] less
        by (simp add: ks)
      moreover have "sorted_wrt (<) (k # ks)"
        using iter_sorted [of "vdb s" "''block:''"] by (simp add: ks)
      ultimately have "k \<le> blockKey m" by (rule sorted_hd_le [rotated])
      with less show False by simp
    qed
  qed
qed

lemma latest_batch:
  assumes "well_keyed (content (vdb s))" "VersionDB_LatestBatch av s = Some e"
  obtains a where "batchKey a e \<in> set (av_iter av (vdb s) ''batch:'')"
    "(a, e) \<in> dom (batches (kv_abs (content (vdb s))))"
    "\<And>k. k \<in> set (av_iter av (vdb s) ''batch:'') \<Longrightarrow> k \<le> batchKey a e"
proof -
  let ?ks = "av_iter av (vdb s) ''batch:''"
  have "\<forall>k \<in> set ?ks. \<exists>a e. k = batchKey a e" using batch_iter [OF assms(1)] by blast
  with last_batch_cases [of None ?ks e] assms(2) obtain a
    where ne: "?ks \<noteq> []" and a: "last ?ks = batchKey a e"
    by (auto simp: VersionDB_LatestBatch_def)
  then have mem: "batchKey a e \<in> set ?ks" by (metis last_in_set)
  moreover have "k \<le> batchKey a e" if "k \<in> set ?ks" for k
  proof (rule sorted_last_ge [OF iter_sorted _ that])
    have "rev (butlast ?ks @ [last ?ks]) = batchKey a e # rev (butlast ?ks)" using a by simp
    then show "rev ?ks = batchKey a e # rev (butlast ?ks)"
      by (simp only: append_butlast_last_id [OF ne])
  qed
  ultimately show ?thesis using that batch_iter [OF assms(1) mem] by auto
qed

lemma delete_loop_deletes:
  assumes "delete_loop av b i hi = Some (None, b')" "unat hi < 18446744073709551615"
  shows "deletes b' = deletes b @ map blockKey (u64_range i (Suc (unat hi) - unat i))"
  using assms(1)
proof (induction "Suc (unat hi) - unat i" arbitrary: i b)
  case 0
  then have "\<not> i \<le> hi" by (simp add: u64_simps)
  with 0 show ?case by (simp add: delete_loop.simps)
next
  case (Suc k)
  then have le: "i \<le> hi" by (simp add: u64_simps)
  then obtain b1 where b1: "av_batch_delete av b (blockKey i) = (None, b1)"
    and rest: "delete_loop av b1 (i + 1) hi = Some (None, b')"
    using Suc.prems by (subst (asm) delete_loop.simps) (auto split: prod.splits option.splits)
  have unat: "unat (i + 1) = Suc (unat i)"
    using le assms(2) by (simp add: u64_simps unat_add_u64)
  then have len: "Suc (unat hi) - unat i = Suc (Suc (unat hi) - unat (i + 1))"
    using le by (simp add: u64_simps)
  then have "deletes b' = deletes b1 @ map blockKey (u64_range (i + 1) (Suc (unat hi) - unat (i + 1)))"
    using Suc rest by (intro Suc.hyps(1)) auto
  then show ?case using batch_delete_law [OF b1] by (simp add: len u64_range_Suc)
qed

end

text \<open>The cache is right: the highest stored block, or 0 when there is none.\<close>

definition cache_right :: "('db \<Rightarrow> (bytes \<rightharpoonup> bytes)) \<Rightarrow> 'db vdbs \<Rightarrow> bool" where
  "cache_right content s \<longleftrightarrow>
     (dom (blocks (kv_abs (content (vdb s)))) = {} \<and> latest_cache s = 0) \<or>
     (latest_cache s \<in> dom (blocks (kv_abs (content (vdb s)))) \<and>
      (\<forall>n \<in> dom (blocks (kv_abs (content (vdb s)))). n \<le> latest_cache s))"

lemma delete_span:
  assumes "lo \<le> hi" "unat hi < 18446744073709551615"
  shows "set (u64_range lo (Suc (unat hi) - unat lo)) = {n. lo \<le> n \<and> n \<le> hi}"
  using assms by (subst set_u64_range) (auto simp: u64_simps)

context avadb_laws
begin

lemma delete_outcome:
  assumes "VersionDB_DeleteBlockRange av s lo hi = (r, s')" "unat hi < 18446744073709551615"
  shows "\<exists>db'. s' = s\<lparr>vdb := db'\<rparr> \<and> write_outcome r (content (vdb s))
     (delete_keys (map blockKey (u64_range lo (Suc (unat hi) - unat lo))) (content (vdb s))) (content db')"
proof -
  let ?loop = "delete_loop av (av_new_batch av (vdb s)) lo hi"
  have same: "s = s\<lparr>vdb := vdb s\<rparr>" by simp
  consider (loop) "s' = s" "r \<noteq> None"
    | (wrote) b db' where "?loop = Some (None, b)" "av_batch_write av (vdb s) b = (r, db')"
        "s' = s\<lparr>vdb := db'\<rparr>"
    using assms(1) unfolding VersionDB_DeleteBlockRange_def
    by (auto split: prod.splits option.splits)
  then show ?thesis
  proof cases
    case loop
    with same show ?thesis unfolding write_outcome_def by metis
  next
    case wrote
    then show ?thesis
      using batch_write_law [OF wrote(2)] delete_loop_deletes [OF wrote(1) assms(2)]
      by (intro exI [of _ db']) (simp add: new_batch_law)
  qed
qed

end

sublocale avadb_laws \<subseteq> store: block_store "VersionDBStorage av" "vdb_abs content" "vdb_inv content"
proof (unfold_locales, goal_cases)
  case (1 s n d r s')
  then show ?case
    by (auto simp: VersionDB_defs kv_abs_updates write_outcome_def split: prod.splits option.splits
        dest!: put_law)
next
  case (2 s lo hi r s')
  then obtain db' where s': "s' = s\<lparr>vdb := db'\<rparr>" and
    w: "write_outcome r (content (vdb s)) (delete_keys (map blockKey
          (u64_range lo (Suc (unat hi) - unat lo))) (content (vdb s))) (content db')"
    using delete_outcome [of s lo hi r s'] by auto
  then show ?case
    using 2 kv_abs_delete_keys [OF delete_span [OF 2(2,3)]]
    by (auto simp: write_outcome_def)
next
  case (3 s lo hi z r s')
  then show ?case
    by (auto simp: VersionDB_defs kv_abs_updates write_outcome_def split: prod.splits dest!: put_law)
next
  case (4 s m r s')
  then show ?case
    by (auto simp: VersionDB_defs kv_abs_updates write_outcome_def split: prod.splits dest!: put_law)
next
  case (5 s n sl)
  then show ?case by (auto simp: VersionDB_defs dest!: get_sound)
next
  case (6 s a sl)
  then show ?case by (auto simp: VersionDB_defs Let_def algebra_simps dest!: get_sound)
next
  case (7 s n)
  then show ?case using first_block by simp
next
  case (8 s e)
  then show ?case by (auto elim!: latest_batch)
next
  case (9 s)
  then show ?case
    by (auto simp: VersionDB_defs decode_meta_def split: sum.splits dest!: get_sound)
next
  case (10 s r s')
  then show ?case by (simp add: VersionDB_Close_def)
qed

context healthy_avadb
begin

lemma block_listed: "n \<in> dom (blocks (kv_abs (content db))) \<Longrightarrow>
    blockKey n \<in> set (av_iter av db ''block:'')"
  using iter_complete [of "blockKey n" db "''block:''", unfolded length_prefixes]
  by (simp add: dom_def)

lemma batch_listed: "(a, e) \<in> dom (batches (kv_abs (content db))) \<Longrightarrow>
    batchKey a e \<in> set (av_iter av db ''batch:'')"
  using iter_complete [of "batchKey a e" db "''batch:''", unfolded length_prefixes]
  by (simp add: dom_def)

lemma first_block_ex:
  assumes "well_keyed (content (vdb s))" "n \<in> dom (blocks (kv_abs (content (vdb s))))"
  shows "\<exists>m. VersionDB_FirstBlock av s = Some m"
proof -
  have "blockKey n \<in> set (av_iter av (vdb s) ''block:'')"
    using assms(2) by (rule block_listed)
  then obtain k ks where ks: "av_iter av (vdb s) ''block:'' = k # ks"
    by (cases "av_iter av (vdb s) ''block:''") auto
  with block_iter [OF assms(1), of k] obtain n' where "k = blockKey n'" by auto
  with ks show ?thesis by (simp add: VersionDB_FirstBlock_def)
qed

lemma latest_batch_ex:
  assumes "well_keyed (content (vdb s))" "x \<in> dom (batches (kv_abs (content (vdb s))))"
  shows "\<exists>e. VersionDB_LatestBatch av s = Some e"
proof -
  obtain a e where x: "x = (a, e)" by fastforce
  have "batchKey a e \<in> set (av_iter av (vdb s) ''batch:'')"
    using assms(2) unfolding x by (rule batch_listed)
  then have "last_batch None (av_iter av (vdb s) ''batch:'') \<noteq> None"
    using batch_iter [OF assms(1)] by (intro last_batch_total) fastforce+
  then show ?thesis by (auto simp: VersionDB_LatestBatch_def)
qed

lemma latest_batch_max:
  assumes "well_keyed (content (vdb s))" "VersionDB_LatestBatch av s = Some e"
  shows "\<exists>a. (a, e) \<in> dom (batches (kv_abs (content (vdb s)))) \<and>
    (\<forall>(a', e') \<in> dom (batches (kv_abs (content (vdb s)))). a' \<le> a)"
proof -
  obtain a where a: "(a, e) \<in> dom (batches (kv_abs (content (vdb s))))"
    and max: "\<And>k. k \<in> set (av_iter av (vdb s) ''batch:'') \<Longrightarrow> k \<le> batchKey a e"
    using latest_batch [OF assms] by blast
  have "a' \<le> a" if "(a', e') \<in> dom (batches (kv_abs (content (vdb s))))" for a' e'
  proof -
    have "batchKey a' e' \<in> set (av_iter av (vdb s) ''batch:'')"
      using that by (rule batch_listed)
    from max [OF this] show ?thesis by (auto simp: batchKey_le_iff)
  qed
  with a show ?thesis by blast
qed

lemma get_nonempty: "content db k = Some b \<Longrightarrow> b \<noteq> [] \<Longrightarrow> av_get av db k = Inr (Some b)"
  using get_complete [of db k b] get_sound [of db k] by (auto simp: slice_bytes_def split: option.splits)

lemma put_ok: "\<exists>db'. av_put av db k v = (None, db') \<and> content db' = (content db)(k \<mapsto> v)"
  using put_total [of db k v] put_law [of db k v None "snd (av_put av db k v)"]
  by (cases "av_put av db k v") simp

lemma delete_loop_total:
  assumes "unat hi < 18446744073709551615"
  shows "\<exists>b'. delete_loop av b i hi = Some (None, b')"
proof (induction "Suc (unat hi) - unat i" arbitrary: i b)
  case 0
  then have "\<not> i \<le> hi" by (simp add: u64_simps)
  then show ?case by (simp add: delete_loop.simps)
next
  case (Suc k)
  then have le: "i \<le> hi" by (simp add: u64_simps)
  obtain b1 where b1: "av_batch_delete av b (blockKey i) = (None, b1)"
    using batch_delete_total by (metis prod.collapse)
  have "unat (i + 1) = Suc (unat i)" using le assms by (simp add: u64_simps unat_add_u64)
  then have "k = Suc (unat hi) - unat (i + 1)" using Suc.hyps(2) by simp
  then obtain b' where "delete_loop av b1 (i + 1) hi = Some (None, b')" using Suc.hyps(1) by blast
  with le b1 show ?case by (subst delete_loop.simps) auto
qed

lemma delete_ok:
  assumes "lo \<le> hi" "unat hi < 18446744073709551615"
  shows "\<exists>db'. VersionDB_DeleteBlockRange av s lo hi = (None, s\<lparr>vdb := db'\<rparr>) \<and>
    kv_abs (content db') = drop_blocks lo hi (kv_abs (content (vdb s)))"
proof -
  obtain b where b: "delete_loop av (av_new_batch av (vdb s)) lo hi = Some (None, b)"
    using delete_loop_total [OF assms(2)] by blast
  obtain db' where w: "av_batch_write av (vdb s) b = (None, db')"
    using batch_write_total by (metis prod.collapse)
  with b have del: "VersionDB_DeleteBlockRange av s lo hi = (None, s\<lparr>vdb := db'\<rparr>)"
    by (simp add: VersionDB_DeleteBlockRange_def)
  have "content db' = delete_keys (map blockKey (u64_range lo (Suc (unat hi) - unat lo))) (content (vdb s))"
    using batch_write_law [OF w] delete_loop_deletes [OF b assms(2)] by (simp add: new_batch_law)
  with del show ?thesis using kv_abs_delete_keys [OF delete_span [OF assms]]
    by (intro exI [of _ db']) simp
qed

end

lemma cache_right_raise:
  assumes "cache_right content s" "content db' = (content (vdb s))(blockKey n \<mapsto> d)"
  shows "cache_right content (s\<lparr>vdb := db', latest_cache := raise_to (latest_cache s) n\<rparr>)"
proof -
  let ?D = "dom (blocks (kv_abs (content (vdb s))))"
  have "dom (blocks (kv_abs (content db'))) = insert n ?D"
    using assms(2) by (simp add: kv_abs_block)
  then show ?thesis
    using assms(1) unfolding cache_right_def raise_to_max by (auto simp: max_def intro: order.trans)
qed

lemma cache_right_same_blocks:
  assumes "cache_right content s" "blocks (kv_abs (content db')) = blocks (kv_abs (content (vdb s)))"
  shows "cache_right content (s\<lparr>vdb := db'\<rparr>)"
  using assms by (simp add: cache_right_def)

lemma cache_right_drop:
  assumes "cache_right content s" "n \<in> dom (blocks (kv_abs (content (vdb s))))" "hi < n"
    and "kv_abs (content db') = drop_blocks lo hi (kv_abs (content (vdb s)))"
  shows "cache_right content (s\<lparr>vdb := db'\<rparr>)"
proof -
  have c: "latest_cache s \<in> dom (blocks (kv_abs (content (vdb s))))"
    "\<forall>m \<in> dom (blocks (kv_abs (content (vdb s)))). m \<le> latest_cache s"
    using assms(1,2) unfolding cache_right_def by auto
  then have "hi < latest_cache s" using assms(2,3) by (meson order_less_le_trans)
  then have "latest_cache s \<in> dom (blocks (kv_abs (content db')))"
    using c(1) by (simp add: assms(4) dom_drop_blocks not_le)
  with c(2) show ?thesis
    by (auto simp: cache_right_def assms(4) dom_drop_blocks)
qed

sublocale healthy_avadb \<subseteq> store: healthy_store "VersionDBStorage av" "vdb_abs content" "vdb_inv content"
  "cache_right content"
proof (unfold_locales, goal_cases)
  case (1 s n d)
  obtain db' where "av_put av (vdb s) (blockKey n) d = (None, db')"
    "content db' = (content (vdb s))(blockKey n \<mapsto> d)" using put_ok by blast
  then show ?case using cache_right_raise [OF 1(2)] by (simp add: VersionDB_defs)
next
  case (2 s lo hi z)
  obtain db' where "av_put av (vdb s) (batchKey lo hi) z = (None, db')"
    "content db' = (content (vdb s))(batchKey lo hi \<mapsto> z)" using put_ok by blast
  then show ?case using cache_right_same_blocks [OF 2(2)] by (simp add: VersionDB_defs kv_abs_batch)
next
  case (3 s m)
  obtain db' where "av_put av (vdb s) metaKey (PutUint64 m) = (None, db')"
    "content db' = (content (vdb s))(metaKey \<mapsto> PutUint64 m)" using put_ok by blast
  then show ?case using cache_right_same_blocks [OF 3(2)] by (simp add: VersionDB_defs kv_abs_meta)
next
  case (4 s lo hi n)
  then show ?case using delete_ok [of lo hi s] cache_right_drop [of content s n hi] by force
next
  case (5 s n)
  then show ?case
    by (auto simp: VersionDB_LatestBlock_def cache_right_def Let_def split: if_splits)
next
  case (6 s n d)
  then show ?case using put_ok by (auto simp: VersionDB_defs split: prod.splits option.splits)
      (metis prod.inject option.distinct(1))
next
  case (7 s lo hi)
  then show ?case using delete_ok [of lo hi s] by auto
next
  case (10 s n b)
  then show ?case using get_nonempty [of "vdb s"] by (simp add: VersionDB_defs)
next
  case (11 s a z)
  then show ?case using get_nonempty [of "vdb s"]
    by (simp add: VersionDB_defs Let_def algebra_simps)
next
  case (13 s n)
  then have "latest_cache s \<noteq> 0" by (auto simp: cache_right_def)
  then show ?case by (simp add: VersionDB_LatestBlock_def Let_def word_gt_0)
next
  case (16 s)
  then show ?case
    using get_complete [of "vdb s" metaKey]
    by (auto simp: VersionDB_defs decode_meta_def split: sum.splits option.splits dest!: get_sound)
qed (use first_block_ex latest_batch_ex latest_batch_max put_total in \<open>simp_all add: VersionDB_defs case_prod_unfold\<close>)

text \<open>
  \<open>NewVersionDBStorage\<close> starts with a right cache: it reads all block keys in order and keeps
  the last.
\<close>

context healthy_avadb
begin

lemma new_cache_right:
  assumes "well_keyed (content db)"
  shows "cache_right content (NewVersionDBStorage av db)"
proof -
  let ?ks = "av_iter av db ''block:''" and ?D = "dom (blocks (kv_abs (content db)))"
  have keys: "\<forall>k \<in> set ?ks. \<exists>n. k = blockKey n" using block_iter [OF assms] by blast
  show ?thesis
  proof (cases "?ks = []")
    case True
    then have "?D = {}" using block_listed [of _ db] by auto
    with True show ?thesis by (simp add: cache_right_def NewVersionDBStorage_def)
  next
    case False
    then have mem: "last ?ks \<in> set ?ks" by simp
    with block_iter [OF assms] obtain n where n: "last ?ks = blockKey n" "n \<in> ?D" by blast
    have "m \<le> n" if "m \<in> ?D" for m
    proof -
      have "rev (butlast ?ks @ [last ?ks]) = last ?ks # rev (butlast ?ks)" by simp
      then have "rev ?ks = last ?ks # rev (butlast ?ks)"
        by (simp only: append_butlast_last_id [OF False])
      from sorted_last_ge [OF iter_sorted this block_listed [OF that]] n
      show ?thesis by (simp add: blockKey_le_iff)
    qed
    with False n keys show ?thesis
      by (simp add: cache_right_def NewVersionDBStorage_def last_parsed_last)
  qed
qed

end

interpretation vdb_mem: healthy_store "VersionDBStorage mem_avadb" "\<lambda>s. kv_abs (map_of (vdb s))"
  "\<lambda>s. well_keyed (map_of (vdb s))" "cache_right map_of"
  by (rule mem_avadb.store.healthy_store_axioms)

subsection \<open>The properties\<close>

context avadb_laws
begin

lemma refines: "block_store (VersionDBStorage av) (\<lambda>s. kv_abs (content (vdb s))) (\<lambda>s. well_keyed (content (vdb s)))"
  by (rule store.block_store_axioms)

end

context healthy_avadb
begin

lemma refines_healthy: "healthy_store (VersionDBStorage av) (\<lambda>s. kv_abs (content (vdb s)))
    (\<lambda>s. well_keyed (content (vdb s))) (cache_right content)"
  by (rule store.healthy_store_axioms)

end

text \<open>C29: \<open>VersionDBStorage\<close> refines the same abstract block store on any avalanchego database, with
  its block-by-block deletion in place of Pebble's range deletion.  Without failures it answers
  completely, and its cached latest block stays the highest stored one through every operation
  that does not delete that block.\<close>

theorem versiondb_refines:
  assumes "avadb_laws av content deletes"
  shows "block_store (VersionDBStorage av) (\<lambda>s. kv_abs (content (vdb s))) (\<lambda>s. well_keyed (content (vdb s))) \<and>
    (healthy_avadb av content deletes \<longrightarrow>
      healthy_store (VersionDBStorage av) (\<lambda>s. kv_abs (content (vdb s))) (\<lambda>s. well_keyed (content (vdb s)))
        (cache_right content))"
  using avadb_laws.refines [OF assms] healthy_avadb.refines_healthy by blast

theorem versiondb_refines_witness:
  "healthy_store (VersionDBStorage mem_avadb) (\<lambda>s. kv_abs (map_of (vdb s))) (\<lambda>s. well_keyed (map_of (vdb s)))
    (cache_right map_of)"
  using versiondb_refines [OF mem_avadb.avadb_laws_axioms] mem_avadb.healthy_avadb_axioms by blast

text \<open>Opening the store on an existing database finds the highest block: the cache that
  \<open>NewVersionDBStorage\<close> starts with is right.\<close>

lemma opened_cache_is_right:
  assumes "healthy_avadb av content deletes" "well_keyed (content db)"
  shows "cache_right content (NewVersionDBStorage av db)"
  by (rule healthy_avadb.new_cache_right [OF assms])

end
