(* ===== verification/Content.thy ===== *)
theory Content
  imports Storage
begin

section \<open>What a reader of the store can read\<close>

text \<open>
  The server looks a block up as an individual block first and in the batch that covers it
  second (\<open>streamBlocks\<close> in server.go); the client decompresses a frame and splits it into lines
  (\<open>readPack\<close> in client.go).  \<open>view\<close> puts the two together: the data a consumer can get for a
  block number.  It is the abstract specification of the store as a whole: compaction must not
  change it, and ingestion extends it block by block.
\<close>

definition frame_lines :: "'w zstd \<Rightarrow> bytes \<Rightarrow> bytes list result" where
  "frame_lines zs data =
     (case dec_all zs data of Inl err \<Rightarrow> Inl err | Inr raw \<Rightarrow> Inr (nonempty_lines raw))"

definition batch_view :: "'w zstd \<Rightarrow> absstore \<Rightarrow> u64 \<Rightarrow> bytes option" where
  "batch_view zs a n =
     (if n = 0 then None
      else (case batches a (BatchStart n, BatchStart n + 99) of
              None \<Rightarrow> None
            | Some z \<Rightarrow>
                (case frame_lines zs z of
                   Inl _ \<Rightarrow> None
                 | Inr ls \<Rightarrow> nth_opt ls (unat (n - BatchStart n)))))"

definition view :: "'w zstd \<Rightarrow> absstore \<Rightarrow> u64 \<Rightarrow> bytes option" where
  "view zs a n =
     (case blocks a n of
        None \<Rightarrow> batch_view zs a n
      | Some d \<Rightarrow> if d \<noteq> [] then Some d else batch_view zs a n)"

lemma view_block: "blocks a n = Some d \<Longrightarrow> d \<noteq> [] \<Longrightarrow> view zs a n = Some d"
  by (simp add: view_def)

lemma batch_view_cong:
  assumes "batches a = batches b"
  shows "batch_view zs a = batch_view zs b"
  unfolding batch_view_def assms ..

lemma batch_view_simps [simp]:
  "batch_view zs (put_meta m a) = batch_view zs a"
  "batch_view zs (put_block n d a) = batch_view zs a"
  "batch_view zs (drop_blocks lo hi a) = batch_view zs a"
  by (rule batch_view_cong, simp)+

lemma view_put_meta [simp]: "view zs (put_meta m a) = view zs a"
  by (simp add: view_def fun_eq_iff split: option.split)

lemma view_put_block: "d \<noteq> [] \<Longrightarrow> view zs (put_block n d a) = (view zs a)(n \<mapsto> d)"
  by (simp add: view_def fun_eq_iff split: option.split)

text \<open>Deleting blocks that a batch holds as well changes nothing a reader can see.\<close>

lemma view_drop_blocks:
  assumes "\<And>n. lo \<le> n \<Longrightarrow> n \<le> hi \<Longrightarrow> batch_view zs a n = view zs a n"
  shows "view zs (drop_blocks lo hi a) = view zs a"
proof
  fix n
  show "view zs (drop_blocks lo hi a) n = view zs a n"
  proof (cases "lo \<le> n \<and> n \<le> hi")
    case True
    then have "view zs (drop_blocks lo hi a) n = batch_view zs a n"
      by (simp add: view_def)
    with True assms show ?thesis by simp
  next
    case False
    then show ?thesis by (auto simp: view_def split: option.split)
  qed
qed

text \<open>The stored data of every individual block is one line of JSON, within the batched range.\<close>

definition sound_blocks :: "absstore \<Rightarrow> bool" where
  "sound_blocks a \<longleftrightarrow> (\<forall>n d. blocks a n = Some d \<longrightarrow> valid_line d \<and> unat n \<le> last_batched)"

lemma sound_blocks_empty [simp]: "sound_blocks empty_store"
  by (simp add: sound_blocks_def)

lemma sound_blocks_put [simp]:
  "sound_blocks a \<Longrightarrow> valid_line d \<Longrightarrow> unat n \<le> last_batched \<Longrightarrow> sound_blocks (put_block n d a)"
  "sound_blocks (put_batch s e z a) = sound_blocks a"
  "sound_blocks (put_meta m a) = sound_blocks a"
  "sound_blocks a \<Longrightarrow> sound_blocks (drop_blocks lo hi a)"
  by (auto simp: sound_blocks_def split: if_splits)

context zstd_laws
begin

lemma frame_lines_batch:
  assumes "CompressBlocks zs bs = Inr z" "\<forall>b \<in> set bs. valid_line b"
  shows "frame_lines zs z = Inr bs"
  using CompressBlocks_content(1) [OF assms(1)] assms(2)
  by (simp add: frame_lines_def nonempty_lines_join_lines valid_line_def)

lemma frame_lines_single:
  assumes "valid_line d"
  shows "frame_lines zs (enc_all zs (d @ [newline])) = Inr [d]"
  using assms nonempty_lines_join_lines [of "[d]"] enc_law [of "d @ [newline]"]
  by (simp add: frame_lines_def valid_line_def)

text \<open>
  Saving a batch of blocks that are all stored individually changes nothing a reader can see, and
  neither does deleting them afterwards.
\<close>

lemma batch_view_saved:
  assumes z: "CompressBlocks zs bs = Inr z"
    and bs: "length bs = 100" "\<And>i. i < 100 \<Longrightarrow> blocks a (lo + of_nat i) = Some (bs ! i)"
    and a: "sound_blocks a" "aligned lo" "unat lo + 99 < 18446744073709551615"
    and n: "lo \<le> n" "n \<le> lo + 99"
  shows "batch_view zs (put_batch lo (lo + 99) z a) n = blocks a n"
proof -
  have "valid_line (bs ! i)" if "i < 100" for i
    using bs(2) [OF that] a(1) by (auto simp: sound_blocks_def)
  then have "\<forall>b \<in> set bs. valid_line b" using bs(1) by (auto simp: in_set_conv_nth)
  then have lines: "frame_lines zs z = Inr bs" by (rule frame_lines_batch [OF z])
  have hi: "unat (lo + 99) = unat lo + 99" using a(3) by (simp add: unat_add_u64)
  have start: "BatchStart n = lo" using a(2) n hi by (intro BatchStart_aligned) (auto simp: u64_simps)
  define i where "i = unat n - unat lo"
  have i: "i < 100" "unat (n - lo) = i"
    using n hi by (auto simp: u64_simps i_def unat_sub_u64)
  have "lo + of_nat i = n"
    using n a(3) i by (simp add: u64_eq_iff unat_add_u64 unat_of_nat_u64 i_def u64_simps hi)
  moreover have "n \<noteq> 0" using start n by (auto simp: u64_simps u64_eq_iff unat_BatchStart)
  ultimately show ?thesis
    using bs(2) [of i] i by (simp add: batch_view_def start lines nth_opt_def bs(1))
qed

lemma view_put_batch:
  assumes z: "CompressBlocks zs bs = Inr z"
    and bs: "length bs = 100" "\<And>i. i < 100 \<Longrightarrow> blocks a (lo + of_nat i) = Some (bs ! i)"
    and a: "sound_blocks a" "aligned lo" "unat lo + 99 < 18446744073709551615"
  shows "view zs (put_batch lo (lo + 99) z a) = view zs a"
proof
  fix n
  have hi: "unat (lo + 99) = unat lo + 99" using a(3) by (simp add: unat_add_u64)
  consider "n = 0" | "BatchStart n \<noteq> lo" | (batch) "lo \<le> n" "n \<le> lo + 99"
    using BatchStart_le [of n] BatchStart_near [of n] hi by (fastforce simp: u64_simps)
  then show "view zs (put_batch lo (lo + 99) z a) n = view zs a n"
  proof cases
    case batch
    define i where "i = unat n - unat lo"
    have "i < 100" "lo + of_nat i = n"
      using batch hi a(3) by (auto simp: u64_simps i_def u64_eq_iff unat_add_u64 unat_of_nat_u64)
    then have "blocks a n = Some (bs ! i)" using bs(2) by blast
    moreover from this have "bs ! i \<noteq> []" using a(1) by (auto simp: sound_blocks_def valid_line_def)
    ultimately show ?thesis by (simp add: view_def)
  qed (simp_all add: view_def batch_view_def split: option.split)
qed

end

end
