(* ===== verification/Compactor.thy ===== *)
theory Compactor
  imports Content
begin

section \<open>The compactor\<close>

text \<open>
  \<open>evm-ingestion/storage/compactor.go\<close>: \<open>compactOneBatch\<close> moves one batch of 100 individual
  blocks into a compressed batch, \<open>compactAll\<close> repeats it.  The \<open>Storage\<close> it works on and the
  zstd codec are parameters.
\<close>

subsection \<open>The code\<close>

fun read_blocks :: "'s Storage \<Rightarrow> 's \<Rightarrow> u64 list \<Rightarrow> bytes list option" where
  "read_blocks S s [] = Some []"
| "read_blocks S s (n # ns) =
     (case GetBlock S s n of
        Inl err \<Rightarrow> None
      | Inr None \<Rightarrow> None
      | Inr (Some data) \<Rightarrow>
          (case read_blocks S s ns of None \<Rightarrow> None | Some ds \<Rightarrow> Some (data # ds)))"

text \<open>
  The first half of \<open>compactOneBatch\<close>: which batch to compact now, if any.  All arithmetic is on
  \<open>uint64\<close>.
\<close>

definition pick_range :: "u64 \<Rightarrow> u64 \<Rightarrow> u64 option" where
  "pick_range firstBlock latestBlock =
     (let blockCount = latestBlock - firstBlock + 1 in
      if blockCount < MinBlocksBeforeCompaction + BatchSize then None
      else let batchStart = BatchStart firstBlock; batchEnd = BatchEnd batchStart in
        if latestBlock < batchEnd + MinBlocksBeforeCompaction then None
        else Some batchStart)"

definition pick_batch :: "'s Storage \<Rightarrow> 's \<Rightarrow> u64 option" where
  "pick_batch S s =
     (case FirstBlock S s of
        None \<Rightarrow> None
      | Some firstBlock \<Rightarrow>
          (case LatestBlock S s of
             None \<Rightarrow> None
           | Some latestBlock \<Rightarrow> pick_range firstBlock latestBlock))"

definition compactOneBatch :: "'w zstd \<Rightarrow> 's Storage \<Rightarrow> 's \<Rightarrow> bool \<times> 's" where
  "compactOneBatch zs S s =
     (case pick_batch S s of
        None \<Rightarrow> (False, s)
      | Some batchStart \<Rightarrow>
          let batchEnd = BatchEnd batchStart in
          (case read_blocks S s (u64_range batchStart (unat BatchSize)) of
             None \<Rightarrow> (False, s)
           | Some bs \<Rightarrow>
               (case CompressBlocks zs bs of
                  Inl err \<Rightarrow> (False, s)
                | Inr compressed \<Rightarrow>
                    (case SaveBatch S s batchStart batchEnd compressed of
                       (Some err, s1) \<Rightarrow> (False, s1)
                     | (None, s1) \<Rightarrow>
                         (case SaveMeta S s1 batchEnd of
                            (Some err, s2) \<Rightarrow> (False, s2)
                          | (None, s2) \<Rightarrow>
                              (case DeleteBlockRange S s2 batchStart batchEnd of
                                 (r, s3) \<Rightarrow> (True, s3)))))))"

text \<open>
  \<open>compactAll\<close>: the loop may run for ever, so it is a partial function; \<open>done k\<close> is what
  \<open>ctx.Done()\<close> says at the start of round \<open>k\<close>.
\<close>

partial_function (option) compactAll ::
  "'w zstd \<Rightarrow> 's Storage \<Rightarrow> (nat \<Rightarrow> bool) \<Rightarrow> nat \<Rightarrow> 's \<Rightarrow> 's option" where
  "compactAll zs S ctx_done k s =
     (if ctx_done k then Some s
      else (case compactOneBatch zs S s of
              (again, s') \<Rightarrow> if again then compactAll zs S ctx_done (Suc k) s' else Some s'))"

subsection \<open>Reading the blocks of a batch\<close>

text \<open>
  Two facts about the loop: an invariant of the rounds holds for what the loop returns, and a loop
  whose every round asks for another one never returns.
\<close>

lemma compactAll_invariant:
  assumes step: "\<And>s again s'. I s \<Longrightarrow> compactOneBatch zs S s = (again, s') \<Longrightarrow> I s'"
    and ret: "compactAll zs S ctx_done k s = Some t" and "I s"
  shows "I t"
proof -
  have "zs = zs \<longrightarrow> S = S \<longrightarrow> I s \<longrightarrow> I t"
  proof (rule compactAll.raw_induct [where P = "\<lambda>zs' S' c k s t. zs' = zs \<longrightarrow> S' = S \<longrightarrow> I s \<longrightarrow> I t", OF _ ret])
    fix f zs' S' c k s t
    assume IH: "\<And>zs' S' c k s t. f zs' S' c k s = Some t \<Longrightarrow> zs' = zs \<longrightarrow> S' = S \<longrightarrow> I s \<longrightarrow> I t"
      and eq: "(if c k then Some s else case compactOneBatch zs' S' s of
        (again, s') \<Rightarrow> if again then f zs' S' c (Suc k) s' else Some s') = Some t"
    show "zs' = zs \<longrightarrow> S' = S \<longrightarrow> I s \<longrightarrow> I t"
      using eq IH [of zs S c "Suc k" "snd (compactOneBatch zs' S' s)" t] step
      by (auto split: if_splits prod.splits)
  qed
  then show ?thesis using assms(3) by simp
qed

lemma compactAll_diverges:
  assumes step: "\<And>s. I s \<Longrightarrow> \<exists>s'. compactOneBatch zs S s = (True, s') \<and> I s'"
    and "I s"
  shows "compactAll zs S (\<lambda>_. False) k s = None"
proof (rule ccontr)
  assume "compactAll zs S (\<lambda>_. False) k s \<noteq> None"
  then obtain t where ret: "compactAll zs S (\<lambda>_. False) k s = Some t" by blast
  have "zs = zs \<longrightarrow> S = S \<longrightarrow> (\<lambda>_. False) = (\<lambda>_::nat. False) \<longrightarrow> \<not> I s"
  proof (rule compactAll.raw_induct [where
        P = "\<lambda>zs' S' c k s t. zs' = zs \<longrightarrow> S' = S \<longrightarrow> c = (\<lambda>_. False) \<longrightarrow> \<not> I s", OF _ ret])
    fix f zs' S' c k s t
    assume IH: "\<And>zs' S' c k s t. f zs' S' c k s = Some t \<Longrightarrow>
        zs' = zs \<longrightarrow> S' = S \<longrightarrow> c = (\<lambda>_. False) \<longrightarrow> \<not> I s"
      and eq: "(if c k then Some s else case compactOneBatch zs' S' s of
        (again, s') \<Rightarrow> if again then f zs' S' c (Suc k) s' else Some s') = Some t"
    show "zs' = zs \<longrightarrow> S' = S \<longrightarrow> c = (\<lambda>_. False) \<longrightarrow> \<not> I s"
      using eq IH step by (fastforce split: prod.splits)
  qed
  with assms(2) show False by simp
qed

lemma read_blocks_delete [simp]:
  "read_blocks (S\<lparr>DeleteBlockRange := D\<rparr>) s ns = read_blocks S s ns"
  by (induction ns) (simp_all split: sum.split option.split)

lemma pick_batch_delete [simp]: "pick_batch (S\<lparr>DeleteBlockRange := D\<rparr>) s = pick_batch S s"
  by (simp add: pick_batch_def split: option.split)

lemma BatchEnd_eq: "BatchEnd a = a + 99"
  by (simp add: BatchEnd_def)

context block_store
begin

lemma read_blocks_sound:
  "inv s \<Longrightarrow> read_blocks S s ns = Some ds \<Longrightarrow>
    length ds = length ns \<and> (\<forall>i < length ns. blocks (abs s) (ns ! i) = Some (ds ! i))"
proof (induction ns arbitrary: ds)
  case (Cons n ns)
  then obtain d ds' where d: "GetBlock S s n = Inr (Some d)" and ds: "ds = d # ds'"
    and "read_blocks S s ns = Some ds'"
    by (auto split: sum.splits option.splits)
  with Cons GetBlock_sound [OF Cons.prems(1) d] show ?case
    by (auto simp: less_Suc_eq_0_disj)
qed simp

lemma pick_batch_first:
  assumes "inv s" "pick_batch S s = Some lo" "sound_blocks (abs s)"
  shows "aligned lo" "unat lo + 99 \<le> last_batched" "unat (BatchEnd lo) = unat lo + 99"
proof -
  from assms(2) obtain f where f: "FirstBlock S s = Some f" and lo: "lo = BatchStart f"
    by (auto simp: pick_batch_def pick_range_def Let_def split: option.splits if_splits)
  from FirstBlock_sound [OF assms(1) f] assms(3) have "unat f \<le> last_batched"
    by (auto simp: sound_blocks_def)
  with lo show "aligned lo" "unat lo + 99 \<le> last_batched" by (auto dest: BatchStart_fits)
  then show "unat (BatchEnd lo) = unat lo + 99" by (intro unat_BatchEnd) simp
qed

end

context healthy_store
begin

lemma read_blocks_complete:
  assumes "inv s" "\<forall>n \<in> set ns. \<exists>d. blocks (abs s) n = Some d \<and> d \<noteq> []"
  shows "\<exists>ds. read_blocks S s ns = Some ds"
  using assms(2)
proof (induction ns)
  case (Cons n ns)
  then obtain d where "GetBlock S s n = Inr (Some d)" using GetBlock_complete [OF assms(1)] by auto
  with Cons show ?case by auto
qed simp

end

subsection \<open>The contract between the compactor, its store and the codec\<close>

locale compaction = block_store S abs inv + zstd_laws zs written
  for S :: "'s Storage" and abs :: "'s \<Rightarrow> absstore" and inv :: "'s \<Rightarrow> bool"
    and zs :: "'w zstd" and written :: "'w \<Rightarrow> bytes"
begin

text \<open>
  One batch, whatever the store does: a failing read, a failing write that happened or one that
  did not.  The three writes are taken one by one, so that the same facts serve the interleaved
  runs.
\<close>

lemma batch_blocks:
  assumes "inv s" "read_blocks S s (u64_range lo 100) = Some bs"
  shows "length bs = 100" "\<And>i. i < 100 \<Longrightarrow> blocks (abs s) (lo + of_nat i) = Some (bs ! i)"
  using read_blocks_sound [OF assms] by auto

lemma save_batch_view:
  assumes s: "inv s" "sound_blocks (abs s)" "aligned lo" "unat lo + 99 \<le> last_batched"
    and bs: "read_blocks S s (u64_range lo 100) = Some bs" "CompressBlocks zs bs = Inr z"
    and w: "SaveBatch S s lo (BatchEnd lo) z = (r, s1)"
  shows "inv s1" "sound_blocks (abs s1)" "view zs (abs s1) = view zs (abs s)"
    "blocks (abs s1) = blocks (abs s)"
    "r = None \<Longrightarrow> (\<forall>n. lo \<le> n \<and> n \<le> BatchEnd lo \<longrightarrow> batch_view zs (abs s1) n = view zs (abs s1) n)"
proof -
  note law = SaveBatch_law [OF s(1) w]
  note rd = batch_blocks [OF s(1) bs(1)]
  have fits: "unat lo + 99 < 18446744073709551615" using s(4) by linarith
  show "inv s1" using law by simp
  show "sound_blocks (abs s1)" using law s(2) by (auto simp: write_outcome_def)
  show "blocks (abs s1) = blocks (abs s)" using law by (auto simp: write_outcome_def)
  show v: "view zs (abs s1) = view zs (abs s)"
    using law view_put_batch [OF bs(2) rd s(2,3) fits] by (auto simp: write_outcome_def BatchEnd_eq)
  assume "r = None"
  then have a1: "abs s1 = put_batch lo (lo + 99) z (abs s)" using law by (simp add: BatchEnd_eq)
  show "\<forall>n. lo \<le> n \<and> n \<le> BatchEnd lo \<longrightarrow> batch_view zs (abs s1) n = view zs (abs s1) n"
  proof (intro allI impI)
    fix n assume n: "lo \<le> n \<and> n \<le> BatchEnd lo"
    have "batch_view zs (abs s1) n = blocks (abs s) n"
      using n unfolding a1 by (intro batch_view_saved [OF bs(2) rd s(2,3) fits]) (auto simp: BatchEnd_eq)
    moreover have "blocks (abs s) n \<noteq> Some []"
      using s(2) by (auto simp: sound_blocks_def valid_line_def)
    ultimately show "batch_view zs (abs s1) n = view zs (abs s1) n"
      unfolding a1 by (auto simp: view_def split: option.split)
  qed
qed

lemma save_meta_view:
  assumes "inv s" "SaveMeta S s m = (r, s1)"
  shows "inv s1" "view zs (abs s1) = view zs (abs s)" "batch_view zs (abs s1) = batch_view zs (abs s)"
    "blocks (abs s1) = blocks (abs s)" "batches (abs s1) = batches (abs s)"
  using SaveMeta_law [OF assms] by (auto simp: write_outcome_def)

lemma delete_view:
  assumes "inv s" "lo \<le> hi" "unat hi < 18446744073709551615"
    and "\<forall>n. lo \<le> n \<and> n \<le> hi \<longrightarrow> batch_view zs (abs s) n = view zs (abs s) n"
    and w: "DeleteBlockRange S s lo hi = (r, s1)"
  shows "inv s1" "view zs (abs s1) = view zs (abs s)"
    "\<not> (lo \<le> n \<and> n \<le> hi) \<Longrightarrow> blocks (abs s1) n = blocks (abs s) n"
  using DeleteBlockRange_law [OF assms(1-3) w] view_drop_blocks [of lo hi zs "abs s"] assms(4)
  by (auto simp: write_outcome_def)

lemma delete_sound_blocks:
  assumes "inv s" "lo \<le> hi" "unat hi < 18446744073709551615" "DeleteBlockRange S s lo hi = (r, s1)"
    and "sound_blocks (abs s)"
  shows "sound_blocks (abs s1)"
  using DeleteBlockRange_law [OF assms(1-4)] assms(5) by (auto simp: write_outcome_def)

text \<open>The three writes of one batch, by the point where the code stops.\<close>

lemma compactOneBatch_cases:
  assumes "compactOneBatch zs S s = (again, s')"
  obtains (idle) "s' = s" "\<not> again"
  | (save) lo bs z r where "pick_batch S s = Some lo" "read_blocks S s (u64_range lo 100) = Some bs"
      "CompressBlocks zs bs = Inr z" "SaveBatch S s lo (BatchEnd lo) z = (Some r, s')" "\<not> again"
  | (meta) lo bs z s1 r where "pick_batch S s = Some lo"
      "read_blocks S s (u64_range lo 100) = Some bs" "CompressBlocks zs bs = Inr z"
      "SaveBatch S s lo (BatchEnd lo) z = (None, s1)" "SaveMeta S s1 (BatchEnd lo) = (Some r, s')" "\<not> again"
  | (delete) lo bs z s1 s2 r where "pick_batch S s = Some lo"
      "read_blocks S s (u64_range lo 100) = Some bs" "CompressBlocks zs bs = Inr z"
      "SaveBatch S s lo (BatchEnd lo) z = (None, s1)" "SaveMeta S s1 (BatchEnd lo) = (None, s2)"
      "DeleteBlockRange S s2 lo (BatchEnd lo) = (r, s')" "again"
  using assms unfolding compactOneBatch_def
  by (auto simp: Let_def split: option.splits sum.splits prod.splits)

lemma compactOneBatch_view:
  assumes "inv s" "sound_blocks (abs s)" "compactOneBatch zs S s = (again, s')"
  shows "inv s' \<and> sound_blocks (abs s') \<and> view zs (abs s') = view zs (abs s)"
  using assms(3)
proof (cases rule: compactOneBatch_cases)
  case idle
  with assms show ?thesis by simp
next
  case (save lo bs z r)
  then show ?thesis
    using save_batch_view [OF assms(1,2) _ _ save(2-4)] pick_batch_first [OF assms(1) save(1) assms(2)]
    by simp
next
  case (meta lo bs z s1 r)
  note lo = pick_batch_first [OF assms(1) meta(1) assms(2)]
  note sb = save_batch_view [OF assms(1,2) lo(1,2) meta(2-4)]
  show ?thesis using sb save_meta_view [OF sb(1) meta(5)] by (simp add: sound_blocks_def)
next
  case (delete lo bs z s1 s2 r)
  note lo = pick_batch_first [OF assms(1) delete(1) assms(2)]
  note sb = save_batch_view [OF assms(1,2) lo(1,2) delete(2-4)]
  note sm = save_meta_view [OF sb(1) delete(5)]
  have covered: "\<forall>n. lo \<le> n \<and> n \<le> BatchEnd lo \<longrightarrow> batch_view zs (abs s2) n = view zs (abs s2) n"
    using sb(5) sm by simp
  have range: "lo \<le> BatchEnd lo" "unat (BatchEnd lo) < 18446744073709551615"
    using lo by (auto simp: u64_le_iff)
  have "sound_blocks (abs s2)" using sb(2) sm(4) by (simp add: sound_blocks_def)
  then show ?thesis
    using delete_view [OF sm(1) range covered delete(6)] sm(2) sb(3)
      delete_sound_blocks [OF sm(1) range delete(6)] by simp
qed

end

subsection \<open>A healthy store: progress, the tail that stays, termination\<close>

text \<open>The individual blocks are exactly \<open>lo, lo+1, \<dots>, hi\<close>.\<close>

definition contiguous :: "absstore \<Rightarrow> u64 \<Rightarrow> u64 \<Rightarrow> bool" where
  "contiguous a lo hi \<longleftrightarrow> lo \<le> hi \<and> dom (blocks a) = {n. lo \<le> n \<and> n \<le> hi}"

lemma contiguous_drop:
  assumes "contiguous a lo hi" "unat lo + 100 \<le> unat hi"
  shows "contiguous (drop_blocks lo (lo + 99) a) (lo + 100) hi"
proof -
  have "unat lo + 100 < 18446744073709551616" using assms(2) unat_u64_bound [of hi] by linarith
  then have "unat (lo + 99) = unat lo + 99" "unat (lo + 100) = unat lo + 100"
    by (simp_all add: unat_add_u64)
  then show ?thesis
    using assms by (auto simp: contiguous_def dom_drop_blocks u64_simps)
qed

locale healthy_compaction = healthy_store S abs inv tracked + healthy_zstd zs written
  for S :: "'s Storage" and abs :: "'s \<Rightarrow> absstore" and inv tracked :: "'s \<Rightarrow> bool"
    and zs :: "'w zstd" and written :: "'w \<Rightarrow> bytes"

sublocale healthy_compaction \<subseteq> compaction S abs inv zs written
  by unfold_locales

context healthy_compaction
begin

lemma tips:
  assumes "inv s" "tracked s" "contiguous (abs s) lo hi" "lo \<noteq> 0"
  shows "FirstBlock S s = Some lo" "LatestBlock S s = Some hi"
proof -
  have D: "dom (blocks (abs s)) = {n. lo \<le> n \<and> n \<le> hi}" "lo \<le> hi"
    using assms(3) by (auto simp: contiguous_def)
  then obtain f where f: "FirstBlock S s = Some f"
    using FirstBlock_complete [OF assms(1), of lo] by auto
  with FirstBlock_sound [OF assms(1) f] D show "FirstBlock S s = Some lo"
    by (auto intro: antisym)
  have "hi \<noteq> 0" using D(2) assms(4) by (auto simp: u64_simps u64_eq_iff)
  then obtain l where l: "LatestBlock S s = Some l"
    using LatestBlock_complete [OF assms(1,2), of hi] D by auto
  with LatestBlock_exact [OF assms(1,2) l] D show "LatestBlock S s = Some hi"
    by (auto intro: antisym)
qed

lemma pick_batch_contiguous:
  assumes "inv s" "tracked s" "contiguous (abs s) lo hi" "aligned lo" "unat hi \<le> last_batched"
  shows "pick_batch S s = (if unat hi - unat lo + 1 < 1100 then None else Some lo)"
proof -
  have lo: "lo \<noteq> 0" "BatchStart lo = lo"
    using assms(4) BatchStart_aligned [of lo lo] by (auto simp: aligned_def)
  have le: "lo \<le> hi" using assms(3) by (simp add: contiguous_def)
  then have count: "unat (hi - lo + 1) = unat hi - unat lo + 1"
    using assms(5) by (simp add: unat_add_u64 unat_sub_u64)
  have "unat (BatchEnd lo + 1000) = unat lo + 1099" if "unat lo + 1099 \<le> unat hi"
    using that assms(5) by (simp add: BatchEnd_eq unat_add_u64)
  with count le show ?thesis
    using tips [OF assms(1-3) lo(1)]
    by (auto simp: pick_batch_def pick_range_def Let_def lo(2) u64_less_iff u64_le_iff)
qed

text \<open>
  Everything up to the delete succeeds; the store keeps the blocks and holds the batch as well.
  The delete itself is left open, to serve a store whose deletes fail.
\<close>

lemma compact_to_delete:
  assumes s: "inv s" "tracked s" "sound_blocks (abs s)" "contiguous (abs s) lo hi" "aligned lo"
    and enough: "1099 \<le> unat hi - unat lo"
  shows "\<exists>s2 z. inv s2 \<and> tracked s2 \<and>
    abs s2 = put_meta (lo + 99) (put_batch lo (lo + 99) z (abs s)) \<and>
    frame_lines zs z = Inr (map (\<lambda>n. the (blocks (abs s) n)) (u64_range lo 100)) \<and>
    (\<forall>D. compactOneBatch zs (S\<lparr>DeleteBlockRange := D\<rparr>) s = (True, snd (D s2 lo (lo + 99))))"
proof -
  have D: "dom (blocks (abs s)) = {n. lo \<le> n \<and> n \<le> hi}" "lo \<le> hi"
    using s(4) by (auto simp: contiguous_def)
  have hi: "unat hi \<le> last_batched" using D s(3) by (force simp: sound_blocks_def dom_def)
  have pick: "pick_batch S s = Some lo"
    using pick_batch_contiguous [OF s(1,2,4,5) hi] enough by simp
  have "set (u64_range lo 100) = {n. unat lo \<le> unat n \<and> unat n < unat lo + 100}"
    using hi enough by (intro set_u64_range) linarith
  then have mem: "n \<in> dom (blocks (abs s))" if "n \<in> set (u64_range lo 100)" for n
    using that enough unfolding D by (auto simp: u64_simps)
  have "\<exists>d. blocks (abs s) n = Some d \<and> d \<noteq> []" if "n \<in> set (u64_range lo 100)" for n
    using mem [OF that] s(3) by (auto simp: sound_blocks_def valid_line_def)
  then obtain bs where bs: "read_blocks S s (u64_range lo 100) = Some bs"
    using read_blocks_complete [OF s(1)] by blast
  have bs_eq: "bs = map (\<lambda>n. the (blocks (abs s) n)) (u64_range lo 100)"
    using read_blocks_sound [OF s(1) bs] by (intro nth_equalityI) auto
  have "\<forall>b \<in> set bs. valid_line b"
    using mem s(3) unfolding bs_eq by (fastforce simp: sound_blocks_def)
  obtain z where z: "CompressBlocks zs bs = Inr z" using CompressBlocks_total by blast
  then have lines: "frame_lines zs z = Inr bs"
    using \<open>\<forall>b \<in> set bs. valid_line b\<close> by (rule frame_lines_batch)
  obtain s1 where s1: "SaveBatch S s lo (lo + 99) z = (None, s1)"
    using SaveBatch_total [OF s(1)] by (metis prod.collapse)
  note l1 = SaveBatch_law [OF s(1) s1]
  obtain s2 where s2: "SaveMeta S s1 (lo + 99) = (None, s2)"
    using SaveMeta_total l1 by (metis prod.collapse)
  note l2 = SaveMeta_law [OF conjunct1 [OF l1] s2]
  have "tracked s2"
    using tracked_SaveBatch [OF s(1,2), of lo "lo + 99" z] tracked_SaveMeta [of s1 "lo + 99"] l1 s1 s2
    by simp
  moreover have "compactOneBatch zs (S\<lparr>DeleteBlockRange := D\<rparr>) s = (True, snd (D s2 lo (lo + 99)))" for D
    using pick bs z s1 s2 by (simp add: compactOneBatch_def Let_def BatchEnd_eq split: prod.split)
  ultimately show ?thesis using l1 l2 lines bs_eq by (intro exI [of _ s2] exI [of _ z]) simp
qed

lemma compactOneBatch_progress:
  assumes s: "inv s" "tracked s" "sound_blocks (abs s)" "contiguous (abs s) lo hi" "aligned lo"
    and enough: "1099 \<le> unat hi - unat lo"
  shows "\<exists>s' z. compactOneBatch zs S s = (True, s') \<and> inv s' \<and> tracked s' \<and>
    frame_lines zs z = Inr (map (\<lambda>n. the (blocks (abs s) n)) (u64_range lo 100)) \<and>
    abs s' = drop_blocks lo (lo + 99) (put_meta (lo + 99) (put_batch lo (lo + 99) z (abs s)))"
proof -
  obtain s2 z where s2: "inv s2" "tracked s2"
    "abs s2 = put_meta (lo + 99) (put_batch lo (lo + 99) z (abs s))"
    "\<And>D. compactOneBatch zs (S\<lparr>DeleteBlockRange := D\<rparr>) s = (True, snd (D s2 lo (lo + 99)))"
    and z: "frame_lines zs z = Inr (map (\<lambda>n. the (blocks (abs s) n)) (u64_range lo 100))"
    using compact_to_delete [OF assms] by blast
  have D: "hi \<in> dom (blocks (abs s2))" "unat hi \<le> last_batched"
    using s(3,4) s2(3) by (force simp: sound_blocks_def contiguous_def)+
  then have e: "unat (lo + 99) = unat lo + 99" using enough by (intro unat_add_u64 [THEN trans]) auto
  have le: "lo \<le> lo + 99" "unat (lo + 99) < 18446744073709551615" "lo + 99 < hi"
    using e D(2) enough by (auto simp: u64_le_iff u64_less_iff)
  obtain s3 where s3: "DeleteBlockRange S s2 lo (lo + 99) = (None, s3)"
    using DeleteBlockRange_total [OF s2(1) le(1,2)] by (metis prod.collapse)
  have "compactOneBatch zs S s = (True, s3)" using s2(4) [of "DeleteBlockRange S"] s3 by simp
  then show ?thesis
    using DeleteBlockRange_law [OF s2(1) le(1,2) s3] tracked_Delete [OF s2(1,2) le(1,2) D(1) le(3)]
      s2(3) s3 z by auto
qed

lemma compactOneBatch_idle:
  assumes "inv s" "tracked s" "contiguous (abs s) lo hi" "aligned lo" "unat hi \<le> last_batched"
    and "unat hi - unat lo < 1099"
  shows "compactOneBatch zs S s = (False, s)"
  using pick_batch_contiguous [OF assms(1-5)] assms(6) by (simp add: compactOneBatch_def)

lemma sound_blocks_compacted:
  "sound_blocks a \<Longrightarrow> sound_blocks (drop_blocks lo hi (put_meta m (put_batch lo hi z a)))"
  by simp

lemma compactAll_total:
  assumes "inv s" "tracked s" "sound_blocks (abs s)" "contiguous (abs s) lo hi" "aligned lo"
  shows "\<exists>s' lo'. compactAll zs S (\<lambda>_. False) k s = Some s' \<and>
    inv s' \<and> tracked s' \<and> sound_blocks (abs s') \<and> contiguous (abs s') lo' hi \<and> aligned lo' \<and>
    unat hi - unat lo' + 1 < 1100 \<and> (lo' = lo \<or> 1000 \<le> unat hi - unat lo' + 1)"
  using assms
proof (induction "unat hi - unat lo" arbitrary: lo s k rule: less_induct)
  case less
  have "hi \<in> dom (blocks (abs s))" using less.prems(4) by (auto simp: contiguous_def)
  then have hi: "unat hi \<le> last_batched" using less.prems(3) by (auto simp: sound_blocks_def)
  show ?case
  proof (cases "1099 \<le> unat hi - unat lo")
    case False
    then have "compactOneBatch zs S s = (False, s)"
      using less.prems hi by (intro compactOneBatch_idle) auto
    with less.prems False show ?thesis
      by (intro exI [of _ s] exI [of _ lo]) (auto simp: compactAll.simps)
  next
    case True
    then obtain s' z where one: "compactOneBatch zs S s = (True, s')" and s': "inv s'" "tracked s'"
      "abs s' = drop_blocks lo (lo + 99) (put_meta (lo + 99) (put_batch lo (lo + 99) z (abs s)))"
      using compactOneBatch_progress [OF less.prems] by blast
    have lo: "unat (lo + 100) = unat lo + 100" using True hi by (intro unat_add_u64 [THEN trans]) auto
    have "contiguous (drop_blocks lo (lo + 99) (abs s)) (lo + 100) hi"
      using less.prems(4) True by (intro contiguous_drop) auto
    then have "contiguous (abs s') (lo + 100) hi" by (simp add: contiguous_def s'(3) dom_drop_blocks)
    moreover have "aligned (lo + 100)" using less.prems(5) by (simp add: aligned_def lo)
    moreover have "sound_blocks (abs s')" using less.prems(3) by (simp add: s'(3))
    moreover have "unat hi - unat (lo + 100) < unat hi - unat lo" using lo True by simp
    ultimately obtain t lo' where "compactAll zs S (\<lambda>_. False) (Suc k) s' = Some t"
      "inv t" "tracked t" "sound_blocks (abs t)" "contiguous (abs t) lo' hi" "aligned lo'" "unat hi - unat lo' + 1 < 1100"
      "lo' = lo + 100 \<or> 1000 \<le> unat hi - unat lo' + 1"
      using less.hyps s'(1,2) by blast
    then show ?thesis
      using one lo True by (intro exI [of _ t] exI [of _ lo']) (auto simp: compactAll.simps [of zs S _ k])
  qed
qed

text \<open>
  A store whose deletes fail: \<open>compactOneBatch\<close> reports more work each time, and \<open>compactAll\<close>
  never returns.
\<close>

lemma compactAll_stuck:
  fixes e :: error
  assumes "inv s" "tracked s" "sound_blocks (abs s)" "contiguous (abs s) lo hi" "aligned lo"
    "1099 \<le> unat hi - unat lo"
  shows "compactAll zs (S\<lparr>DeleteBlockRange := \<lambda>s a b. (Some e, s)\<rparr>) (\<lambda>_. False) k s = None"
proof -
  let ?S = "S\<lparr>DeleteBlockRange := \<lambda>s a b. (Some e, s)\<rparr>"
  let ?I = "\<lambda>s. inv s \<and> tracked s \<and> sound_blocks (abs s) \<and> contiguous (abs s) lo hi"
  have step: "\<exists>s'. compactOneBatch zs ?S s = (True, s') \<and> ?I s'" if I: "?I s" for s
  proof -
    obtain s2 z where "inv s2" "tracked s2" "abs s2 = put_meta (lo + 99) (put_batch lo (lo + 99) z (abs s))"
      "\<And>D. compactOneBatch zs (S\<lparr>DeleteBlockRange := D\<rparr>) s = (True, snd (D s2 lo (lo + 99)))"
      using compact_to_delete [of s lo hi] I assms(5,6) by blast
    with I show ?thesis by (auto simp: contiguous_def)
  qed
  show ?thesis using assms(1-4) by (intro compactAll_diverges [where I = ?I, OF step]) auto
qed

end

end
