(* ===== verification/Chain.thy ===== *)
theory Chain
  imports Content
begin

section \<open>The chain the store holds\<close>

text \<open>
  The specification side of the service as a whole: \<open>chain n\<close> is the JSON line of block \<open>n\<close>.
  A store is sound for it when every individual block and every aligned batch it holds is the
  part of the chain that its key names; whatever else a failure may do to the store, it never
  holds the wrong data.
\<close>

definition valid_chain :: "(u64 \<Rightarrow> bytes) \<Rightarrow> bool" where
  "valid_chain chain \<longleftrightarrow> (\<forall>n. valid_line (chain n))"

definition sound_store :: "'w zstd \<Rightarrow> (u64 \<Rightarrow> bytes) \<Rightarrow> absstore \<Rightarrow> bool" where
  "sound_store zs chain a \<longleftrightarrow>
     (\<forall>n d. blocks a n = Some d \<longrightarrow> d = chain n \<and> unat n \<le> last_batched) \<and>
     (\<forall>b z. batches a (b, b + 99) = Some z \<longrightarrow> aligned b \<longrightarrow>
        unat b + 99 \<le> last_batched \<and> frame_lines zs z = Inr (map chain (u64_range b 100)))"

lemma sound_store_block:
  "sound_store zs chain a \<Longrightarrow> blocks a n = Some d \<Longrightarrow> d = chain n \<and> unat n \<le> last_batched"
  by (simp add: sound_store_def)

lemma sound_store_batch:
  assumes "sound_store zs chain a" "batches a (BatchStart n, BatchStart n + 99) = Some z"
  shows "unat (BatchStart n) + 99 \<le> last_batched"
    "frame_lines zs z = Inr (map chain (u64_range (BatchStart n) 100))"
  using assms by (auto simp: sound_store_def)

lemma sound_store_sound_blocks:
  "valid_chain chain \<Longrightarrow> sound_store zs chain a \<Longrightarrow> sound_blocks a"
  by (auto simp: sound_store_def sound_blocks_def valid_chain_def)

lemma sound_store_simps [simp]:
  "sound_store zs chain empty_store"
  "sound_store zs chain (put_meta m a) = sound_store zs chain a"
  "sound_store zs chain a \<Longrightarrow> sound_store zs chain (drop_blocks lo hi a)"
  "sound_store zs chain a \<Longrightarrow> unat n \<le> last_batched \<Longrightarrow>
    sound_store zs chain (put_block n (chain n) a)"
  by (auto simp: sound_store_def)

lemma sound_store_put_batch:
  assumes "sound_store zs chain a" "frame_lines zs z = Inr (map chain (u64_range lo 100))"
    and "unat lo + 99 \<le> last_batched"
  shows "sound_store zs chain (put_batch lo (lo + 99) z a)"
  using assms by (auto simp: sound_store_def)

lemma batch_index:
  assumes "n \<noteq> 0"
  shows "unat (n - BatchStart n) = unat n - unat (BatchStart n)" "unat n - unat (BatchStart n) < 100"
    "BatchStart n + of_nat (unat n - unat (BatchStart n)) = n"
proof -
  have le: "BatchStart n \<le> n" using BatchStart_le [OF assms] by (simp add: u64_le_iff)
  then show d: "unat (n - BatchStart n) = unat n - unat (BatchStart n)" by (rule unat_sub_u64)
  show "unat n - unat (BatchStart n) < 100" using BatchStart_near [of n] by linarith
  show "BatchStart n + of_nat (unat n - unat (BatchStart n)) = n"
    by (simp flip: d)
qed

lemma batch_view_sound:
  assumes "sound_store zs chain a"
  shows "batch_view zs a n =
    (if n \<noteq> 0 \<and> batches a (BatchStart n, BatchStart n + 99) \<noteq> None then Some (chain n) else None)"
  using sound_store_batch(2) [OF assms, of n] batch_index [of n]
  by (auto simp: batch_view_def nth_opt_def split: option.splits)

text \<open>A reader of a sound store reads the chain.\<close>

lemma view_sound:
  assumes "sound_store zs chain a" "view zs a n = Some d"
  shows "d = chain n"
  using assms batch_view_sound [OF assms(1), of n]
  by (auto simp: view_def dest: sound_store_block split: option.splits if_splits)

lemma sound_store_nonempty:
  assumes "valid_chain chain" "sound_store zs chain a"
  shows "blocks a n \<noteq> Some []"
  using assms sound_store_block [OF assms(2), of n "[]"]
  by (metis valid_chain_def valid_line_def)

lemma view_sound_dom:
  assumes "valid_chain chain" "sound_store zs chain a"
  shows "view zs a n \<noteq> None \<longleftrightarrow>
    blocks a n \<noteq> None \<or> (n \<noteq> 0 \<and> batches a (BatchStart n, BatchStart n + 99) \<noteq> None)"
  using sound_store_nonempty [OF assms, of n] batch_view_sound [OF assms(2), of n]
  by (auto simp: view_def split: option.splits)

subsection \<open>Frames that carry the chain\<close>

text \<open>
  \<open>carries zs chain cur fs nxt\<close>: a consumer at block \<open>cur\<close> that reads the frames \<open>fs\<close> in turn
  gets every block from \<open>cur\<close> up to (not including) \<open>nxt\<close>.  Each frame holds consecutive blocks,
  starts at or below the position and ends above it.
\<close>

inductive carries :: "'w zstd \<Rightarrow> (u64 \<Rightarrow> bytes) \<Rightarrow> u64 \<Rightarrow> bytes list \<Rightarrow> u64 \<Rightarrow> bool"
  for zs :: "'w zstd" and chain :: "u64 \<Rightarrow> bytes" where
  carries_nil: "carries zs chain cur [] cur"
| carries_frame: "frame_lines zs f = Inr (map chain (u64_range a k)) \<Longrightarrow> a \<noteq> 0 \<Longrightarrow> a \<le> cur \<Longrightarrow>
    unat cur < unat a + k \<Longrightarrow> unat a + k \<le> 18446744073709551615 \<Longrightarrow>
    carries zs chain (a + of_nat k) fs nxt \<Longrightarrow> carries zs chain cur (f # fs) nxt"

inductive_cases carries_ConsE: "carries zs chain cur (f # fs) nxt"

lemma carries_prefix:
  assumes "carries zs chain cur fs nxt" "fs = gs @ hs"
  shows "\<exists>m. carries zs chain cur gs m"
  using assms
proof (induction arbitrary: gs)
  case (carries_nil cur)
  then show ?case by (auto intro: carries.carries_nil)
next
  case (carries_frame f a k cur fs nxt)
  show ?case
  proof (cases gs)
    case Nil
    then show ?thesis by (auto intro: carries.carries_nil)
  next
    case (Cons g gs')
    with carries_frame obtain m where "carries zs chain (a + of_nat k) gs' m" by auto
    with carries_frame.hyps Cons carries_frame.prems show ?thesis
      by (auto intro!: exI [of _ m] carries.carries_frame)
  qed
qed

end
