(* ===== verification/Server.thy ===== *)
theory Server
  imports Chain AtomicMax
begin

section \<open>The streaming server\<close>

text \<open>
  \<open>evm-ingestion/api/server.go\<close>: the highest known block, the \<open>from\<close> parameter of a WebSocket
  request and the loop that sends a client one frame after the other.  Sockets, the HTTP library
  and the clock are the environment: one iteration of the loop sees what the record \<open>tick\<close>
  says.
\<close>

subsection \<open>The code\<close>

definition UpdateLatestBlock :: "u64 list \<Rightarrow> u64 \<Rightarrow> u64 \<Rightarrow> u64" where
  "UpdateLatestBlock interference latestBlock blockNum = cas_raise interference latestBlock blockNum"

definition handleInfo :: "string \<Rightarrow> u64 \<Rightarrow> string" where
  "handleInfo chainID latestBlock =
     [CHR 0x7B, CHR 0x22] @ ''chainID'' @ [CHR 0x22, CHR 0x3A, CHR 0x22] @ chainID @
     [CHR 0x22, CHR 0x2C, CHR 0x22] @ ''latestBlock'' @ [CHR 0x22, CHR 0x3A] @
     dec (unat latestBlock) @ [CHR 0x7D]"

text \<open>
  \<open>handleWS\<close> up to the upgrade: \<open>Inl\<close> is the answer 400, \<open>Inr\<close> the block the stream starts at.
\<close>

definition handleWS :: "string \<Rightarrow> u64 result" where
  "handleWS fromBlockStr =
     (let start = (if fromBlockStr \<noteq> [] then ParseUint fromBlockStr 10 else Inr 1) in
      case start of
        Inl err \<Rightarrow> Inl (Fail ''invalid from parameter'')
      | Inr fromBlock \<Rightarrow> Inr (if fromBlock = 0 then 1 else fromBlock))"

text \<open>
  One iteration of \<open>streamBlocks\<close>: whether the context is done, the state of the store when
  \<open>GetBlock\<close> runs and when \<open>GetBatchCompressed\<close> runs (other goroutines work on it in between),
  and what \<open>WriteMessage\<close> answers.
\<close>

record 's tick =
  tick_done :: bool
  at_block :: 's
  at_batch :: 's
  write_result :: "error option"

definition next_frame :: "'w zstd \<Rightarrow> 's Storage \<Rightarrow> 's \<Rightarrow> 's \<Rightarrow> u64 \<Rightarrow> (bytes \<times> u64) option" where
  "next_frame zs S s1 s2 currentBlock =
     (let batch =
        (let batchStart = BatchStart currentBlock in
         case GetBatchCompressed S s2 batchStart of
           Inl err \<Rightarrow> None
         | Inr batchData \<Rightarrow>
             if length (slice_bytes batchData) > 0
             then Some (slice_bytes batchData, batchStart + BatchSize) else None)
      in case GetBlock S s1 currentBlock of
           Inl err \<Rightarrow> batch
         | Inr data \<Rightarrow>
             if length (slice_bytes data) > 0
             then Some (enc_all zs (slice_bytes data @ [newline]), currentBlock + 1) else batch)"

datatype stream_end = Serving | Ended error

definition context_canceled :: error where "context_canceled = Fail ''context canceled''"

text \<open>The frames written, the position reached and how the loop stands after these iterations.\<close>

fun streamBlocks ::
  "'w zstd \<Rightarrow> 's Storage \<Rightarrow> 's tick list \<Rightarrow> u64 \<Rightarrow> bytes list \<times> u64 \<times> stream_end" where
  "streamBlocks zs S [] currentBlock = ([], currentBlock, Serving)"
| "streamBlocks zs S (t # ts) currentBlock =
     (if tick_done t then ([], currentBlock, Ended context_canceled)
      else (case next_frame zs S (at_block t) (at_batch t) currentBlock of
              None \<Rightarrow> streamBlocks zs S ts currentBlock
            | Some (frame, nextBlock) \<Rightarrow>
                (case write_result t of
                   Some err \<Rightarrow> ([], currentBlock, Ended err)
                 | None \<Rightarrow>
                     (case streamBlocks zs S ts nextBlock of
                        (fs, pos, r) \<Rightarrow> (frame # fs, pos, r)))))"

subsection \<open>The server and its sessions\<close>

text \<open>
  \<open>srv_http\<close> is the address of the HTTP server once \<open>Start\<close> has made it, \<open>srv_canceled\<close> whether the
  context of the sessions is done.
\<close>

record server =
  srv_chainID :: string
  srv_latest :: u64
  srv_canceled :: bool
  srv_http :: "string option"

definition NewServer :: "string \<Rightarrow> server" where
  "NewServer chainID = \<lparr>srv_chainID = chainID, srv_latest = 0, srv_canceled = False, srv_http = None\<rparr>"

definition ServerGetLatestBlock :: "server \<Rightarrow> u64" where
  "ServerGetLatestBlock srv = srv_latest srv"

definition ServerStart :: "(string \<Rightarrow> error option) \<Rightarrow> string \<Rightarrow> server \<Rightarrow> string result \<times> server" where
  "ServerStart listen_on addr srv =
     (case listen_on addr of
        Some err \<Rightarrow> (Inl (Wrap ''failed to listen'' err), srv)
      | None \<Rightarrow> (Inr addr, srv\<lparr>srv_http := Some addr\<rparr>))"

text \<open>The second result is whether the HTTP server is shut down.\<close>

definition ServerStop :: "server \<Rightarrow> server \<times> bool" where
  "ServerStop srv = (srv\<lparr>srv_canceled := True\<rparr>, srv_http srv \<noteq> None)"

datatype session_end = WsRejected error | WsUpgradeFailed error | WsStreamed "bytes list" u64 stream_end

definition serveWS ::
  "'w zstd \<Rightarrow> 's Storage \<Rightarrow> string \<Rightarrow> error option \<Rightarrow> 's tick list \<Rightarrow> session_end" where
  "serveWS zs S fromBlockStr upgrade ts =
     (case handleWS fromBlockStr of
        Inl err \<Rightarrow> WsRejected err
      | Inr fromBlock \<Rightarrow>
          (case upgrade of
             Some err \<Rightarrow> WsUpgradeFailed err
           | None \<Rightarrow> (case streamBlocks zs S ts fromBlock of (fs, pos, r) \<Rightarrow> WsStreamed fs pos r)))"

text \<open>A stopped server ends every session at its next iteration.\<close>

lemma streamBlocks_canceled:
  assumes "\<exists>t \<in> set ts. tick_done t" "streamBlocks zs S ts cur = (fs, pos, r)"
  shows "r \<noteq> Serving"
  using assms
  by (induction ts arbitrary: cur fs pos) (auto split: if_splits option.splits prod.splits)

subsection \<open>The request\<close>

lemma handleWS_printed: "handleWS (dec (unat n)) = Inr (if n = 0 then 1 else n)"
  using ParseUint_show_base [of 10 n] by (simp add: handleWS_def)

lemma handleWS_positive: "handleWS q = Inr n \<Longrightarrow> n \<noteq> 0"
  by (auto simp: handleWS_def Let_def split: sum.splits if_splits)

subsection \<open>The frames\<close>

locale serving = block_store S abs inv + zstd_laws zs written
  for S :: "'s Storage" and abs :: "'s \<Rightarrow> absstore" and inv :: "'s \<Rightarrow> bool"
    and zs :: "'w zstd" and written :: "'w \<Rightarrow> bytes" +
  fixes chain :: "u64 \<Rightarrow> bytes"
  assumes chain: "valid_chain chain"
begin

definition good :: "'s \<Rightarrow> bool" where
  "good s \<longleftrightarrow> inv s \<and> sound_store zs chain (abs s)"

lemma next_frame_sound:
  assumes s: "good s1" "good s2" "cur \<noteq> 0" and f: "next_frame zs S s1 s2 cur = Some (f, nxt)"
  obtains a k where "frame_lines zs f = Inr (map chain (u64_range a k))" "a \<le> cur"
    "unat cur < unat a + k" "unat a + k \<le> 18446744073709551615" "nxt = a + of_nat k"
    "a = cur \<and> k = 1 \<or> a = BatchStart cur \<and> k = 100"
proof -
  have i: "inv s1" "inv s2" using s by (simp_all add: good_def)
  from f consider (single) sl where "GetBlock S s1 cur = Inr sl" "f = enc_all zs (slice_bytes sl @ [newline])"
      "nxt = cur + 1"
    | (batch) sl where "GetBatchCompressed S s2 (BatchStart cur) = Inr sl" "f = slice_bytes sl"
      "nxt = BatchStart cur + 100"
    by (auto simp: next_frame_def Let_def split: sum.splits if_splits)
  then show ?thesis
  proof cases
    case single
    from GetBlock_sound [OF i(1) single(1)] s(1)
    have d: "slice_bytes sl = chain cur" "unat cur \<le> last_batched"
      by (auto simp: good_def dest: sound_store_block)
    then have "frame_lines zs f = Inr (map chain (u64_range cur 1))"
      using chain single(2) by (simp add: frame_lines_single valid_chain_def u64_range_def)
    then show ?thesis using d(2) single(3) by (intro that [of cur 1]) auto
  next
    case batch
    from GetBatch_sound [OF i(2) batch(1)]
    have z: "batches (abs s2) (BatchStart cur, BatchStart cur + 99) = Some (slice_bytes sl)" by simp
    note b = sound_store_batch [OF _ z, of zs chain]
    have "frame_lines zs f = Inr (map chain (u64_range (BatchStart cur) 100))"
      "unat (BatchStart cur) + 99 \<le> last_batched"
      using b s(2) batch(2) by (auto simp: good_def)
    then show ?thesis
      using BatchStart_le [OF s(3)] BatchStart_near [of cur] batch(3)
      by (intro that [of "BatchStart cur" 100]) (auto simp: u64_le_iff)
  qed
qed

lemma streamBlocks_carries:
  assumes "\<forall>t \<in> set ts. good (at_block t) \<and> good (at_batch t)" "cur \<noteq> 0"
    and "streamBlocks zs S ts cur = (fs, pos, r)"
  shows "carries zs chain cur fs pos"
  using assms
proof (induction ts arbitrary: cur fs)
  case Nil
  then show ?case by (simp add: carries_nil)
next
  case (Cons t ts)
  note prems = Cons.prems
  show ?case
  proof (cases "tick_done t \<or> next_frame zs S (at_block t) (at_batch t) cur = None \<or> write_result t \<noteq> None")
    case True
    then show ?thesis using prems Cons.IH
      by (auto intro: carries_nil split: option.splits if_splits)
  next
    case False
    then obtain f nxt where f: "next_frame zs S (at_block t) (at_batch t) cur = Some (f, nxt)" by auto
    with False prems(3) obtain fs' where fs: "fs = f # fs'" "streamBlocks zs S ts nxt = (fs', pos, r)"
      by (auto split: prod.splits)
    obtain a k where ak: "frame_lines zs f = Inr (map chain (u64_range a k))" "a \<le> cur"
      "unat cur < unat a + k" "unat a + k \<le> 18446744073709551615" "nxt = a + of_nat k"
      and which: "a = cur \<and> k = 1 \<or> a = BatchStart cur \<and> k = 100"
      using next_frame_sound [OF _ _ prems(2) f] prems(1) by auto
    have "unat nxt = unat a + k" using ak(4,5) by (simp add: unat_add_u64 unat_of_nat_u64)
    then have "nxt \<noteq> 0" using ak(3) by (auto simp: u64_eq_iff)
    then have "carries zs chain nxt fs' pos" using Cons.IH [of nxt fs'] prems(1) fs(2) by simp
    moreover have "a \<noteq> 0" using which prems(2) by (auto simp: u64_eq_iff unat_BatchStart)
    ultimately show ?thesis using ak fs(1) by (auto intro: carries_frame)
  qed
qed

end

subsection \<open>The tip\<close>

text \<open>
  A block that is stored is sent: if it is not an individual block when \<open>GetBlock\<close> looks, the
  batch is there when \<open>GetBatchCompressed\<close> looks, because the compactor writes the batch before
  it deletes the blocks.
\<close>

locale healthy_serving = healthy_store S abs inv tracked + serving S abs inv zs written chain
  for S :: "'s Storage" and abs :: "'s \<Rightarrow> absstore" and inv tracked :: "'s \<Rightarrow> bool"
    and zs :: "'w zstd" and written :: "'w \<Rightarrow> bytes" and chain :: "u64 \<Rightarrow> bytes"
begin

lemma next_frame_progress:
  assumes s: "good s1" "good s2" "cur \<noteq> 0" and d: "view zs (abs s1) cur = Some d"
    and later: "dom (batches (abs s1)) \<subseteq> dom (batches (abs s2))"
  shows "next_frame zs S s1 s2 cur \<noteq> None"
proof (cases "blocks (abs s1) cur")
  case (Some b)
  with s chain sound_store_nonempty have "b \<noteq> []" by (auto simp: good_def)
  then have "GetBlock S s1 cur = Inr (Some b)" using GetBlock_complete Some s by (simp add: good_def)
  with \<open>b \<noteq> []\<close> show ?thesis by (simp add: next_frame_def Let_def)
next
  case None
  with d view_sound_dom [OF chain, of zs "abs s1" cur] s(1) have
    "(BatchStart cur, BatchStart cur + 99) \<in> dom (batches (abs s1))"
    by (auto simp: good_def)
  with later obtain z where z: "batches (abs s2) (BatchStart cur, BatchStart cur + 99) = Some z"
    by auto
  have "z \<noteq> []"
  proof
    assume "z = []"
    then have "frame_lines zs z = Inr []" using dec_empty by (simp add: frame_lines_def nonempty_lines_def)
    then show False using sound_store_batch [OF _ z, of zs chain] s(2) by (auto simp: good_def u64_range_def)
  qed
  then have "GetBatchCompressed S s2 (BatchStart cur) = Inr (Some z)"
    using GetBatch_complete z s by (simp add: good_def)
  moreover obtain e where "GetBlock S s1 cur = Inl e" using GetBlock_absent None s by (auto simp: good_def)
  ultimately show ?thesis using \<open>z \<noteq> []\<close> by (simp add: next_frame_def Let_def)
qed

end

subsection \<open>The properties\<close>

text \<open>While other goroutines only raise it, \<open>UpdateLatestBlock\<close> leaves the latest block at least as
  high as the given number and as every value it had, and at one of these values.\<close>

lemma latest_block_only_rises:
  assumes "sorted (latest # interference)"
  shows "n \<le> UpdateLatestBlock interference latest n \<and> latest \<le> UpdateLatestBlock interference latest n \<and>
    UpdateLatestBlock interference latest n \<in> {n, latest} \<union> set interference"
  using cas_raise_bounds [OF assms, of n] by (auto simp: UpdateLatestBlock_def)

end
