(* ===== verification/Client.thy ===== *)
theory Client
  imports Chain
begin

section \<open>The client library\<close>

text \<open>
  \<open>evm-ingestion-client/client.go\<close>: reading a frame, and the loop that keeps a stream of blocks
  going over reconnections.  The JSON decoder is a parameter \<open>unm\<close> and the field
  \<open>Block.Number\<close> of what it yields is \<open>num\<close>; the socket is the environment.
\<close>

subsection \<open>The code\<close>

record 'nb Block =
  Number :: u64
  Data :: 'nb

definition parseHex :: "string \<Rightarrow> u64 result" where
  "parseHex s = ParseUint (TrimPrefix s ''0x'') 16"

fun parse_blocks ::
  "(bytes \<Rightarrow> 'nb result) \<Rightarrow> ('nb \<Rightarrow> string) \<Rightarrow> bytes list \<Rightarrow> 'nb Block list result" where
  "parse_blocks unm num [] = Inr []"
| "parse_blocks unm num (line # lines) =
     (if length line = 0 then parse_blocks unm num lines
      else (case unm line of
              Inl err \<Rightarrow> Inl (Wrap ''parse block'' err)
            | Inr nb \<Rightarrow>
                (case parseHex (num nb) of
                   Inl err \<Rightarrow> Inl (Wrap ''parse block number'' err)
                 | Inr blockNum \<Rightarrow>
                     (case parse_blocks unm num lines of
                        Inl err \<Rightarrow> Inl err
                      | Inr bs \<Rightarrow> Inr (\<lparr>Number = blockNum, Data = nb\<rparr> # bs)))))"

definition readPack ::
  "'w zstd \<Rightarrow> (bytes \<Rightarrow> 'nb result) \<Rightarrow> ('nb \<Rightarrow> string) \<Rightarrow> bytes result \<Rightarrow> 'nb Block list result" where
  "readPack zs unm num message =
     (case message of
        Inl err \<Rightarrow> Inl err
      | Inr data \<Rightarrow>
          (case dec_all zs data of
             Inl err \<Rightarrow> Inl (Wrap ''decompress'' err)
           | Inr decompressed \<Rightarrow> parse_blocks unm num (split_on newline decompressed)))"

definition connect_url :: "string \<Rightarrow> u64 \<Rightarrow> string" where
  "connect_url addr fromBlock = ''ws://'' @ addr @ ''/ws?from='' @ dec (unat fromBlock)"

text \<open>The client and its options; \<open>cl_open\<close> is whether it holds a connection.\<close>

record client =
  cl_addr :: string
  cl_reconnect :: bool
  cl_open :: bool

definition WithReconnect :: "bool \<Rightarrow> client \<Rightarrow> client" where
  "WithReconnect enabled c = c\<lparr>cl_reconnect := enabled\<rparr>"

definition NewClient :: "string \<Rightarrow> (client \<Rightarrow> client) list \<Rightarrow> client" where
  "NewClient addr opts = fold (\<lambda>opt c. opt c) opts \<lparr>cl_addr = addr, cl_reconnect = True, cl_open = False\<rparr>"

definition connect :: "error option \<Rightarrow> client \<Rightarrow> error option \<times> client" where
  "connect dialed c =
     (case dialed of
        Some err \<Rightarrow> (Some (Wrap ''connect'' err), c)
      | None \<Rightarrow> (None, c\<lparr>cl_open := True\<rparr>))"

definition Close :: "error option \<Rightarrow> client \<Rightarrow> error option \<times> client" where
  "Close closed c = (if cl_open c then (closed, c\<lparr>cl_open := False\<rparr>) else (None, c))"

text \<open>Reconnection is on unless the last option says otherwise.\<close>

lemma NewClient_reconnect:
  "cl_reconnect (NewClient addr (map WithReconnect bs)) = (if bs = [] then True else last bs)"
proof -
  have "cl_reconnect (fold (\<lambda>opt c. opt c) (map WithReconnect bs) c) = (if bs = [] then cl_reconnect c else last bs)" for c
    by (induction bs arbitrary: c) (simp_all add: WithReconnect_def)
  then show ?thesis by (simp add: NewClient_def)
qed

lemma Close_twice: "Close e (snd (Close d c)) = (None, snd (Close d c))"
  by (simp add: Close_def)

text \<open>
  The environment of the inner loop, one \<open>reading\<close> per round: is the context done, what does
  \<open>ReadMessage\<close> give, what does the handler answer if it is called.  A \<open>session\<close> is one round of
  the outer loop; a connection that was opened for block \<open>n\<close> gives the readings
  \<open>readings s n\<close>.
\<close>

record reading =
  read_done :: bool
  message :: "bytes result"
  handled :: "error option"

record session =
  dial_done :: bool
  dial :: "error option"
  readings :: "u64 \<Rightarrow> reading list"

datatype stream_result = Running | Returned error | Reconnect

text \<open>
  \<open>read_loop\<close> and \<open>Stream\<close> give the packs handed to the handler, \<open>currentBlock\<close> and how the loop
  stands: still running, returned, or (inner loop only) left by \<open>break\<close>.
\<close>

fun read_loop ::
  "'w zstd \<Rightarrow> (bytes \<Rightarrow> 'nb result) \<Rightarrow> ('nb \<Rightarrow> string) \<Rightarrow> bool \<Rightarrow> u64 \<Rightarrow> reading list \<Rightarrow>
    'nb Block list list \<times> u64 \<times> stream_result" where
  "read_loop zs unm num reconnect currentBlock [] = ([], currentBlock, Running)"
| "read_loop zs unm num reconnect currentBlock (r # rs) =
     (if read_done r then ([], currentBlock, Returned (Fail ''context canceled''))
      else (case readPack zs unm num (message r) of
              Inl err \<Rightarrow> ([], currentBlock, if \<not> reconnect then Returned err else Reconnect)
            | Inr bs \<Rightarrow>
                let filtered = filter (\<lambda>b. Number b \<ge> currentBlock) bs in
                if length filtered > 0
                then (case handled r of
                        Some err \<Rightarrow> ([filtered], currentBlock, Returned err)
                      | None \<Rightarrow>
                          (case read_loop zs unm num reconnect (Number (last filtered) + 1) rs of
                             (packs, pos, e) \<Rightarrow> (filtered # packs, pos, e)))
                else read_loop zs unm num reconnect currentBlock rs))"

fun Stream ::
  "'w zstd \<Rightarrow> (bytes \<Rightarrow> 'nb result) \<Rightarrow> ('nb \<Rightarrow> string) \<Rightarrow> bool \<Rightarrow> u64 \<Rightarrow> session list \<Rightarrow>
    'nb Block list list \<times> u64 \<times> stream_result" where
  "Stream zs unm num reconnect currentBlock [] = ([], currentBlock, Running)"
| "Stream zs unm num reconnect currentBlock (s # ss) =
     (if dial_done s then ([], currentBlock, Returned (Fail ''context canceled''))
      else (case dial s of
              Some err \<Rightarrow>
                if \<not> reconnect then ([], currentBlock, Returned (Wrap ''connect'' err))
                else Stream zs unm num reconnect currentBlock ss
            | None \<Rightarrow>
                (case read_loop zs unm num reconnect currentBlock (readings s currentBlock) of
                   (packs, pos, Reconnect) \<Rightarrow>
                     (case Stream zs unm num reconnect pos ss of
                        (packs', pos', e) \<Rightarrow> (packs @ packs', pos', e))
                 | (packs, pos, e) \<Rightarrow> (packs, pos, e))))"

subsection \<open>Reading a frame\<close>

lemma parseHex_hex: "parseHex (''0x'' @ hex (unat n)) = Inr n"
  using ParseUint_show_base [of 16 n] unfolding parseHex_def TrimPrefix_append by simp

text \<open>\<open>nb_of n\<close> is what the decoder gives for the line of block \<open>n\<close>.\<close>

definition decodes ::
  "(bytes \<Rightarrow> 'nb result) \<Rightarrow> ('nb \<Rightarrow> string) \<Rightarrow> (u64 \<Rightarrow> bytes) \<Rightarrow> (u64 \<Rightarrow> 'nb) \<Rightarrow> bool" where
  "decodes unm num chain nb_of \<longleftrightarrow>
     (\<forall>n. unm (chain n) = Inr (nb_of n) \<and> parseHex (num (nb_of n)) = Inr n)"

definition block_of :: "(u64 \<Rightarrow> 'nb) \<Rightarrow> u64 \<Rightarrow> 'nb Block" where
  "block_of nb_of n = \<lparr>Number = n, Data = nb_of n\<rparr>"

lemma block_of_simps [simp]: "Number (block_of nb_of n) = n" "Data (block_of nb_of n) = nb_of n"
  by (simp_all add: block_of_def)

lemma parse_blocks_nonempty:
  "parse_blocks unm num (filter (\<lambda>l. l \<noteq> []) ls) = parse_blocks unm num ls"
  by (induction ls) (simp_all split: sum.split)

lemma parse_blocks_chain:
  assumes "decodes unm num chain nb_of" "valid_chain chain"
  shows "parse_blocks unm num (map chain ns) = Inr (map (block_of nb_of) ns)"
  using assms
  by (induction ns) (auto simp: decodes_def valid_chain_def valid_line_def block_of_def)

lemma readPack_frame:
  assumes "frame_lines zs f = Inr (map chain ns)" "decodes unm num chain nb_of" "valid_chain chain"
  shows "readPack zs unm num (Inr f) = Inr (map (block_of nb_of) ns)"
proof -
  obtain raw where raw: "dec_all zs f = Inr raw" "filter (\<lambda>l. l \<noteq> []) (split_on newline raw) = map chain ns"
    using assms(1) by (auto simp: frame_lines_def nonempty_lines_def split: sum.splits)
  have "parse_blocks unm num (split_on newline raw) = Inr (map (block_of nb_of) ns)"
    using parse_blocks_nonempty [of unm num "split_on newline raw"] parse_blocks_chain [OF assms(2,3), of ns]
    unfolding raw(2) by simp
  with raw(1) show ?thesis by (simp add: readPack_def)
qed

text \<open>The blocks of a frame that the filter lets through are the frame's tail from the position on.\<close>

lemma filter_u64_range:
  assumes "a \<le> cur" "unat cur < unat a + k" "unat a + k \<le> 18446744073709551615"
  shows "filter (\<lambda>n. n \<ge> cur) (u64_range a k) = u64_range cur (unat a + k - unat cur)"
proof -
  define j where "j = unat cur - unat a"
  have j: "j < k" "k = j + (k - j)" "unat a + k - unat cur = k - j" "a + of_nat j = cur"
    using assms by (auto simp: j_def u64_simps u64_eq_iff unat_add_u64 unat_of_nat_u64)
  have split: "u64_range a k = u64_range a j @ u64_range cur (k - j)"
    using u64_range_add [of a j "k - j"] j(1,4) by simp
  have low: "filter (\<lambda>n. n \<ge> cur) (u64_range a j) = []"
    using set_u64_range [of a j] assms(3) j(1) by (auto simp: filter_empty_conv u64_simps j_def)
  have high: "filter (\<lambda>n. n \<ge> cur) (u64_range cur (k - j)) = u64_range cur (k - j)"
    using set_u64_range [of cur "k - j"] assms j by (intro filter_True) (auto simp: u64_simps j_def)
  show ?thesis unfolding split filter_append low high j(3) by simp
qed

lemma last_u64_range: "k > 0 \<Longrightarrow> last (u64_range a k) = a + of_nat k - 1"
  by (cases k) (simp_all add: u64_range_snoc)

subsection \<open>The stream over one connection\<close>

definition received :: "reading list \<Rightarrow> bytes list" where
  "received rs = map (\<lambda>r. projr (message r)) (takeWhile (\<lambda>r. \<not> isl (message r)) rs)"

text \<open>
  A connection that carries the chain from the requested block on: whatever happens on it, the
  packs the handler sees are consecutive blocks starting at the request.  In the positions that
  a loop goes on from (running or reconnecting), nothing is skipped and nothing repeated.
\<close>

definition consecutive :: "(u64 \<Rightarrow> 'nb) \<Rightarrow> u64 \<Rightarrow> 'nb Block list list \<Rightarrow> u64 \<Rightarrow> stream_result \<Rightarrow> bool" where
  "consecutive nb_of cur packs pos e \<longleftrightarrow>
     (\<exists>k. concat packs = map (block_of nb_of) (u64_range cur k) \<and> unat cur + k \<le> 18446744073709551615 \<and>
        ((\<forall>err. e \<noteq> Returned err) \<longrightarrow> pos = cur + of_nat k))"

lemma consecutive_nil: "consecutive nb_of cur [] cur e"
  unfolding consecutive_def using unat_u64_le [of cur] by (intro exI [of _ 0]) simp

lemma consecutive_append:
  assumes "concat ps = map (block_of nb_of) (u64_range cur j)" "unat cur + j \<le> 18446744073709551615"
    and "consecutive nb_of (cur + of_nat j) qs pos e"
  shows "consecutive nb_of cur (ps @ qs) pos e"
proof -
  obtain k where k: "concat qs = map (block_of nb_of) (u64_range (cur + of_nat j) k)"
    "unat (cur + of_nat j) + k \<le> 18446744073709551615"
    "(\<forall>err. e \<noteq> Returned err) \<longrightarrow> pos = cur + of_nat j + of_nat k"
    using assms(3) by (auto simp: consecutive_def)
  have "unat (cur + of_nat j) = unat cur + j" using assms(2) by (simp add: unat_add_u64 unat_of_nat_u64)
  with k assms show ?thesis
    unfolding consecutive_def by (intro exI [of _ "j + k"]) (auto simp: u64_range_add add.assoc)
qed

text \<open>One frame of a carried chain: what is left of it after the filter is the next stretch of the chain.\<close>

lemma carried_frame:
  assumes "decodes unm num chain nb_of" "valid_chain chain" "carries zs chain cur (f # fs) nxt"
  obtains bs j where "readPack zs unm num (Inr f) = Inr bs" "0 < j" "unat cur + j \<le> 18446744073709551615"
    "filter (\<lambda>b. Number b \<ge> cur) bs = map (block_of nb_of) (u64_range cur j)"
    "Number (last (map (block_of nb_of) (u64_range cur j))) + 1 = cur + of_nat j"
    "carries zs chain (cur + of_nat j) fs nxt"
proof -
  obtain a k where ak: "frame_lines zs f = Inr (map chain (u64_range a k))" "a \<le> cur"
    "unat cur < unat a + k" "unat a + k \<le> 18446744073709551615" and rest: "carries zs chain (a + of_nat k) fs nxt"
    using assms(3) by (auto elim: carries_ConsE)
  define j where "j = unat a + k - unat cur"
  have j: "j > 0" "unat cur + j \<le> 18446744073709551615" "cur + of_nat j = a + of_nat k"
    using ak by (auto simp: j_def u64_eq_iff unat_add_u64 unat_of_nat_u64 u64_simps)
  show thesis
  proof (rule that [OF readPack_frame [OF ak(1) assms(1,2)] j(1,2)])
    show "filter (\<lambda>b. Number b \<ge> cur) (map (block_of nb_of) (u64_range a k)) = map (block_of nb_of) (u64_range cur j)"
      using filter_u64_range [OF ak(2-4)] by (simp add: filter_map o_def j_def)
    have ne: "length (map (block_of nb_of) (u64_range cur j)) > 0" using j(1) by simp
    show "Number (last (map (block_of nb_of) (u64_range cur j))) + 1 = cur + of_nat j"
      using j(1,3) ne by (simp add: last_map last_u64_range del: length_map length_u64_range)
    show "carries zs chain (cur + of_nat j) fs nxt" using rest j(3) by simp
  qed
qed

lemma read_loop_consecutive:
  assumes "decodes unm num chain nb_of" "valid_chain chain"
    and "carries zs chain cur (received rs) nxt"
    and "read_loop zs unm num reconnect cur rs = (packs, pos, e)"
  shows "consecutive nb_of cur packs pos e"
  using assms(3,4)
proof (induction rs arbitrary: cur packs)
  case Nil
  then show ?case by (simp add: consecutive_nil)
next
  case (Cons r rs)
  show ?case
  proof (cases "read_done r \<or> isl (message r)")
    case True
    then show ?thesis using Cons.prems(2)
      by (cases "message r") (auto simp: readPack_def consecutive_nil split: if_splits)
  next
    case False
    then obtain f where f: "message r = Inr f" by (cases "message r") auto
    then have "carries zs chain cur (f # received rs) nxt"
      using Cons.prems(1) by (simp add: received_def)
    then obtain bs j where j: "readPack zs unm num (message r) = Inr bs" "0 < j"
      "unat cur + j \<le> 18446744073709551615" "filter (\<lambda>b. Number b \<ge> cur) bs = map (block_of nb_of) (u64_range cur j)"
      "Number (last (map (block_of nb_of) (u64_range cur j))) + 1 = cur + of_nat j"
      and rest: "carries zs chain (cur + of_nat j) (received rs) nxt"
      unfolding f by (rule carried_frame [OF assms(1,2)])
    let ?got = "map (block_of nb_of) (u64_range cur j)"
    have ne: "length ?got > 0" using j(2) by simp
    show ?thesis
    proof (cases "handled r")
      case (Some err)
      then have "packs = [?got]" "e = Returned err"
        using Cons.prems(2) False j(1,4) ne by (auto simp: Let_def)
      then show ?thesis using j(3) by (auto simp: consecutive_def)
    next
      case None
      then obtain packs' where "packs = [?got] @ packs'"
        "read_loop zs unm num reconnect (cur + of_nat j) rs = (packs', pos, e)"
        using Cons.prems(2) False j(1,4,5) ne by (auto simp: Let_def split: prod.splits)
      then show ?thesis
        using Cons.IH [OF rest] j(2,3) consecutive_append [of "[?got]" nb_of cur j] by simp
    qed
  qed
qed

subsection \<open>The stream over any number of connections\<close>

lemma Stream_consecutive:
  assumes "decodes unm num chain nb_of" "valid_chain chain" "cur \<noteq> 0"
    and "\<And>s c. s \<in> set ss \<Longrightarrow> c \<noteq> 0 \<Longrightarrow> \<exists>nxt. carries zs chain c (received (readings s c)) nxt"
    and "Stream zs unm num reconnect cur ss = (packs, pos, e)"
  shows "consecutive nb_of cur packs pos e"
  using assms(3-5)
proof (induction ss arbitrary: cur packs)
  case Nil
  then show ?case by (simp add: consecutive_nil)
next
  case (Cons s ss)
  show ?case
  proof (cases "dial_done s \<or> dial s \<noteq> None")
    case True
    then show ?thesis using Cons
      by (auto simp: consecutive_nil split: if_splits option.splits)
  next
    case False
    obtain ps p r where rl: "read_loop zs unm num reconnect cur (readings s cur) = (ps, p, r)"
      by (metis prod.exhaust)
    obtain nxt where "carries zs chain cur (received (readings s cur)) nxt"
      using Cons.prems(1) Cons.prems(2) [of s cur] by auto
    then have c: "consecutive nb_of cur ps p r" by (rule read_loop_consecutive [OF assms(1,2) _ rl])
    show ?thesis
    proof (cases r)
      case Reconnect
      obtain k where k: "concat ps = map (block_of nb_of) (u64_range cur k)"
        "unat cur + k \<le> 18446744073709551615" "p = cur + of_nat k"
        using c Reconnect by (auto simp: consecutive_def)
      obtain qs where "packs = ps @ qs" "Stream zs unm num reconnect p ss = (qs, pos, e)"
        using Cons.prems(3) False rl Reconnect by (auto split: prod.splits)
      moreover have "p \<noteq> 0" using k(2,3) Cons.prems(1)
        by (auto simp: u64_eq_iff unat_add_u64 unat_of_nat_u64)
      ultimately show ?thesis
        using Cons.IH Cons.prems(2) k consecutive_append by (metis list.set_intros(2))
    qed (use c Cons.prems(3) False rl in auto)
  qed
qed

end
