(* ===== verification/CompactSteps.thy ===== *)
theory CompactSteps
  imports Compactor Chain
begin

section \<open>The compactor, one access to the store at a time\<close>

text \<open>
  The compactor runs in a goroutine of its own while blocks arrive and clients read.  \<open>cstep\<close>
  performs one call of \<open>compactOneBatch\<close> to the store (or the compression) at a time, so that
  other goroutines may come in between; \<open>compactOneBatch\<close> is the run of \<open>cstep\<close> that nobody
  disturbs.
\<close>

datatype cpc =
  CIdle
| CFirst u64
| CReading u64 "bytes list"
| CCompressed u64 bytes
| CSaved u64
| CMeta u64
| CReturned bool

fun cstep :: "'w zstd \<Rightarrow> 's Storage \<Rightarrow> cpc \<times> 's \<Rightarrow> cpc \<times> 's" where
  "cstep zs S (CIdle, s) =
     (case FirstBlock S s of
        None \<Rightarrow> (CReturned False, s)
      | Some firstBlock \<Rightarrow> (CFirst firstBlock, s))"
| "cstep zs S (CFirst firstBlock, s) =
     (case LatestBlock S s of
        None \<Rightarrow> (CReturned False, s)
      | Some latestBlock \<Rightarrow>
          (case pick_range firstBlock latestBlock of
             None \<Rightarrow> (CReturned False, s)
           | Some batchStart \<Rightarrow> (CReading batchStart [], s)))"
| "cstep zs S (CReading batchStart bs, s) =
     (if length bs < unat BatchSize
      then (case GetBlock S s (batchStart + of_nat (length bs)) of
              Inl err \<Rightarrow> (CReturned False, s)
            | Inr None \<Rightarrow> (CReturned False, s)
            | Inr (Some data) \<Rightarrow> (CReading batchStart (bs @ [data]), s))
      else (case CompressBlocks zs bs of
              Inl err \<Rightarrow> (CReturned False, s)
            | Inr compressed \<Rightarrow> (CCompressed batchStart compressed, s)))"
| "cstep zs S (CCompressed batchStart compressed, s) =
     (case SaveBatch S s batchStart (BatchEnd batchStart) compressed of
        (Some err, s') \<Rightarrow> (CReturned False, s')
      | (None, s') \<Rightarrow> (CSaved batchStart, s'))"
| "cstep zs S (CSaved batchStart, s) =
     (case SaveMeta S s (BatchEnd batchStart) of
        (Some err, s') \<Rightarrow> (CReturned False, s')
      | (None, s') \<Rightarrow> (CMeta batchStart, s'))"
| "cstep zs S (CMeta batchStart, s) =
     (case DeleteBlockRange S s batchStart (BatchEnd batchStart) of
        (r, s') \<Rightarrow> (CReturned True, s'))"
| "cstep zs S (CReturned again, s) = (CReturned again, s)"

lemma cstep_returned [simp]: "(cstep zs S ^^ n) (CReturned b, s) = (CReturned b, s)"
  by (induction n) simp_all

lemma cstep_run_Suc: "(cstep zs S ^^ Suc n) c = (cstep zs S ^^ n) (cstep zs S c)"
  by (simp add: funpow_swap1)

lemma read_blocks_length: "read_blocks S s ns = Some ds \<Longrightarrow> length ds = length ns"
  by (induction ns arbitrary: ds) (auto split: sum.splits option.splits)

lemma cstep_reading:
  assumes "length bs + k = unat BatchSize"
  shows "(cstep zs S ^^ k) (CReading lo bs, s) =
    (case read_blocks S s (u64_range (lo + of_nat (length bs)) k) of
       None \<Rightarrow> (CReturned False, s)
     | Some ds \<Rightarrow> (CReading lo (bs @ ds), s))"
  using assms
proof (induction k arbitrary: bs)
  case (Suc k)
  let ?n = "lo + of_nat (length bs)"
  show ?case
  proof (cases "\<exists>d. GetBlock S s ?n = Inr (Some d)")
    case True
    then obtain d where d: "GetBlock S s ?n = Inr (Some d)" ..
    then have one: "cstep zs S (CReading lo bs, s) = (CReading lo (bs @ [d]), s)"
      using Suc.prems by simp
    have "lo + of_nat (length (bs @ [d])) = ?n + 1" by simp
    then show ?thesis
      unfolding cstep_run_Suc one using Suc.IH [of "bs @ [d]"] Suc.prems d
      by (simp add: u64_range_Suc add_ac split: option.split)
  next
    case False
    then have none: "(case GetBlock S s ?n of Inl err \<Rightarrow> x | Inr None \<Rightarrow> x | Inr (Some d) \<Rightarrow> f d) = x" for x f
      by (auto split: sum.split option.split)
    then have "cstep zs S (CReading lo bs, s) = (CReturned False, s)"
      using Suc.prems by simp
    then show ?thesis unfolding cstep_run_Suc by (simp add: u64_range_Suc none)
  qed
qed simp

lemma cstep_three_writes:
  "(cstep zs S ^^ 3) (CCompressed lo z, s) =
     (case SaveBatch S s lo (BatchEnd lo) z of
        (Some err, s1) \<Rightarrow> (CReturned False, s1)
      | (None, s1) \<Rightarrow>
          (case SaveMeta S s1 (BatchEnd lo) of
             (Some err, s2) \<Rightarrow> (CReturned False, s2)
           | (None, s2) \<Rightarrow>
               (case DeleteBlockRange S s2 lo (BatchEnd lo) of (r, s3) \<Rightarrow> (CReturned True, s3))))"
  by (simp add: eval_nat_numeral cstep_run_Suc del: funpow.simps split: prod.split option.split)

text \<open>Undisturbed, the steps are \<open>compactOneBatch\<close>: at most 106 of them.\<close>

lemma cstep_run_106:
  "(cstep zs S ^^ 106) c = (cstep zs S ^^ 3) (cstep zs S ((cstep zs S ^^ 100) (cstep zs S (cstep zs S c))))"
proof -
  have "(106 :: nat) = Suc (Suc (Suc 3 + 100))" by simp
  then have "(cstep zs S ^^ 106) c = (cstep zs S ^^ (Suc 3 + 100)) (cstep zs S (cstep zs S c))"
    by (simp only: cstep_run_Suc)
  then show ?thesis by (simp only: funpow_add o_apply cstep_run_Suc)
qed

lemma cstep_sequential:
  assumes "compactOneBatch zs S s = (again, s')"
  shows "(cstep zs S ^^ 106) (CIdle, s) = (CReturned again, s')"
proof (cases "pick_batch S s")
  case None
  then have two: "cstep zs S (cstep zs S (CIdle, s)) = (CReturned False, s)"
    by (auto simp: pick_batch_def split: option.splits)
  show ?thesis unfolding cstep_run_106 two using assms None by (simp add: compactOneBatch_def)
next
  case (Some lo)
  then have two: "cstep zs S (cstep zs S (CIdle, s)) = (CReading lo [], s)"
    by (auto simp: pick_batch_def split: option.splits)
  have rd: "(cstep zs S ^^ 100) (CReading lo [], s) =
    (case read_blocks S s (u64_range lo 100) of None \<Rightarrow> (CReturned False, s) | Some ds \<Rightarrow> (CReading lo ds, s))"
    using cstep_reading [of "[]" 100 zs S lo s] by (simp split: option.split)
  show ?thesis
  proof (cases "read_blocks S s (u64_range lo 100)")
    case None
    then show ?thesis unfolding cstep_run_106 two rd using assms Some by (simp add: compactOneBatch_def)
  next
    case (Some bs)
    then have "length bs = 100" using read_blocks_length by fastforce
    then have "cstep zs S (CReading lo bs, s) =
      (case CompressBlocks zs bs of Inl err \<Rightarrow> (CReturned False, s) | Inr z \<Rightarrow> (CCompressed lo z, s))"
      by simp
    then show ?thesis unfolding cstep_run_106 two rd using assms Some \<open>pick_batch S s = Some lo\<close>
      by (simp add: compactOneBatch_def cstep_three_writes Let_def
          split: sum.splits prod.splits option.splits)
  qed
qed

text \<open>C37: One undisturbed pass of the step-by-step compactor is \<open>compactOneBatch\<close>: it has returned the
  same answer and left the same store after at most 106 steps.\<close>

theorem steps_are_compactOneBatch:
  "(cstep zs S ^^ 106) (CIdle, s) = (CReturned (fst (compactOneBatch zs S s)), snd (compactOneBatch zs S s))"
  by (rule cstep_sequential) simp

end
