(* ===== verification/Ingest.thy ===== *)
theory Ingest
  imports Server
begin

section \<open>The ingestion loop of the standalone service\<close>

text \<open>
  \<open>evm-ingestion/main.go\<close>: where ingestion resumes after a restart, what one received block does
  to the store and the server, and the configuration read from the environment.  The blocks come
  from a channel; \<open>num\<close> is their field \<open>Block.Number\<close> and \<open>marshal\<close> is \<open>json.Marshal\<close> on them.
\<close>

subsection \<open>Configuration\<close>

definition parseBlockNumber :: "string \<Rightarrow> u64 result" where
  "parseBlockNumber hexNum = (let numStr = TrimPrefix hexNum ''0x'' in ParseUint numStr 16)"

definition getEnvOrDefault :: "(string \<Rightarrow> string) \<Rightarrow> string \<Rightarrow> string \<Rightarrow> string" where
  "getEnvOrDefault env key defaultValue = (let v = env key in if v \<noteq> [] then v else defaultValue)"

text \<open>\<open>strconv.Atoi\<close>: an optional sign, decimal digits, and the range of \<open>int\<close>.\<close>

definition Atoi :: "string \<Rightarrow> int result" where
  "Atoi s =
     (let neg = has_prefix s ''-'';
          ds = (if has_prefix s ''-'' \<or> has_prefix s ''+'' then tl s else s) in
      case parse_digits 10 0 ds of
        Inl err \<Rightarrow> Inl err
      | Inr n \<Rightarrow>
          if ds = [] then Inl err_syntax
          else if (if neg then n > 9223372036854775808 else n > 9223372036854775807) then Inl err_range
          else Inr (if neg then - int n else int n))"

definition getEnvIntOrDefault :: "(string \<Rightarrow> string) \<Rightarrow> string \<Rightarrow> int \<Rightarrow> int" where
  "getEnvIntOrDefault env key defaultValue =
     (let v = env key in
      if v \<noteq> [] then (case Atoi v of Inl err \<Rightarrow> defaultValue | Inr i \<Rightarrow> i) else defaultValue)"

subsection \<open>The loop\<close>

text \<open>
  The starting block.  The compactor runs meanwhile, so the three questions may be asked of three
  states of the store.
\<close>

definition resume_block :: "'s Storage \<Rightarrow> 's \<Rightarrow> 's \<Rightarrow> 's \<Rightarrow> u64" where
  "resume_block S s1 s2 s3 =
     (case LatestBlock S s1 of
        Some latest \<Rightarrow> latest + 1
      | None \<Rightarrow>
          (case LatestBatch S s2 of
             Some latestBatch \<Rightarrow> latestBatch + 1
           | None \<Rightarrow> let meta = GetMeta S s3 in if meta > 0 then meta + 1 else 1))"

text \<open>
  One round of \<open>for block := range blocksCh\<close>, on the store, the server's latest block and
  \<open>currentBlock\<close>; \<open>Inl\<close> is a \<open>break\<close>.  \<open>interference\<close> is for the compare-and-swap loop of
  \<open>UpdateLatestBlock\<close>.
\<close>

definition ingest_block ::
  "'s Storage \<Rightarrow> ('nb \<Rightarrow> string) \<Rightarrow> ('nb \<Rightarrow> bytes result) \<Rightarrow> u64 list \<Rightarrow> 'nb \<Rightarrow> u64 \<Rightarrow> 's \<times> u64 \<Rightarrow>
    u64 result \<times> 's \<times> u64" where
  "ingest_block S num marshal interference block currentBlock st =
     (case st of (s, latest) \<Rightarrow>
       (case parseBlockNumber (num block) of
          Inl err \<Rightarrow> (Inl (Wrap ''Failed to parse block number'' err), s, latest)
        | Inr blockNum \<Rightarrow>
            if blockNum \<noteq> currentBlock then (Inl (Fail ''Block number mismatch''), s, latest)
            else (case marshal block of
                    Inl err \<Rightarrow> (Inl (Wrap ''Failed to marshal block'' err), s, latest)
                  | Inr data \<Rightarrow>
                      (case SaveBlock S s blockNum data of
                         (Some err, s') \<Rightarrow> (Inl (Wrap ''Failed to save block'' err), s', latest)
                       | (None, s') \<Rightarrow>
                           (Inr (currentBlock + 1), s',
                            UpdateLatestBlock interference latest blockNum)))))"

fun ingest_stream ::
  "'s Storage \<Rightarrow> ('nb \<Rightarrow> string) \<Rightarrow> ('nb \<Rightarrow> bytes result) \<Rightarrow> 'nb list \<Rightarrow> u64 \<Rightarrow> 's \<times> u64 \<Rightarrow>
    u64 result \<times> 's \<times> u64" where
  "ingest_stream S num marshal [] currentBlock st = (Inr currentBlock, st)"
| "ingest_stream S num marshal (block # bs) currentBlock st =
     (case ingest_block S num marshal [] block currentBlock st of
        (Inl err, st') \<Rightarrow> (Inl err, st')
      | (Inr nextBlock, st') \<Rightarrow> ingest_stream S num marshal bs nextBlock st')"

text \<open>The progress report: \<open>int64(latestBlock) - int64(currentBlock) + 1\<close>, at least 0.\<close>

definition blocks_remaining :: "u64 \<Rightarrow> u64 \<Rightarrow> int" where
  "blocks_remaining latestBlock currentBlock =
     (let blocksRemaining = sint (latestBlock - currentBlock + 1) in
      if blocksRemaining < 0 then 0 else blocksRemaining)"

subsection \<open>What the parsers accept\<close>

lemma parseBlockNumber_hex: "parseBlockNumber (''0x'' @ hex (unat n)) = Inr n"
  using ParseUint_show_base [of 16 n]
  unfolding parseBlockNumber_def TrimPrefix_append by (simp add: Let_def)

lemma Atoi_dec:
  assumes "n \<le> 9223372036854775807"
  shows "Atoi (dec n) = Inr (int n)"
proof -
  have digits: "list_all is_digit (dec n)" by (rule dec_digits)
  obtain c cs where d: "dec n = c # cs" by (cases "dec n") auto
  with digits have "is_digit c" by simp
  then have "c \<noteq> CHR ''-''" "c \<noteq> CHR ''+''" by (auto simp: is_digit_def)
  then have "\<not> has_prefix (dec n) ''-''" "\<not> has_prefix (dec n) ''+''"
    unfolding d by (simp_all add: has_prefix_def)
  then show ?thesis using assms by (simp add: Atoi_def parse_show_base)
qed

subsection \<open>Blocks that go in\<close>

text \<open>
  A block of the chain: when its number parses and it can be marshalled, the line is the one of
  that number.
\<close>

definition genuine ::
  "(u64 \<Rightarrow> bytes) \<Rightarrow> ('nb \<Rightarrow> string) \<Rightarrow> ('nb \<Rightarrow> bytes result) \<Rightarrow> 'nb \<Rightarrow> bool" where
  "genuine chain num marshal nb \<longleftrightarrow>
     (case (parseBlockNumber (num nb), marshal nb) of
        (Inr n, Inr d) \<Rightarrow> d = chain n \<and> unat n \<le> last_batched
      | _ \<Rightarrow> True)"

lemma ingest_block_cases:
  assumes "ingest_block S num marshal intf nb cur (s, latest) = (r, s', latest')"
  obtains (refused) err where "r = Inl err" "s' = s" "latest' = latest"
  | (saved) d w where "parseBlockNumber (num nb) = Inr cur" "marshal nb = Inr d"
      "SaveBlock S s cur d = (w, s')"
      "r = (case w of None \<Rightarrow> Inr (cur + 1) | Some err \<Rightarrow> Inl (Wrap ''Failed to save block'' err))"
      "latest' = (case w of None \<Rightarrow> UpdateLatestBlock intf latest cur | Some err \<Rightarrow> latest)"
proof (cases "parseBlockNumber (num nb) = Inr cur \<and> (\<exists>d. marshal nb = Inr d)")
  case False
  then have "(\<exists>err. r = Inl err) \<and> s' = s \<and> latest' = latest"
    using assms by (auto simp: ingest_block_def split: sum.splits if_splits)
  then show thesis using refused by blast
next
  case True
  then obtain d where d: "parseBlockNumber (num nb) = Inr cur" "marshal nb = Inr d" by blast
  obtain w s1 where w: "SaveBlock S s cur d = (w, s1)" by fastforce
  with assms d show thesis
    by (intro saved [OF d, of w]) (auto simp: ingest_block_def split: option.splits)
qed

end
