(* ===== verification/ChainStore.thy ===== *)
theory ChainStore
  imports CompactSteps
begin

section \<open>A store that holds the chain up to a tip\<close>

text \<open>
  The invariant of a store in use: the blocks \<open>1, \<dots>, t\<close> of the chain can be read from it, and
  nothing else.  The four writes keep it, and so does every step of the compactor, for any store
  with the contract: the standalone service and the plugin both rest on these lemmas.
\<close>

subsection \<open>The invariant and the writes\<close>

definition holds_upto :: "'w zstd \<Rightarrow> (u64 \<Rightarrow> bytes) \<Rightarrow> absstore \<Rightarrow> nat \<Rightarrow> bool" where
  "holds_upto zs chain a t \<longleftrightarrow> sound_store zs chain a \<and>
     dom (view zs a) = {n. 1 \<le> unat n \<and> unat n \<le> t} \<and> t \<le> last_batched \<and>
     (t = 0 \<or> of_nat t \<in> dom (blocks a)) \<and>
     (\<forall>b e. (b, e) \<in> dom (batches a) \<longrightarrow> e = b + 99 \<and> aligned b) \<and> unat (meta a) \<le> t"

lemma holds_uptoD:
  assumes "holds_upto zs chain a t"
  shows "sound_store zs chain a" "dom (view zs a) = {n. 1 \<le> unat n \<and> unat n \<le> t}" "t \<le> last_batched"
    "t = 0 \<or> of_nat t \<in> dom (blocks a)" "\<And>b e. (b, e) \<in> dom (batches a) \<Longrightarrow> e = b + 99 \<and> aligned b"
    "unat (meta a) \<le> t"
  using assms by (simp_all add: holds_upto_def)

lemma holds_upto_empty: "holds_upto zs chain empty_store 0"
proof -
  have "batch_view zs empty_store n = None" for n by (simp add: batch_view_def split: option.split)
  then have "view zs empty_store = Map.empty" by (simp add: view_def fun_eq_iff)
  then show ?thesis by (simp add: holds_upto_def)
qed

lemma holds_upto_view:
  assumes "holds_upto zs chain a t"
  shows "view zs a n = (if 1 \<le> unat n \<and> unat n \<le> t then Some (chain n) else None)"
proof (cases "view zs a n")
  case None
  then have "n \<notin> dom (view zs a)" by auto
  with None holds_uptoD(2) [OF assms] show ?thesis by simp
next
  case (Some d)
  then have "n \<in> dom (view zs a)" by auto
  with Some holds_uptoD(2) [OF assms] view_sound [OF holds_uptoD(1) [OF assms] Some] show ?thesis
    by simp
qed

lemma holds_upto_view_iff:
  assumes "holds_upto zs chain a t"
  shows "view zs a n \<noteq> None \<longleftrightarrow> 1 \<le> unat n \<and> unat n \<le> t"
  by (simp add: holds_upto_view [OF assms])

lemma holds_upto_block:
  assumes "holds_upto zs chain a t" "valid_chain chain" "n \<in> dom (blocks a)"
  shows "1 \<le> unat n" "unat n \<le> t"
  using view_sound_dom [OF assms(2) holds_uptoD(1) [OF assms(1)], of n]
    holds_upto_view_iff [OF assms(1), of n] assms(3) by auto

lemma unat_plus_99: "unat (lo :: u64) + 99 \<le> last_batched \<Longrightarrow> unat (lo + 99) = unat lo + 99"
  using unat_add_u64 [of lo 99] by simp

lemma holds_upto_batch:
  assumes "holds_upto zs chain a t" "valid_chain chain" "(b, e) \<in> dom (batches a)"
  shows "e = b + 99" "aligned b" "unat b + 99 \<le> t" "unat e = unat b + 99"
proof -
  note D = holds_uptoD [OF assms(1)]
  show e: "e = b + 99" "aligned b" using D(5) [OF assms(3)] by simp_all
  obtain z where z: "batches a (b, b + 99) = Some z" using assms(3) e(1) by blast
  then have fits: "unat b + 99 \<le> last_batched" using D(1) e(2) by (simp add: sound_store_def)
  then show u: "unat e = unat b + 99" unfolding e(1) by (rule unat_plus_99)
  have "BatchStart e = b" using e(2) u by (intro BatchStart_aligned) auto
  moreover have "e \<noteq> 0" using u by auto
  ultimately have "view zs a e \<noteq> None" using view_sound_dom [OF assms(2) D(1), of e] z by simp
  then show "unat b + 99 \<le> t" using holds_upto_view_iff [OF assms(1), of e] u by simp
qed

text \<open>The four writes.\<close>

lemma holds_uptoI:
  assumes "holds_upto zs chain a t" "t \<le> t'" "t' \<le> last_batched" "sound_store zs chain b"
    and "\<And>n. view zs b n \<noteq> None \<longleftrightarrow> 1 \<le> unat n \<and> unat n \<le> t'"
    and "t' = 0 \<or> of_nat t' \<in> dom (blocks b)"
    and "\<And>x e. (x, e) \<in> dom (batches b) \<Longrightarrow> e = x + 99 \<and> aligned x" "unat (meta b) \<le> t'"
  shows "holds_upto zs chain b t'"
  using assms(3-8) unfolding holds_upto_def by blast

lemma holds_upto_put_block:
  assumes "holds_upto zs chain a t" "valid_chain chain" "1 \<le> unat n" "unat n \<le> Suc t" "unat n \<le> last_batched"
  shows "holds_upto zs chain (put_block n (chain n) a) (max t (unat n))"
proof (rule holds_uptoI [OF assms(1)])
  note D = holds_uptoD [OF assms(1)]
  have "chain n \<noteq> []" using assms(2) by (auto simp: valid_chain_def valid_line_def)
  then have "view zs (put_block n (chain n) a) m \<noteq> None \<longleftrightarrow> m = n \<or> view zs a m \<noteq> None" for m
    by (simp add: view_put_block)
  then show "view zs (put_block n (chain n) a) m \<noteq> None \<longleftrightarrow> 1 \<le> unat m \<and> unat m \<le> max t (unat n)" for m
    using assms(3,4) holds_upto_view_iff [OF assms(1), of m] by (auto simp: le_Suc_eq u64_eq_iff max_def)
  show "max t (unat n) = 0 \<or> of_nat (max t (unat n)) \<in> dom (blocks (put_block n (chain n) a))"
    using D(4) assms(3) by (auto simp: max_def)
  show "e = x + 99 \<and> aligned x" if "(x, e) \<in> dom (batches (put_block n (chain n) a))" for x e
    using that D(5) by simp
qed (use assms holds_uptoD [OF assms(1)] in auto)

lemma holds_upto_put_batch:
  assumes "holds_upto zs chain a t" "valid_chain chain" "aligned lo" "unat lo + 99 \<le> t"
    and "frame_lines zs z = Inr (map chain (u64_range lo 100))"
  shows "holds_upto zs chain (put_batch lo (lo + 99) z a) t"
proof (rule holds_uptoI [OF assms(1)])
  let ?a = "put_batch lo (lo + 99) z a"
  note D = holds_uptoD [OF assms(1)]
  have fits: "unat lo + 99 \<le> last_batched" using D(3) assms(4) by linarith
  show sound: "sound_store zs chain ?a" by (rule sound_store_put_batch [OF D(1) assms(5) fits])
  show "view zs ?a n \<noteq> None \<longleftrightarrow> 1 \<le> unat n \<and> unat n \<le> t" for n
  proof (cases "BatchStart n = lo \<and> n \<noteq> 0")
    case True
    then have "unat lo \<le> unat n" "unat n < unat lo + 100"
      using BatchStart_le [of n] BatchStart_near [of n] by auto
    then have "1 \<le> unat n" "unat n \<le> t" using assms(3,4) by (auto simp: aligned_def)
    then show ?thesis using True view_sound_dom [OF assms(2) sound, of n] by simp
  next
    case False
    then have "view zs ?a n \<noteq> None \<longleftrightarrow> view zs a n \<noteq> None"
      using view_sound_dom [OF assms(2) sound, of n] view_sound_dom [OF assms(2) D(1), of n] by auto
    then show ?thesis using holds_upto_view_iff [OF assms(1)] by simp
  qed
  show "e = x + 99 \<and> aligned x" if "(x, e) \<in> dom (batches ?a)" for x e
    using that D(5) assms(3) by auto
qed (use holds_uptoD [OF assms(1)] in auto)

lemma holds_upto_put_meta:
  "holds_upto zs chain a t \<Longrightarrow> unat m \<le> t \<Longrightarrow> holds_upto zs chain (put_meta m a) t"
  by (simp add: holds_upto_def)

lemma holds_upto_drop:
  assumes "holds_upto zs chain a t" "valid_chain chain" "(lo, lo + 99) \<in> dom (batches a)"
    and "unat lo + 99 < t"
  shows "holds_upto zs chain (drop_blocks lo (lo + 99) a) t"
proof (rule holds_uptoI [OF assms(1)])
  let ?a = "drop_blocks lo (lo + 99) a"
  note D = holds_uptoD [OF assms(1)]
  note b = holds_upto_batch [OF assms(1-3)]
  show sound: "sound_store zs chain ?a" using D(1) by simp
  show "view zs ?a n \<noteq> None \<longleftrightarrow> 1 \<le> unat n \<and> unat n \<le> t" for n
  proof (cases "lo \<le> n \<and> n \<le> lo + 99")
    case True
    then have n: "unat lo \<le> unat n" "unat n < unat lo + 100" using b(4) by (auto simp: u64_simps)
    then have "1 \<le> unat n" "unat n \<le> t" using b(2,3) by (auto simp: aligned_def)
    moreover from this have "n \<noteq> 0" by auto
    moreover have "BatchStart n = lo" using n b(2) by (intro BatchStart_aligned)
    ultimately show ?thesis using view_sound_dom [OF assms(2) sound, of n] assms(3) by auto
  next
    case False
    then have "view zs ?a n = view zs a n" by (auto simp: view_def split: option.split)
    then show ?thesis using holds_upto_view_iff [OF assms(1)] by simp
  qed
  have "\<not> (of_nat t \<le> lo + 99)"
    using D(3) assms(4) b(4) by (simp add: u64_simps unat_of_nat_u64)
  then show "t = 0 \<or> of_nat t \<in> dom (blocks ?a)" using D(4) by auto
  show "e = x + 99 \<and> aligned x" if "(x, e) \<in> dom (batches ?a)" for x e
    using that D(5) by simp
qed (use holds_uptoD [OF assms(1)] in auto)

subsection \<open>The compactor\<close>

text \<open>
  What holds at each point of the compactor; \<open>t\<close> bounds the latest block that the store reports,
  which may be one ahead of the readable blocks.
\<close>

definition cpc_ok :: "'w zstd \<Rightarrow> (u64 \<Rightarrow> bytes) \<Rightarrow> absstore \<Rightarrow> nat \<Rightarrow> cpc \<Rightarrow> bool" where
  "cpc_ok zs chain a t pc =
     (case pc of
        CFirst f \<Rightarrow> 1 \<le> unat f \<and> unat f \<le> t
      | CReading lo bs \<Rightarrow> aligned lo \<and> unat lo + 1099 \<le> t \<and> length bs \<le> 100 \<and>
          bs = map chain (u64_range lo (length bs))
      | CCompressed lo z \<Rightarrow> aligned lo \<and> unat lo + 1099 \<le> t \<and>
          frame_lines zs z = Inr (map chain (u64_range lo 100))
      | CSaved lo \<Rightarrow> unat lo + 1099 \<le> t \<and> (lo, lo + 99) \<in> dom (batches a)
      | CMeta lo \<Rightarrow> unat lo + 1099 \<le> t \<and> (lo, lo + 99) \<in> dom (batches a)
      | _ \<Rightarrow> True)"

lemma cpc_ok_mono:
  "cpc_ok zs chain a t pc \<Longrightarrow> t \<le> t' \<Longrightarrow> dom (batches a) \<subseteq> dom (batches a') \<Longrightarrow> cpc_ok zs chain a' t' pc"
  by (auto simp: cpc_ok_def split: cpc.splits)

lemma pick_range_ok:
  assumes "pick_range f l = Some lo" "1 \<le> unat f" "unat f \<le> unat l" "unat l \<le> last_batched"
  shows "aligned lo" "unat lo + 1099 \<le> unat l"
proof -
  have lo: "lo = BatchStart f" and far: "\<not> l < BatchEnd lo + 1000"
    and count: "\<not> l - f + 1 < 1100"
    using assms(1) by (auto simp: pick_range_def Let_def split: if_splits)
  show "aligned lo" by (simp add: lo)
  have "unat (l - f + 1) = unat l - unat f + 1"
    using assms(3,4) by (simp add: unat_add_u64 unat_sub_u64 u64_le_iff)
  then have enough: "unat f + 1099 \<le> unat l" using count assms(3) by (simp add: u64_less_iff)
  moreover have "unat lo \<le> unat f" using BatchStart_le [of f] assms(2) lo by (cases "f = 0") auto
  ultimately show "unat lo + 1099 \<le> unat l" by linarith
qed

locale chain_store = block_store S abs inv + zstd_laws zs written
  for S :: "'s Storage" and abs :: "'s \<Rightarrow> absstore" and inv :: "'s \<Rightarrow> bool"
    and zs :: "'w zstd" and written :: "'w \<Rightarrow> bytes" +
  fixes chain :: "u64 \<Rightarrow> bytes"
  assumes chain: "valid_chain chain"
begin

text \<open>Reading changes nothing, and what has been read is the chain.\<close>

lemma reading_ok:
  assumes "inv s" "holds_upto zs chain (abs s) t" "cpc_ok zs chain (abs s) u (CReading lo bs)"
    and step: "cstep zs S (CReading lo bs, s) = (pc', s')"
  shows "s' = s \<and> cpc_ok zs chain (abs s) u pc'"
proof -
  have pc: "aligned lo" "unat lo + 1099 \<le> u" "length bs \<le> 100" "bs = map chain (u64_range lo (length bs))"
    using assms(3) by (simp_all add: cpc_ok_def)
  show ?thesis
  proof (cases "length bs < 100")
    case True
    have "cpc_ok zs chain (abs s) u (CReading lo (bs @ [d]))"
      if d: "GetBlock S s (lo + of_nat (length bs)) = Inr (Some d)" for d
    proof -
      have "d = chain (lo + of_nat (length bs))"
        using GetBlock_sound [OF assms(1) d] sound_store_block [OF holds_uptoD(1) [OF assms(2)]] by simp
      then have "bs @ [d] = map chain (u64_range lo (Suc (length bs)))"
        using pc(4) by (simp add: u64_range_snoc)
      with pc True show ?thesis by (simp add: cpc_ok_def)
    qed
    with True step show ?thesis
      by (auto simp: cpc_ok_def split: sum.splits option.splits)
  next
    case False
    then have len: "length bs = 100" using pc(3) by simp
    have "cpc_ok zs chain (abs s) u (CCompressed lo z)" if z: "CompressBlocks zs bs = Inr z" for z
    proof -
      have "\<forall>b \<in> set bs. valid_line b"
        by (subst pc(4)) (use chain in \<open>auto simp: valid_chain_def\<close>)
      then have "frame_lines zs z = Inr bs" by (rule frame_lines_batch [OF z])
      with pc len show ?thesis by (simp add: cpc_ok_def)
    qed
    with len step show ?thesis
      by (auto simp: cpc_ok_def split: sum.splits)
  qed
qed

lemma looking_ok:
  assumes "inv s" "holds_upto zs chain (abs s) t" "cpc_ok zs chain (abs s) u pc" "pc = CIdle \<or> pc = CFirst f"
    and "t \<le> u" "u \<le> last_batched" "\<And>l. LatestBlock S s = Some l \<Longrightarrow> unat l = u"
    and step: "cstep zs S (pc, s) = (pc', s')"
  shows "s' = s \<and> cpc_ok zs chain (abs s) u pc'"
  using assms(4)
proof
  assume idle: "pc = CIdle"
  have "cpc_ok zs chain (abs s) u (CFirst f)" if "FirstBlock S s = Some f" for f
    using FirstBlock_sound [OF assms(1) that] holds_upto_block [OF assms(2) chain, of f] assms(5)
    by (simp add: cpc_ok_def)
  with idle step show ?thesis by (auto simp: cpc_ok_def split: option.splits)
next
  assume first: "pc = CFirst f"
  have "cpc_ok zs chain (abs s) u (CReading lo [])"
    if l: "LatestBlock S s = Some l" and p: "pick_range f l = Some lo" for l lo
    using pick_range_ok [OF p] assms(6) assms(7) [OF l] assms(3) first by (simp add: cpc_ok_def)
  with first step show ?thesis by (auto simp: cpc_ok_def split: option.splits)
qed

text \<open>The three writes.\<close>

lemma saving_ok:
  assumes "inv s" "holds_upto zs chain (abs s) t" "cpc_ok zs chain (abs s) u (CCompressed lo z)" "u \<le> Suc t"
    and step: "cstep zs S (CCompressed lo z, s) = (pc', s')"
  shows "inv s' \<and> holds_upto zs chain (abs s') t \<and> cpc_ok zs chain (abs s') u pc' \<and>
    dom (batches (abs s)) \<subseteq> dom (batches (abs s'))"
proof -
  have pc: "aligned lo" "unat lo + 1099 \<le> u" "frame_lines zs z = Inr (map chain (u64_range lo 100))"
    using assms(3) by (simp_all add: cpc_ok_def)
  obtain w where w: "SaveBatch S s lo (BatchEnd lo) z = (w, s')"
    "pc' = (case w of None \<Rightarrow> CSaved lo | Some err \<Rightarrow> CReturned False)"
    using step by (auto split: prod.splits option.splits)
  note law = SaveBatch_law [OF assms(1) w(1), unfolded BatchEnd_eq]
  have "holds_upto zs chain (put_batch lo (lo + 99) z (abs s)) t"
    using pc(2) assms(4) by (intro holds_upto_put_batch [OF assms(2) chain pc(1) _ pc(3)]) simp
  with law assms(2) pc w(2) show ?thesis
    by (auto simp: write_outcome_def cpc_ok_def split: option.splits)
qed

lemma marking_ok:
  assumes "inv s" "holds_upto zs chain (abs s) t" "cpc_ok zs chain (abs s) u (CSaved lo)" "u \<le> Suc t"
    and step: "cstep zs S (CSaved lo, s) = (pc', s')"
  shows "inv s' \<and> holds_upto zs chain (abs s') t \<and> cpc_ok zs chain (abs s') u pc' \<and>
    dom (batches (abs s)) \<subseteq> dom (batches (abs s'))"
proof -
  have pc: "unat lo + 1099 \<le> u" "(lo, lo + 99) \<in> dom (batches (abs s))"
    using assms(3) by (simp_all add: cpc_ok_def)
  obtain w where w: "SaveMeta S s (BatchEnd lo) = (w, s')"
    "pc' = (case w of None \<Rightarrow> CMeta lo | Some err \<Rightarrow> CReturned False)"
    using step by (auto split: prod.splits option.splits)
  note law = SaveMeta_law [OF assms(1) w(1), unfolded BatchEnd_eq]
  have "holds_upto zs chain (put_meta (lo + 99) (abs s)) t"
    using pc(1) assms(4) holds_upto_batch(4) [OF assms(2) chain pc(2)]
    by (intro holds_upto_put_meta [OF assms(2)]) simp
  with law assms(2) pc w(2) show ?thesis
    by (auto simp: write_outcome_def cpc_ok_def split: option.splits)
qed

lemma deleting_ok:
  assumes "inv s" "holds_upto zs chain (abs s) t" "cpc_ok zs chain (abs s) u (CMeta lo)"
    and u: "u \<le> Suc t" "u \<le> last_batched"
    and step: "cstep zs S (CMeta lo, s) = (pc', s')"
  shows "inv s' \<and> holds_upto zs chain (abs s') t \<and> cpc_ok zs chain (abs s') u pc' \<and>
    dom (batches (abs s)) \<subseteq> dom (batches (abs s'))"
proof -
  have pc: "unat lo + 1099 \<le> u" "(lo, lo + 99) \<in> dom (batches (abs s))"
    using assms(3) by (simp_all add: cpc_ok_def)
  note b = holds_upto_batch [OF assms(2) chain pc(2)]
  obtain w where w: "DeleteBlockRange S s lo (lo + 99) = (w, s')" "pc' = CReturned True"
    using step by (auto simp: BatchEnd_eq split: prod.splits)
  have "lo \<le> lo + 99" "unat (lo + 99) < 18446744073709551615"
    using b(4) pc(1) u by (simp_all add: u64_le_iff)
  note law = DeleteBlockRange_law [OF assms(1) this w(1)]
  have "holds_upto zs chain (drop_blocks lo (lo + 99) (abs s)) t"
    using pc(1) u(1) by (intro holds_upto_drop [OF assms(2) chain pc(2)]) simp
  with law assms(2) pc w(2) show ?thesis
    by (auto simp: write_outcome_def cpc_ok_def)
qed

text \<open>Compaction keeps the tip and what a reader can read.\<close>

lemma cstep_ok:
  assumes x: "inv s" "holds_upto zs chain (abs s) t" "cpc_ok zs chain (abs s) u pc"
    and u: "t \<le> u" "u \<le> Suc t" "u \<le> last_batched" "\<And>l. LatestBlock S s = Some l \<Longrightarrow> unat l = u"
    and step: "cstep zs S (pc, s) = (pc', s')"
  shows "inv s' \<and> holds_upto zs chain (abs s') t \<and> cpc_ok zs chain (abs s') u pc' \<and>
    dom (batches (abs s)) \<subseteq> dom (batches (abs s'))"
proof (cases pc)
  case CIdle
  with looking_ok [OF x _ u(1,3,4) step] x(1,2) show ?thesis by blast
next
  case (CFirst f)
  with looking_ok [OF x _ u(1,3,4) step] x(1,2) show ?thesis by blast
next
  case (CReading lo bs)
  with reading_ok [OF x(1,2)] x step show ?thesis by blast
next
  case (CCompressed lo z)
  with saving_ok [OF x(1,2)] x(3) u(2) step show ?thesis by blast
next
  case (CSaved lo)
  with marking_ok [OF x(1,2)] x(3) u(2) step show ?thesis by blast
next
  case (CMeta lo)
  with deleting_ok [OF x(1,2)] x(3) u(2,3) step show ?thesis by blast
next
  case (CReturned b)
  with x step show ?thesis by auto
qed

end

end
