(* ===== verification/Pipeline.thy ===== *)
theory Pipeline
  imports ChainStore Ingest Pebble
begin

section \<open>The running service: ingestion, compaction and readers interleaved\<close>

text \<open>
  The goroutines that \<open>main\<close> starts (evm-ingestion/main.go) share one store.  A state of the
  service is the state of the store, the points at which the compactor and the ingestion loop
  are, and the server's latest block; a step is one access of one of them to the store, or a
  crash that loses everything but the store.  Any operation may report an error at any time.
\<close>

subsection \<open>The steps\<close>

datatype ipc = IStopped | IAskBatch | IAskMeta | IRunning u64

text \<open>The three questions of the resume logic, one at a time.\<close>

fun resume_step :: "'s Storage \<Rightarrow> ipc \<Rightarrow> 's \<Rightarrow> ipc" where
  "resume_step S IStopped s =
     (case LatestBlock S s of Some latest \<Rightarrow> IRunning (latest + 1) | None \<Rightarrow> IAskBatch)"
| "resume_step S IAskBatch s =
     (case LatestBatch S s of Some latestBatch \<Rightarrow> IRunning (latestBatch + 1) | None \<Rightarrow> IAskMeta)"
| "resume_step S IAskMeta s =
     (let meta = GetMeta S s in IRunning (if meta > 0 then meta + 1 else 1))"
| "resume_step S (IRunning currentBlock) s = IRunning currentBlock"

lemma resume_steps:
  "resume_step S (resume_step S (resume_step S IStopped s1) s2) s3 = IRunning (resume_block S s1 s2 s3)"
  by (simp add: resume_block_def Let_def split: option.split)

record 's sys =
  the_store :: 's
  the_compactor :: cpc
  the_ingestion :: ipc
  the_latest :: u64

inductive sys_step ::
  "'w zstd \<Rightarrow> 's Storage \<Rightarrow> (u64 \<Rightarrow> bytes) \<Rightarrow> ('nb \<Rightarrow> string) \<Rightarrow> ('nb \<Rightarrow> bytes result) \<Rightarrow>
    's sys \<Rightarrow> 's sys \<Rightarrow> bool"
  for zs :: "'w zstd" and S :: "'s Storage" and chain :: "u64 \<Rightarrow> bytes"
    and num :: "'nb \<Rightarrow> string" and marshal :: "'nb \<Rightarrow> bytes result" where
  compact: "cstep zs S (the_compactor x, the_store x) = (pc, s) \<Longrightarrow>
    sys_step zs S chain num marshal x (x\<lparr>the_store := s, the_compactor := pc\<rparr>)"
| compact_again: "the_compactor x = CReturned b \<Longrightarrow>
    sys_step zs S chain num marshal x (x\<lparr>the_compactor := CIdle\<rparr>)"
| resume: "sys_step zs S chain num marshal x
    (x\<lparr>the_ingestion := resume_step S (the_ingestion x) (the_store x)\<rparr>)"
| receive: "the_ingestion x = IRunning currentBlock \<Longrightarrow> genuine chain num marshal block \<Longrightarrow>
    ingest_block S num marshal [] block currentBlock (the_store x, the_latest x) = (r, s, l) \<Longrightarrow>
    sys_step zs S chain num marshal x
      (x\<lparr>the_store := s, the_latest := l,
         the_ingestion := (case r of Inl err \<Rightarrow> IStopped | Inr nextBlock \<Rightarrow> IRunning nextBlock)\<rparr>)"
| stream_end: "sys_step zs S chain num marshal x (x\<lparr>the_ingestion := IStopped\<rparr>)"
| crash: "sys_step zs S chain num marshal x
    \<lparr>the_store = the_store x, the_compactor = CIdle, the_ingestion = IStopped, the_latest = 0\<rparr>"

inductive_cases sys_stepE: "sys_step zs S chain num marshal x y"

abbreviation runs_to ::
  "'w zstd \<Rightarrow> 's Storage \<Rightarrow> (u64 \<Rightarrow> bytes) \<Rightarrow> ('nb \<Rightarrow> string) \<Rightarrow> ('nb \<Rightarrow> bytes result) \<Rightarrow>
    's sys \<Rightarrow> 's sys \<Rightarrow> bool" where
  "runs_to zs S chain num marshal \<equiv> (sys_step zs S chain num marshal)\<^sup>*\<^sup>*"

definition boot :: "'s \<Rightarrow> 's sys" where
  "boot s = \<lparr>the_store = s, the_compactor = CIdle, the_ingestion = IStopped, the_latest = 0\<rparr>"

subsection \<open>The specification: a log with an announced length\<close>

text \<open>
  All the service does, seen from outside: a log of blocks grows at its end, by one block at a
  time; the announced length follows it; a restart forgets what was announced.  A state is the
  number of blocks and the announced length.
\<close>

inductive log_step :: "nat \<times> nat \<Rightarrow> nat \<times> nat \<Rightarrow> bool" where
  store: "a' \<in> {a, Suc t} \<Longrightarrow> log_step (t, a) (Suc t, a')"
| announce: "a \<le> a' \<Longrightarrow> a' \<le> t \<Longrightarrow> log_step (t, a) (t, a')"
| restart: "log_step (t, a) (t, 0)"

inductive_cases log_stepE: "log_step (t, a) (t', a')"

lemma log_step_quiet: "a \<le> t \<Longrightarrow> log_step (t, a) (t, a)"
  by (rule log_step.announce) simp

lemma log_step_grows: "log_step x y \<Longrightarrow> fst x \<le> fst y \<and> fst y \<le> Suc (fst x)"
  by (cases rule: log_step.cases) auto

text \<open>The log that a state of the service stands for: the blocks that can be read.\<close>

definition log_of :: "'w zstd \<Rightarrow> ('s \<Rightarrow> absstore) \<Rightarrow> 's sys \<Rightarrow> nat \<times> nat" where
  "log_of zs absf x = (card (dom (view zs (absf (the_store x)))), unat (the_latest x))"

lemma card_upto:
  assumes "t \<le> last_batched"
  shows "card {n :: u64. 1 \<le> unat n \<and> unat n \<le> t} = t"
proof -
  have "{n :: u64. 1 \<le> unat n \<and> unat n \<le> t} = of_nat ` {1..t}"
  proof (intro set_eqI iffI)
    fix n :: u64
    assume "n \<in> {n. 1 \<le> unat n \<and> unat n \<le> t}"
    then show "n \<in> of_nat ` {1..t}" by (intro image_eqI [of _ _ "unat n"]) simp_all
  qed (use assms in \<open>auto simp: unat_of_nat_u64\<close>)
  moreover have "inj_on (of_nat :: nat \<Rightarrow> u64) {1..t}"
    using assms by (intro inj_on_inverseI [where g = unat]) (simp add: unat_of_nat_u64)
  ultimately show ?thesis by (simp add: card_image)
qed

subsection \<open>The contract the pipeline needs of its store\<close>

text \<open>
  The latest block that the store reports is its highest one.  It holds for Pebble whatever
  fails.
\<close>

locale ordered_store = block_store +
  assumes LatestBlock_sound: "inv s \<Longrightarrow> LatestBlock S s = Some n \<Longrightarrow>
      n \<in> dom (blocks (abs s)) \<and> (\<forall>m \<in> dom (blocks (abs s)). m \<le> n)"

sublocale pebble_laws \<subseteq> store: ordered_store "PebbleStorage pb" "pebble_abs content" "pebble_inv content"
  by unfold_locales (use latest_block in auto)

interpretation pebble_mem: ordered_store "PebbleStorage mem_pebble" "\<lambda>db. kv_abs (map_of db)"
  "\<lambda>db. well_keyed (map_of db)"
  by (rule mem_pebble.store.ordered_store_axioms)

locale pipeline = ordered_store S abs inv + chain_store S abs inv zs written chain
  for S :: "'s Storage" and abs :: "'s \<Rightarrow> absstore" and inv :: "'s \<Rightarrow> bool"
    and zs :: "'w zstd" and written :: "'w \<Rightarrow> bytes" and chain :: "u64 \<Rightarrow> bytes" +
  fixes num :: "'nb \<Rightarrow> string" and marshal :: "'nb \<Rightarrow> bytes result"
begin

text \<open>What holds at each point of the compactor and of the ingestion loop.\<close>

definition ipc_ok :: "nat \<Rightarrow> ipc \<Rightarrow> bool" where
  "ipc_ok t i = (case i of IRunning c \<Rightarrow> 1 \<le> unat c \<and> unat c \<le> Suc t | _ \<Rightarrow> True)"

definition sys_ok :: "'s sys \<Rightarrow> nat \<Rightarrow> bool" where
  "sys_ok x t \<longleftrightarrow> inv (the_store x) \<and> holds_upto zs chain (abs (the_store x)) t \<and>
     cpc_ok zs chain (abs (the_store x)) t (the_compactor x) \<and> ipc_ok t (the_ingestion x) \<and>
     unat (the_latest x) \<le> t"

lemma ipc_ok_mono: "ipc_ok t i \<Longrightarrow> t \<le> t' \<Longrightarrow> ipc_ok t' i"
  by (auto simp: ipc_ok_def split: ipc.splits)

text \<open>The store reports exactly the tip as its latest block, so the compactor keeps the invariant.\<close>

lemma latest_is_tip:
  assumes "inv s" "holds_upto zs chain (abs s) t" "LatestBlock S s = Some l"
  shows "unat l = t"
proof -
  note L = LatestBlock_sound [OF assms(1,3)]
  have l: "1 \<le> unat l" "unat l \<le> t" using L holds_upto_block [OF assms(2) chain] by blast+
  then have "of_nat t \<le> l" using L holds_uptoD(4) [OF assms(2)] by auto
  then show ?thesis using l(2) holds_uptoD(3) [OF assms(2)] by (simp add: u64_le_iff unat_of_nat_u64)
qed

lemma compact_ok:
  assumes x: "inv s" "holds_upto zs chain (abs s) t" "cpc_ok zs chain (abs s) t pc"
    and "cstep zs S (pc, s) = (pc', s')"
  shows "inv s' \<and> holds_upto zs chain (abs s') t \<and> cpc_ok zs chain (abs s') t pc' \<and>
    dom (batches (abs s)) \<subseteq> dom (batches (abs s'))"
  by (rule cstep_ok [OF x _ _ _ _ assms(4)])
    (use latest_is_tip [OF x(1,2)] holds_uptoD(3) [OF x(2)] in auto)

text \<open>Resuming never goes beyond the block after the tip.\<close>

lemma resume_step_ok:
  assumes x: "inv s" "holds_upto zs chain (abs s) t" "ipc_ok t i"
  shows "ipc_ok t (resume_step S i s)"
proof -
  have nxt: "ipc_ok t (IRunning (n + 1))" if "unat n \<le> t" for n :: u64
  proof -
    have "unat n \<le> last_batched" using that holds_uptoD(3) [OF x(2)] by linarith
    then have "unat (n + 1) = unat n + 1" using unat_add_u64 [of n 1] by simp
    with that show ?thesis by (simp add: ipc_ok_def)
  qed
  show ?thesis
  proof (cases i)
    case IStopped
    then show ?thesis
      using LatestBlock_sound [OF x(1)] holds_upto_block(2) [OF x(2) chain] nxt
      by (auto simp: ipc_ok_def split: option.split)
  next
    case IAskBatch
    have "unat e \<le> t" if "LatestBatch S s = Some e" for e
      using LatestBatch_sound [OF x(1) that] holds_upto_batch(3,4) [OF x(2) chain] by fastforce
    with IAskBatch nxt show ?thesis by (auto simp: ipc_ok_def split: option.split)
  next
    case IAskMeta
    have "unat (GetMeta S s) \<le> t" using GetMeta_sound [OF x(1)] holds_uptoD(6) [OF x(2)] by auto
    then show ?thesis using IAskMeta nxt by (simp add: Let_def ipc_ok_def)
  qed (use x(3) in simp)
qed

lemma receive_ok:
  assumes x: "inv s" "holds_upto zs chain (abs s) t" "ipc_ok t (IRunning cur)" "unat l \<le> t"
    and nb: "genuine chain num marshal nb"
    and step: "ingest_block S num marshal [] nb cur (s, l) = (r, s', l')"
  obtains t' where "log_step (t, unat l) (t', unat l')" "inv s'" "holds_upto zs chain (abs s') t'" "unat l' \<le> t'"
    "ipc_ok t' (case r of Inl err \<Rightarrow> IStopped | Inr nxt \<Rightarrow> IRunning nxt)"
    "batches (abs s') = batches (abs s)"
  using step
proof (cases rule: ingest_block_cases)
  case (refused err)
  then show ?thesis using that [of t] x log_step_quiet by (simp add: ipc_ok_def)
next
  case (saved d w)
  have d: "d = chain cur" "unat cur \<le> last_batched"
    using nb saved(1,2) by (simp_all add: genuine_def)
  have cur: "1 \<le> unat cur" "unat cur \<le> Suc t" using x(3) by (simp_all add: ipc_ok_def)
  note law = SaveBlock_law [OF x(1) saved(3)]
  note new = holds_upto_put_block [OF x(2) chain cur d(2)]
  have suc: "unat (cur + 1) = unat cur + 1" using d(2) unat_add_u64 [of cur 1] by simp
  consider (written) "abs s' = put_block cur (chain cur) (abs s)" | (failed) err where "w = Some err" "abs s' = abs s"
    using law d(1) by (auto simp: write_outcome_def)
  then show ?thesis
  proof cases
    case written
    have l': "unat l' \<in> {unat l, max (unat l) (unat cur)}"
      using saved(5) by (auto simp: UpdateLatestBlock_def u64_simps split: option.splits)
    have "log_step (t, unat l) (max t (unat cur), unat l')"
    proof (cases "unat cur \<le> t")
      case True
      then show ?thesis using l' x(4) by (auto intro!: log_step.announce)
    next
      case False
      then have "unat cur = Suc t" using cur by simp
      then show ?thesis using l' x(4) by (auto intro!: log_step.store)
    qed
    moreover have "unat l' \<le> max t (unat cur)" using l' x(4) by auto
    ultimately show ?thesis
      using written law new saved(4) suc cur that [of "max t (unat cur)"]
      by (auto simp: ipc_ok_def split: option.splits)
  next
    case failed
    then show ?thesis using law saved(4,5) x that [of t] log_step_quiet by (simp add: ipc_ok_def)
  qed
qed

lemma sys_step_ok:
  assumes "sys_step zs S chain num marshal x y" "sys_ok x t"
  shows "\<exists>t'. log_step (t, unat (the_latest x)) (t', unat (the_latest y)) \<and> sys_ok y t' \<and>
    dom (batches (abs (the_store x))) \<subseteq> dom (batches (abs (the_store y)))"
  using assms(1)
proof cases
  case (compact pc s)
  with assms(2) compact_ok [of "the_store x" t "the_compactor x" pc s] show ?thesis
    by (auto simp: sys_ok_def intro!: log_step_quiet exI [of _ t])
next
  case (compact_again b)
  with assms(2) show ?thesis by (auto simp: sys_ok_def cpc_ok_def intro!: log_step_quiet exI [of _ t])
next
  case resume
  with assms(2) resume_step_ok [of "the_store x" t "the_ingestion x"] show ?thesis
    by (auto simp: sys_ok_def intro!: log_step_quiet exI [of _ t])
next
  case (receive cur nb r s l)
  have x: "inv (the_store x)" "holds_upto zs chain (abs (the_store x)) t" "ipc_ok t (IRunning cur)"
    "unat (the_latest x) \<le> t" "cpc_ok zs chain (abs (the_store x)) t (the_compactor x)"
    using assms(2) receive(2) by (simp_all add: sys_ok_def)
  obtain t' where t': "log_step (t, unat (the_latest x)) (t', unat l)" "inv s" "holds_upto zs chain (abs s) t'"
    "unat l \<le> t'" "ipc_ok t' (case r of Inl err \<Rightarrow> IStopped | Inr nxt \<Rightarrow> IRunning nxt)"
    "batches (abs s) = batches (abs (the_store x))"
    by (rule receive_ok [OF x(1-4) receive(3,4)])
  moreover have "cpc_ok zs chain (abs s) t' (the_compactor x)"
    using x(5) log_step_grows [OF t'(1)] t'(6) by (intro cpc_ok_mono [OF x(5)]) auto
  ultimately show ?thesis using receive(1) by (auto simp: sys_ok_def intro!: exI [of _ t'])
next
  case stream_end
  with assms(2) show ?thesis by (auto simp: sys_ok_def ipc_ok_def intro!: log_step_quiet exI [of _ t])
next
  case crash
  with assms(2) show ?thesis
    by (auto simp: sys_ok_def ipc_ok_def cpc_ok_def intro!: log_step.restart exI [of _ t])
qed

text \<open>Each step of the service is a step of the log it stands for.\<close>

lemma sys_ok_log:
  assumes "sys_ok x t"
  shows "log_of zs abs x = (t, unat (the_latest x))"
proof -
  have h: "holds_upto zs chain (abs (the_store x)) t" using assms by (simp add: sys_ok_def)
  have "card (dom (view zs (abs (the_store x)))) = t"
    unfolding holds_uptoD(2) [OF h] by (rule card_upto [OF holds_uptoD(3) [OF h]])
  then show ?thesis by (simp add: log_of_def)
qed

lemma sys_step_log:
  assumes "sys_step zs S chain num marshal x y" "sys_ok x t"
  shows "log_step (log_of zs abs x) (log_of zs abs y)"
  using sys_step_ok [OF assms] sys_ok_log assms(2) by auto

lemma runs_ok:
  assumes "runs_to zs S chain num marshal x y" "sys_ok x t"
  shows "\<exists>t' \<ge> t. sys_ok y t' \<and> dom (batches (abs (the_store x))) \<subseteq> dom (batches (abs (the_store y)))"
  using assms
proof (induction rule: rtranclp_induct)
  case base
  then show ?case by blast
next
  case (step y z)
  then obtain t1 where "t \<le> t1" "sys_ok y t1"
    "dom (batches (abs (the_store x))) \<subseteq> dom (batches (abs (the_store y)))" by blast
  moreover from this obtain t2 where "t1 \<le> t2" "sys_ok z t2"
    "dom (batches (abs (the_store y))) \<subseteq> dom (batches (abs (the_store z)))"
    using sys_step_ok [OF step.hyps(2), of t1] log_step_grows [of "(t1, _)" "(_, _)"] by (metis fst_conv)
  ultimately show ?case by (meson order_trans)
qed

lemma sys_ok_facts:
  assumes "sys_ok x t"
  shows "inv (the_store x)" "holds_upto zs chain (abs (the_store x)) t"
    "view zs (abs (the_store x)) n = (if 1 \<le> unat n \<and> unat n \<le> t then Some (chain n) else None)"
    "the_ingestion x = IRunning c \<Longrightarrow> 1 \<le> unat c \<and> unat c \<le> Suc t" "unat (the_latest x) \<le> t"
proof -
  show h: "holds_upto zs chain (abs (the_store x)) t" using assms by (simp add: sys_ok_def)
  show "view zs (abs (the_store x)) n = (if 1 \<le> unat n \<and> unat n \<le> t then Some (chain n) else None)"
    by (rule holds_upto_view [OF h])
qed (use assms in \<open>simp_all add: sys_ok_def ipc_ok_def\<close>)

lemma runs_view_mono:
  assumes "runs_to zs S chain num marshal x y" "sys_ok x t"
  shows "view zs (abs (the_store x)) \<subseteq>\<^sub>m view zs (abs (the_store y))"
proof -
  obtain t' where "t \<le> t'" "sys_ok y t'" using runs_ok [OF assms] by blast
  then show ?thesis by (auto simp: map_le_def sys_ok_facts(3) [OF assms(2)] sys_ok_facts(3) split: if_splits)
qed

lemma boot_ok: "inv s \<Longrightarrow> holds_upto zs chain (abs s) t \<Longrightarrow> sys_ok (boot s) t"
  by (simp add: boot_def sys_ok_def cpc_ok_def ipc_ok_def)

end


subsection \<open>Readers of the running service\<close>

sublocale pipeline \<subseteq> serve: serving S abs inv zs written chain
  by unfold_locales (rule chain)

context pipeline
begin

lemma sys_ok_good: "sys_ok x t \<Longrightarrow> serve.good (the_store x)"
  by (simp add: sys_ok_def serve.good_def holds_upto_def)

text \<open>A connection whose loop sees states of the running service carries the chain.\<close>

lemma stream_carries:
  assumes "sys_ok x t" "cur \<noteq> 0"
    and "\<forall>k \<in> set ts. \<exists>y1 y2. runs_to zs S chain num marshal x y1 \<and> at_block k = the_store y1 \<and>
      runs_to zs S chain num marshal x y2 \<and> at_batch k = the_store y2"
    and "streamBlocks zs S ts cur = (fs, pos, r)"
  shows "carries zs chain cur fs pos"
proof (rule serve.streamBlocks_carries [OF _ assms(2,4)])
  have "serve.good (the_store y)" if "runs_to zs S chain num marshal x y" for y
    using runs_ok [OF that assms(1)] sys_ok_good by blast
  then show "\<forall>t \<in> set ts. serve.good (at_block t) \<and> serve.good (at_batch t)"
    using assms(3) by metis
qed

end

subsection \<open>No failures: ingestion resumes exactly after the tip\<close>

locale healthy_pipeline = pipeline S abs inv zs written chain num marshal +
    healthy_store S abs inv "\<lambda>_. True"
  for S :: "'s Storage" and abs :: "'s \<Rightarrow> absstore" and inv :: "'s \<Rightarrow> bool"
    and zs :: "'w zstd" and written :: "'w \<Rightarrow> bytes"
    and chain :: "u64 \<Rightarrow> bytes" and num :: "'nb \<Rightarrow> string" and marshal :: "'nb \<Rightarrow> bytes result"

sublocale healthy_pipeline \<subseteq> serve: healthy_serving S abs inv "\<lambda>_. True" zs written chain
  by unfold_locales

context healthy_pipeline
begin

lemma resume_exact:
  assumes "inv s" "holds_upto zs chain (abs s) t"
  shows "resume_block S s s s = of_nat t + 1"
proof (cases "t = 0")
  case True
  have "LatestBlock S s = None"
    using LatestBlock_sound [OF assms(1)] holds_upto_block [OF assms(2) chain] True
    by (cases "LatestBlock S s") force+
  moreover have "LatestBatch S s = None"
    using LatestBatch_sound [OF assms(1)] holds_upto_batch(3) [OF assms(2) chain] True
    by (cases "LatestBatch S s") force+
  moreover have "GetMeta S s = 0"
    using GetMeta_complete [OF assms(1)] holds_uptoD(6) [OF assms(2)] True by (simp add: u64_eq_iff)
  ultimately show ?thesis using True by (simp add: resume_block_def)
next
  case False
  then have tip: "of_nat t \<in> dom (blocks (abs s))" using holds_uptoD(4) [OF assms(2)] by simp
  have t: "unat (of_nat t :: u64) = t"
    using holds_uptoD(3) [OF assms(2)] by (intro unat_of_nat_u64) linarith
  then have "(of_nat t :: u64) \<noteq> 0" using False by auto
  then obtain l where l: "LatestBlock S s = Some l" using LatestBlock_complete [OF assms(1) _ tip] by auto
  note L = LatestBlock_sound [OF assms(1) l]
  then have "unat l \<le> t" using holds_upto_block(2) [OF assms(2) chain] by blast
  moreover have "of_nat t \<le> l" using L tip by blast
  ultimately have "l = of_nat t" using t by (simp add: u64_eq_iff u64_le_iff)
  then show ?thesis by (simp add: resume_block_def l)
qed

text \<open>
  A block the service has ingested is sent to whoever asks, also while it is being moved from
  the individual blocks to a batch: the two lookups may see different states of the store.
\<close>

lemma stored_block_is_sent:
  assumes "sys_ok x t" "runs_to zs S chain num marshal x y" "1 \<le> unat cur" "unat cur \<le> t"
  shows "\<exists>f a k. next_frame zs S (the_store x) (the_store y) cur = Some (f, a + of_nat k) \<and>
    frame_lines zs f = Inr (map chain (u64_range a k)) \<and> a \<le> cur \<and> unat cur < unat a + k \<and>
    (a = cur \<and> k = 1 \<or> a = BatchStart cur \<and> k = 100)"
proof -
  have v: "view zs (abs (the_store x)) cur = Some (chain cur)"
    using holds_upto_view [of zs chain "abs (the_store x)" t cur] assms(1,3,4) by (simp add: sys_ok_def)
  obtain t' where "sys_ok y t'"
    and later: "dom (batches (abs (the_store x))) \<subseteq> dom (batches (abs (the_store y)))"
    using runs_ok [OF assms(2,1)] by blast
  note good = sys_ok_good [OF assms(1)] sys_ok_good [OF this(1)]
  have "cur \<noteq> 0" using assms(3) by auto
  obtain f nxt where f: "next_frame zs S (the_store x) (the_store y) cur = Some (f, nxt)"
    using serve.next_frame_progress [OF good \<open>cur \<noteq> 0\<close> v later] by auto
  from serve.next_frame_sound [OF good \<open>cur \<noteq> 0\<close> f] f show ?thesis by metis
qed

end

end
