(* ===== verification/Service.thy ===== *)
theory Service
  imports Pipeline Client VersionDB "HOL-Library.Sublist"
begin

section \<open>The service as a whole\<close>

text \<open>
  The contracts of the components, put together on the two real stores: the standalone service
  runs compactor, ingestion and server on \<open>PebbleStorage\<close>, the plugin on
  \<open>VersionDBStorage\<close>.  The properties that follow are stated for any database and codec that
  keep their documented laws.
\<close>

subsection \<open>The standalone service\<close>

locale pebble_service = pebble_laws pb content + zstd_laws zs written
  for pb :: "'db pebble" and content :: "'db \<Rightarrow> (bytes \<rightharpoonup> bytes)"
    and zs :: "'w zstd" and written :: "'w \<Rightarrow> bytes" +
  fixes chain :: "u64 \<Rightarrow> bytes" and num :: "'nb \<Rightarrow> string" and marshal :: "'nb \<Rightarrow> bytes result"
  assumes service_chain: "valid_chain chain"

sublocale pebble_service \<subseteq> service: pipeline "PebbleStorage pb" "pebble_abs content" "pebble_inv content"
  zs written chain num marshal
  by unfold_locales (rule service_chain)

sublocale pebble_service \<subseteq> compacting: compaction "PebbleStorage pb" "pebble_abs content" "pebble_inv content"
  zs written
  by unfold_locales

locale healthy_pebble_service = healthy_pebble pb content + healthy_zstd zs written +
    pebble_service pb content zs written chain num marshal
  for pb :: "'db pebble" and content :: "'db \<Rightarrow> (bytes \<rightharpoonup> bytes)"
    and zs :: "'w zstd" and written :: "'w \<Rightarrow> bytes"
    and chain :: "u64 \<Rightarrow> bytes" and num :: "'nb \<Rightarrow> string" and marshal :: "'nb \<Rightarrow> bytes result"

sublocale healthy_pebble_service \<subseteq> service: healthy_pipeline "PebbleStorage pb" "pebble_abs content"
  "pebble_inv content" zs written chain num marshal
  by unfold_locales

sublocale healthy_pebble_service \<subseteq> compacting: healthy_compaction "PebbleStorage pb" "pebble_abs content"
  "pebble_inv content" "\<lambda>_. True" zs written
  by unfold_locales

subsection \<open>The plugin's store\<close>

locale vdb_service = avadb_laws av content deletes + zstd_laws zs written
  for av :: "('db, 'batch) avadb" and content :: "'db \<Rightarrow> (bytes \<rightharpoonup> bytes)" and deletes :: "'batch \<Rightarrow> bytes list"
    and zs :: "'w zstd" and written :: "'w \<Rightarrow> bytes"

sublocale vdb_service \<subseteq> compacting: compaction "VersionDBStorage av" "vdb_abs content" "vdb_inv content"
  zs written
  by unfold_locales

locale healthy_vdb_service = healthy_avadb av content deletes + healthy_zstd zs written
  for av :: "('db, 'batch) avadb" and content :: "'db \<Rightarrow> (bytes \<rightharpoonup> bytes)" and deletes :: "'batch \<Rightarrow> bytes list"
    and zs :: "'w zstd" and written :: "'w \<Rightarrow> bytes"

sublocale healthy_vdb_service \<subseteq> compacting: healthy_compaction "VersionDBStorage av" "vdb_abs content"
  "vdb_inv content" "cache_right content" zs written
  by unfold_locales

subsection \<open>On the in-memory databases\<close>

text \<open>
  A chain whose block \<open>n\<close> is the line \<open>0x...\<close> with its own number, decoded and encoded by the
  identity: enough to run the whole model.
\<close>

definition demo_chain :: "u64 \<Rightarrow> bytes" where
  "demo_chain n = ''0x'' @ hex (unat n)"

lemma demo_chain_valid: "valid_chain demo_chain"
proof -
  have "newline \<notin> set (hex (unat n))" for n :: u64
    using show_base_printable [of 16 newline "unat n"] by auto
  then show ?thesis by (simp add: valid_chain_def valid_line_def demo_chain_def)
qed

lemma demo_chain_decodes: "decodes Inr (\<lambda>nb. nb) demo_chain demo_chain"
  unfolding decodes_def demo_chain_def using parseHex_hex by blast

lemma demo_chain_genuine: "genuine demo_chain (\<lambda>nb. nb) Inr (demo_chain n) \<longleftrightarrow> unat n \<le> last_batched"
  unfolding genuine_def demo_chain_def parseBlockNumber_hex by simp

interpretation demo: healthy_pebble_service mem_pebble map_of stored_codec "\<lambda>w. w" demo_chain "\<lambda>nb. nb" Inr
  by unfold_locales (rule demo_chain_valid)

interpretation demo_vdb: healthy_vdb_service mem_avadb map_of "\<lambda>b. b" stored_codec "\<lambda>w. w"
  by unfold_locales

interpretation demo_vdb_laws: vdb_service mem_avadb map_of "\<lambda>b. b" stored_codec "\<lambda>w. w"
  by unfold_locales


text \<open>A database with the blocks \<open>1, \<dots>, k\<close> of a chain, for concrete runs.\<close>

definition chain_db :: "(u64 \<Rightarrow> bytes) \<Rightarrow> nat \<Rightarrow> memdb" where
  "chain_db chain k = map (\<lambda>n. (blockKey n, chain n)) (u64_range 1 k)"

abbreviation demo_db :: "nat \<Rightarrow> memdb" where "demo_db \<equiv> chain_db demo_chain"

lemma map_of_blocks:
  "map_of (map (\<lambda>n. (blockKey n, f n)) ns) key =
     (if key \<in> blockKey ` set ns then Some (f (the (parseBlockKey key))) else None)"
  by (induction ns) auto

lemma chain_db_content:
  assumes "k \<le> last_batched"
  shows "kv_abs (map_of (chain_db chain k)) =
    \<lparr>blocks = (\<lambda>n. if 1 \<le> unat n \<and> unat n \<le> k then Some (chain n) else None),
     batches = Map.empty, meta = 0\<rparr>"
proof -
  have "set (u64_range 1 k) = {n. 1 \<le> unat n \<and> unat n \<le> k}"
    using assms set_u64_range [of 1 k] by (auto simp: less_Suc_eq_le)
  then show ?thesis
    by (auto simp: kv_abs_def chain_db_def map_of_blocks decode_meta_def fun_eq_iff image_iff)
qed

lemma demo_db_keyed: "well_keyed (map_of (chain_db chain k))"
  by (auto simp: well_keyed_def chain_db_def dom_map_of_conv_image_fst)

lemma chain_db_holds:
  assumes "valid_chain chain" "k \<le> last_batched"
  shows "holds_upto stored_codec chain (kv_abs (map_of (chain_db chain k))) k"
proof -
  let ?a = "kv_abs (map_of (chain_db chain k))"
  have sound: "sound_store stored_codec chain ?a"
    using assms by (auto simp: chain_db_content sound_store_def split: if_splits)
  have v: "view stored_codec ?a n \<noteq> None \<longleftrightarrow> 1 \<le> unat n \<and> unat n \<le> k" for n
    unfolding view_sound_dom [OF assms(1) sound] by (simp add: chain_db_content [OF assms(2)])
  have "unat (of_nat k :: u64) = k" using assms by (intro unat_of_nat_u64) linarith
  then have "k = 0 \<or> of_nat k \<in> dom (blocks ?a)" by (auto simp: chain_db_content [OF assms(2)])
  with sound v assms show ?thesis
    unfolding holds_upto_def by (auto simp: chain_db_content [OF assms(2)])
qed

lemmas demo_db_holds = chain_db_holds [OF demo_chain_valid]

lemma demo_db_contiguous:
  assumes "1 \<le> k" "k \<le> last_batched"
  shows "contiguous (kv_abs (map_of (demo_db k))) 1 (of_nat k)" "aligned 1"
    "sound_blocks (kv_abs (map_of (demo_db k)))" "unat (of_nat k :: u64) = k"
proof -
  show u: "unat (of_nat k :: u64) = k" using assms by (intro unat_of_nat_u64) linarith
  show "contiguous (kv_abs (map_of (demo_db k))) 1 (of_nat k)"
    using assms by (auto simp: contiguous_def chain_db_content u64_le_iff u split: if_splits)
  show "aligned 1" by (simp add: aligned_def)
  show "sound_blocks (kv_abs (map_of (demo_db k)))"
    using sound_store_sound_blocks [OF demo_chain_valid] demo_db_holds [OF assms(2)]
    by (auto simp: holds_upto_def)
qed

subsection \<open>Connections to the running service\<close>

text \<open>
  Every connection of a client is served by the service: what it receives, as far as it reads,
  is what \<open>streamBlocks\<close> sends from the requested block on, each lookup seeing the store in one
  of the states \<open>reach\<close> that it can be in.
\<close>

definition served_by :: "'w zstd \<Rightarrow> 's Storage \<Rightarrow> ('s \<Rightarrow> bool) \<Rightarrow> session \<Rightarrow> bool" where
  "served_by zs S reach s \<longleftrightarrow>
     (\<forall>c. c \<noteq> 0 \<longrightarrow> (\<exists>ts. prefix (received (readings s c)) (fst (streamBlocks zs S ts c)) \<and>
        (\<forall>k \<in> set ts. reach (at_block k) \<and> reach (at_batch k))))"

definition served ::
  "'w zstd \<Rightarrow> 's Storage \<Rightarrow> (u64 \<Rightarrow> bytes) \<Rightarrow> ('nb \<Rightarrow> string) \<Rightarrow> ('nb \<Rightarrow> bytes result) \<Rightarrow> 's sys \<Rightarrow>
    session \<Rightarrow> bool" where
  "served zs S chain num marshal x =
     served_by zs S (\<lambda>s. \<exists>y. runs_to zs S chain num marshal x y \<and> s = the_store y)"

context serving
begin

lemma served_by_carries:
  assumes "\<And>s. reach s \<Longrightarrow> good s" "served_by zs S reach s" "c \<noteq> 0"
  shows "\<exists>nxt. carries zs chain c (received (readings s c)) nxt"
proof -
  obtain ts where ts: "prefix (received (readings s c)) (fst (streamBlocks zs S ts c))"
    "\<forall>k \<in> set ts. reach (at_block k) \<and> reach (at_batch k)"
    using assms(2,3) by (auto simp: served_by_def)
  obtain fs pos r where st: "streamBlocks zs S ts c = (fs, pos, r)" by (metis prod.exhaust)
  have "\<forall>k \<in> set ts. good (at_block k) \<and> good (at_batch k)" using ts(2) assms(1) by blast
  from streamBlocks_carries [OF this assms(3) st] have "carries zs chain c fs pos" .
  moreover obtain hs where "fs = received (readings s c) @ hs" using ts(1) st by (auto simp: prefix_def)
  ultimately show ?thesis by (rule carries_prefix)
qed

end

context pipeline
begin

lemma served_carries:
  assumes "sys_ok x t" "served zs S chain num marshal x s" "c \<noteq> 0"
  shows "\<exists>nxt. carries zs chain c (received (readings s c)) nxt"
  using runs_ok [OF _ assms(1)] sys_ok_good
  by (intro serve.served_by_carries [OF _ assms(2) [unfolded served_def] assms(3)]) blast

end

subsection \<open>The properties of the standalone service\<close>

lemma pebble_serviceI:
  assumes "pebble_laws pb content" "zstd_laws zs written" "valid_chain chain"
  shows "pebble_service pb content zs written chain"
  using assms by (simp add: pebble_service_def pebble_service_axioms_def)

context pebble_service
begin

lemma is_pipeline:
  "pipeline (PebbleStorage pb) (\<lambda>db. kv_abs (content db)) (\<lambda>db. well_keyed (content db)) zs written chain"
  by (rule service.pipeline_axioms)

end

lemmas pebble_pipelineI = pebble_service.is_pipeline [OF pebble_serviceI]

text \<open>A client of the running standalone service (Pebble, compactor, ingestion loop, server, with
  failures, restarts and reconnections anywhere) is handed exactly the consecutive blocks from the
  one it asked for: none missing, none twice, none wrong.\<close>

lemma client_is_served:
  assumes "pebble_laws pb content" "zstd_laws zs written" "valid_chain chain"
    and "decodes unm number chain nb_of"
    and "well_keyed (content db)" "holds_upto zs chain (kv_abs (content db)) t"
    and "\<forall>s \<in> set ss. served zs (PebbleStorage pb) chain num marshal (boot db) s" "first \<noteq> 0"
    and "Stream zs unm number reconnect first ss = (packs, pos, e)"
  shows "\<exists>k. concat packs = map (block_of nb_of) (u64_range first k) \<and>
    ((\<forall>err. e \<noteq> Returned err) \<longrightarrow> pos = first + of_nat k)"
proof -
  note pipe = pebble_pipelineI [OF assms(1-3)]
  have ok: "pipeline.sys_ok (\<lambda>db. kv_abs (content db)) (\<lambda>db. well_keyed (content db)) zs chain (boot db) t"
    by (rule pipeline.boot_ok [OF pipe assms(5,6)])
  have "consecutive nb_of first packs pos e"
    using Stream_consecutive [OF assms(4,3,8) _ assms(9)] pipeline.served_carries [OF pipe ok] assms(7)
    by blast
  then show ?thesis unfolding consecutive_def by blast
qed

definition chain_session :: "(u64 \<Rightarrow> bytes) \<Rightarrow> session" where
  "chain_session chain = \<lparr>dial_done = False, dial = None, readings = (\<lambda>c. map
     (\<lambda>f. \<lparr>read_done = False, message = Inr f, handled = None\<rparr>)
     (fst (streamBlocks stored_codec (PebbleStorage mem_pebble)
       (replicate 3 \<lparr>tick_done = False, at_block = chain_db chain 3, at_batch = chain_db chain 3,
          write_result = None\<rparr>) c)))\<rparr>"

abbreviation demo_session :: session where "demo_session \<equiv> chain_session demo_chain"

lemma received_all: "received (map (\<lambda>f. \<lparr>read_done = False, message = Inr f, handled = None\<rparr>) fs) = fs"
  by (induction fs) (simp_all add: received_def)

lemma chain_session_served:
  "served stored_codec (PebbleStorage mem_pebble) chain num marshal (boot (chain_db chain 3)) (chain_session chain)"
proof -
  let ?t = "\<lparr>tick_done = False, at_block = chain_db chain 3, at_batch = chain_db chain 3, write_result = None\<rparr>"
  have "the_store (boot (chain_db chain 3)) = chain_db chain 3" by (simp add: boot_def)
  then show ?thesis unfolding served_def served_by_def
    by (intro allI impI exI [of _ "replicate 3 ?t"])
      (auto simp: chain_session_def received_all intro!: exI [of _ "boot (chain_db chain 3)"])
qed

lemmas demo_session_served = chain_session_served [of demo_chain "\<lambda>nb. nb" Inr]

text \<open>C2: In every state the standalone service can reach, whatever operations failed and however
  often it was restarted, a reader finds exactly the blocks \<open>1, \<dots>, t\<close> of the chain for some tip
  \<open>t\<close> not below the one it started with; ingestion never runs ahead of the tip and the server
  never announces a block that cannot be read.\<close>

theorem service_keeps_chain:
  assumes "pebble_laws pb content" "zstd_laws zs written" "valid_chain chain"
    and "well_keyed (content db)" "holds_upto zs chain (kv_abs (content db)) t"
    and "runs_to zs (PebbleStorage pb) chain num marshal (boot db) y"
  shows "\<exists>t' \<ge> t. (\<forall>n. view zs (kv_abs (content (the_store y))) n =
      (if 1 \<le> unat n \<and> unat n \<le> t' then Some (chain n) else None)) \<and>
    (\<forall>c. the_ingestion y = IRunning c \<longrightarrow> 1 \<le> unat c \<and> unat c \<le> Suc t') \<and> unat (the_latest y) \<le> t'"
proof -
  note pipe = pebble_pipelineI [OF assms(1-3)]
  obtain t' where "t \<le> t'" and ok:
    "pipeline.sys_ok (\<lambda>db. kv_abs (content db)) (\<lambda>db. well_keyed (content db)) zs chain y t'"
    using pipeline.runs_ok [OF pipe assms(6) pipeline.boot_ok [OF pipe assms(4,5)]] by blast
  with pipeline.sys_ok_facts [OF pipe ok] show ?thesis by (intro exI [of _ t']) simp
qed

definition demo_next :: "memdb sys" where
  "demo_next = (boot (demo_db 3))\<lparr>the_ingestion := resume_step (PebbleStorage mem_pebble) IStopped (demo_db 3)\<rparr>"

lemma demo_step:
  "sys_step stored_codec (PebbleStorage mem_pebble) demo_chain (\<lambda>nb. nb) Inr (boot (demo_db 3)) demo_next"
  using resume [of stored_codec "PebbleStorage mem_pebble" demo_chain "\<lambda>nb. nb" Inr "boot (demo_db 3)"]
  by (simp add: demo_next_def boot_def)

lemmas demo_next_reached = r_into_rtranclp [of "sys_step _ _ _ _ _", OF demo_step]

theorem service_keeps_chain_witness:
  "\<exists>t' \<ge> 3. \<forall>n. view stored_codec (kv_abs (map_of (the_store demo_next))) n =
    (if 1 \<le> unat n \<and> unat n \<le> t' then Some (demo_chain n) else None)"
  using service_keeps_chain [OF mem_pebble.pebble_laws_axioms stored_codec.zstd_laws_axioms demo_chain_valid
      demo_db_keyed demo_db_holds demo_next_reached] by auto

text \<open>C3: The running service refines the specification of a log.  The state of the service stands for the
  log of the blocks a reader finds, which are the first so many blocks of the chain, with the
  announced number as its announced length; each step of the service, whichever operation of it
  fails and also a crash or an access of the compactor, is a step of the log: it appends one block
  at the end, announces a length that is there, or restarts.  So no block is ever lost or changed.\<close>

theorem service_refines_log:
  assumes "pebble_laws pb content" "zstd_laws zs written" "valid_chain chain"
    and "well_keyed (content db)" "holds_upto zs chain (kv_abs (content db)) t"
    and "runs_to zs (PebbleStorage pb) chain num marshal (boot db) x"
    and "sys_step zs (PebbleStorage pb) chain num marshal x y"
  shows "log_step (log_of zs (\<lambda>db. kv_abs (content db)) x) (log_of zs (\<lambda>db. kv_abs (content db)) y) \<and>
    (\<forall>n. view zs (kv_abs (content (the_store x))) n =
      (if 1 \<le> unat n \<and> unat n \<le> fst (log_of zs (\<lambda>db. kv_abs (content db)) x) then Some (chain n) else None)) \<and>
    log_of zs (\<lambda>db. kv_abs (content db)) (boot db) = (t, 0)"
proof -
  note pipe = pebble_pipelineI [OF assms(1-3)]
  note boot = pipeline.boot_ok [OF pipe assms(4,5)]
  obtain t1 where ok: "pipeline.sys_ok (\<lambda>db. kv_abs (content db)) (\<lambda>db. well_keyed (content db)) zs chain x t1"
    using pipeline.runs_ok [OF pipe assms(6) boot] by blast
  show ?thesis
    using pipeline.sys_step_log [OF pipe assms(7) ok] pipeline.sys_ok_facts(3) [OF pipe ok]
      pipeline.sys_ok_log [OF pipe ok] pipeline.sys_ok_log [OF pipe boot] by (simp add: boot_def)
qed

theorem service_refines_log_witness:
  "log_step (log_of stored_codec (\<lambda>db. kv_abs (map_of db)) (boot (demo_db 3)))
    (log_of stored_codec (\<lambda>db. kv_abs (map_of db)) demo_next) \<and>
   log_of stored_codec (\<lambda>db. kv_abs (map_of db)) (boot (demo_db 3)) = (3, 0)"
proof -
  have "(3 :: nat) \<le> last_batched" by simp
  from service_refines_log [OF mem_pebble.pebble_laws_axioms stored_codec.zstd_laws_axioms demo_chain_valid
      demo_db_keyed demo_db_holds [OF this] rtranclp.rtrancl_refl demo_step] show ?thesis by blast
qed

text \<open>Nothing a reader could read is ever lost or changed by a step of the service: not by
  compaction, not by a failed write, not by a crash.\<close>

lemma no_block_is_lost:
  assumes "pebble_laws pb content" "zstd_laws zs written" "valid_chain chain"
    and "well_keyed (content db)" "holds_upto zs chain (kv_abs (content db)) t"
    and "runs_to zs (PebbleStorage pb) chain num marshal (boot db) x"
    and "runs_to zs (PebbleStorage pb) chain num marshal x y"
  shows "view zs (kv_abs (content (the_store x))) \<subseteq>\<^sub>m view zs (kv_abs (content (the_store y)))"
proof -
  note pipe = pebble_pipelineI [OF assms(1-3)]
  obtain t1 where "pipeline.sys_ok (\<lambda>db. kv_abs (content db)) (\<lambda>db. well_keyed (content db)) zs chain x t1"
    using pipeline.runs_ok [OF pipe assms(6) pipeline.boot_ok [OF pipe assms(4,5)]] by blast
  from pipeline.runs_view_mono [OF pipe assms(7) this] show ?thesis .
qed

lemma no_block_is_lost_example:
  "view stored_codec (kv_abs (map_of (the_store (boot (demo_db 3))))) \<subseteq>\<^sub>m
    view stored_codec (kv_abs (map_of (the_store demo_next)))"
  by (rule no_block_is_lost [OF mem_pebble.pebble_laws_axioms stored_codec.zstd_laws_axioms demo_chain_valid
      demo_db_keyed demo_db_holds rtranclp.rtrancl_refl demo_next_reached]) simp

lemma healthy_serviceI:
  assumes "healthy_pebble pb content" "healthy_zstd zs written" "valid_chain chain"
  shows "healthy_pebble_service pb content zs written chain"
  using assms by (simp add: healthy_pebble_service_def pebble_service_def pebble_service_axioms_def
      healthy_pebble.axioms(1) healthy_zstd.axioms(1))

context healthy_pebble_service
begin

lemma is_healthy_pipeline:
  "healthy_pipeline (PebbleStorage pb) (\<lambda>db. kv_abs (content db)) (\<lambda>db. well_keyed (content db)) zs written chain"
  by (rule service.healthy_pipeline_axioms)

lemma is_healthy_compaction:
  "healthy_compaction (PebbleStorage pb) (\<lambda>db. kv_abs (content db)) (\<lambda>db. well_keyed (content db)) (\<lambda>_. True)
     zs written"
  by (rule compacting.healthy_compaction_axioms)

end

lemmas healthy_pipelineI = healthy_pebble_service.is_healthy_pipeline [OF healthy_serviceI]

text \<open>C5: Without failures, a restarted service resumes at exactly the block after the highest one a
  reader can read, in every reachable state.\<close>

theorem resumes_after_tip:
  assumes "healthy_pebble pb content" "healthy_zstd zs written" "valid_chain chain"
    and "well_keyed (content db)" "holds_upto zs chain (kv_abs (content db)) t"
    and "runs_to zs (PebbleStorage pb) chain num marshal (boot db) y"
  shows "\<exists>t'. (\<forall>n. view zs (kv_abs (content (the_store y))) n \<noteq> None \<longleftrightarrow> 1 \<le> unat n \<and> unat n \<le> t') \<and>
    resume_block (PebbleStorage pb) (the_store y) (the_store y) (the_store y) = of_nat t' + 1"
proof -
  note pipe = healthy_pipeline.axioms(1) [OF healthy_pipelineI [OF assms(1-3)]]
  obtain t' where ok: "pipeline.sys_ok (\<lambda>db. kv_abs (content db)) (\<lambda>db. well_keyed (content db)) zs chain y t'"
    using pipeline.runs_ok [OF pipe assms(6) pipeline.boot_ok [OF pipe assms(4,5)]] by blast
  note facts = pipeline.sys_ok_facts [OF pipe ok]
  have "resume_block (PebbleStorage pb) (the_store y) (the_store y) (the_store y) = of_nat t' + 1"
    by (rule healthy_pipeline.resume_exact [OF healthy_pipelineI [OF assms(1-3)] facts(1,2)])
  with facts(3) show ?thesis by (intro exI [of _ t']) simp
qed

theorem resumes_after_tip_witness:
  "\<exists>t'. (\<forall>n. view stored_codec (kv_abs (map_of (the_store demo_next))) n \<noteq> None \<longleftrightarrow> 1 \<le> unat n \<and> unat n \<le> t') \<and>
    resume_block (PebbleStorage mem_pebble) (the_store demo_next) (the_store demo_next) (the_store demo_next) = of_nat t' + 1"
  by (rule resumes_after_tip [OF mem_pebble.healthy_pebble_axioms stored_codec.healthy_zstd_axioms
      demo_chain_valid demo_db_keyed demo_db_holds demo_next_reached]) simp

text \<open>C6: Without failures, a block the service holds is sent to whoever asks for it, even while the
  compactor moves it: the two lookups of the server may see two states of the store.  What is held
  is the block of the chain, and what is sent is a frame that reads back as this block alone, or
  as the 100 blocks of its batch; the position moves on to the block after the last one sent.\<close>

theorem held_block_is_sent:
  assumes "healthy_pebble pb content" "healthy_zstd zs written" "valid_chain chain"
    and "well_keyed (content db)" "holds_upto zs chain (kv_abs (content db)) t"
    and "runs_to zs (PebbleStorage pb) chain num marshal (boot db) x"
    and "runs_to zs (PebbleStorage pb) chain num marshal x y"
    and "view zs (kv_abs (content (the_store x))) n = Some d"
  shows "d = chain n \<and>
    (\<exists>f a k. next_frame zs (PebbleStorage pb) (the_store x) (the_store y) n = Some (f, a + of_nat k) \<and>
      frame_lines zs f = Inr (map chain (u64_range a k)) \<and> a \<le> n \<and> unat n < unat a + k \<and>
      (a = n \<and> k = 1 \<or> a = BatchStart n \<and> k = 100))"
proof -
  note pipe = healthy_pipeline.axioms(1) [OF healthy_pipelineI [OF assms(1-3)]]
  obtain t1 where ok: "pipeline.sys_ok (\<lambda>db. kv_abs (content db)) (\<lambda>db. well_keyed (content db)) zs chain x t1"
    using pipeline.runs_ok [OF pipe assms(6) pipeline.boot_ok [OF pipe assms(4,5)]] by blast
  have "1 \<le> unat n" "unat n \<le> t1"
    using pipeline.sys_ok_facts(3) [OF pipe ok, of n] assms(8) by (auto split: if_splits)
  note sent = healthy_pipeline.stored_block_is_sent [OF healthy_pipelineI [OF assms(1-3)] ok assms(7) this]
  have "d = chain n" using pipeline.sys_ok_facts(3) [OF pipe ok, of n] assms(8) by (auto split: if_splits)
  with sent show ?thesis by simp
qed

theorem held_block_is_sent_witness:
  "\<exists>f a k. next_frame stored_codec (PebbleStorage mem_pebble) (the_store (boot (demo_db 3))) (the_store demo_next) 2 =
      Some (f, a + of_nat k) \<and>
    frame_lines stored_codec f = Inr (map demo_chain (u64_range a k)) \<and> a \<le> 2 \<and> 2 < unat a + k"
proof -
  have held: "view stored_codec (kv_abs (map_of (the_store (boot (demo_db 3))))) 2 = Some (demo_chain 2)"
    using holds_upto_view [OF demo_db_holds [of 3], of 2] by (simp add: boot_def)
  from held_block_is_sent [OF mem_pebble.healthy_pebble_axioms stored_codec.healthy_zstd_axioms
      demo_chain_valid demo_db_keyed demo_db_holds rtranclp.rtrancl_refl demo_next_reached held]
  show ?thesis by auto
qed

subsection \<open>The properties of the compactor on any store\<close>

lemma compactionI: "block_store S absf okf \<Longrightarrow> zstd_laws zs written \<Longrightarrow> compaction S absf okf zs written"
  by (simp add: compaction_def)

lemma healthy_compactionI:
  "healthy_store S absf okf tracked \<Longrightarrow> healthy_zstd zs written \<Longrightarrow> healthy_compaction S absf okf tracked zs written"
  by (simp add: healthy_compaction_def)

text \<open>C4: One compaction pass never changes what a reader can read, whichever read or write of the store
  fails at whichever point, on any store that keeps the contract.\<close>

theorem compaction_keeps_view:
  assumes "block_store S absf okf" "zstd_laws zs written"
    and "okf s" "sound_blocks (absf s)" "compactOneBatch zs S s = (again, s')"
  shows "view zs (absf s') = view zs (absf s) \<and> okf s' \<and> sound_blocks (absf s')"
  using compaction.compactOneBatch_view [OF compactionI [OF assms(1,2)] assms(3-5)] by simp

theorem compaction_keeps_view_witness:
  "\<exists>s'. compactOneBatch stored_codec (PebbleStorage mem_pebble) (demo_db 1200) = (True, s') \<and>
    view stored_codec (kv_abs (map_of s')) = view stored_codec (kv_abs (map_of (demo_db 1200)))"
proof -
  note d = demo_db_contiguous [of 1200]
  obtain s' where s': "compactOneBatch stored_codec (PebbleStorage mem_pebble) (demo_db 1200) = (True, s')"
    using demo.compacting.compactOneBatch_progress [OF demo_db_keyed _ d(3,1,2)] d(4) by auto
  from compaction_keeps_view [OF mem_pebble.refines stored_codec.zstd_laws_axioms demo_db_keyed d(3) this] s'
  show ?thesis by simp
qed

text \<open>A whole run of \<open>compactAll\<close>, stopped by its context at any point, keeps what a reader can
  read.\<close>

lemma compactAll_keeps_view:
  assumes "block_store S absf okf" "zstd_laws zs written"
    and "okf s" "sound_blocks (absf s)" "compactAll zs S ctx_done k s = Some s'"
  shows "view zs (absf s') = view zs (absf s)"
proof -
  let ?I = "\<lambda>x. okf x \<and> sound_blocks (absf x) \<and> view zs (absf x) = view zs (absf s)"
  have "?I x'" if "?I x" "compactOneBatch zs S x = (again, x')" for x again x'
    using compaction.compactOneBatch_view [OF compactionI [OF assms(1,2)] _ _ that(2)] that(1) by simp
  moreover have "?I s" using assms(3,4) by simp
  ultimately have "?I s'" using compactAll_invariant [where I = ?I, OF _ assms(5)] by blast
  then show ?thesis by simp
qed

text \<open>C30: With at least 1100 consecutive blocks from a batch start on, one pass on a healthy store moves
  exactly the first 100 blocks: the batch reads back as these blocks in their order, they are no
  longer stored one by one, the meta record names the last of them, and nothing else changes.\<close>

theorem compaction_moves_first_batch:
  assumes "healthy_store S absf okf tracked" "healthy_zstd zs written"
    and "okf s" "tracked s" "sound_blocks (absf s)" "contiguous (absf s) lo hi" "aligned lo"
    and "1099 \<le> unat hi - unat lo"
  shows "\<exists>s' z. compactOneBatch zs S s = (True, s') \<and> okf s' \<and> tracked s' \<and>
    frame_lines zs z = Inr (map (\<lambda>n. the (blocks (absf s) n)) (u64_range lo 100)) \<and>
    absf s' = drop_blocks lo (lo + 99) (put_meta (lo + 99) (put_batch lo (lo + 99) z (absf s)))"
  by (rule healthy_compaction.compactOneBatch_progress [OF healthy_compactionI [OF assms(1,2)] assms(3-8)])

theorem compaction_moves_first_batch_witness:
  "\<exists>s' z. compactOneBatch stored_codec (PebbleStorage mem_pebble) (demo_db 1200) = (True, s') \<and>
    frame_lines stored_codec z =
      Inr (map (\<lambda>n. the (blocks (kv_abs (map_of (demo_db 1200))) n)) (u64_range 1 100)) \<and>
    kv_abs (map_of s') = drop_blocks 1 100 (put_meta 100 (put_batch 1 100 z (kv_abs (map_of (demo_db 1200)))))"
proof -
  note d = demo_db_contiguous [of 1200]
  have "1099 \<le> unat (of_nat 1200 :: u64) - unat (1 :: u64)" using d(4) by simp
  from compaction_moves_first_batch [OF mem_pebble.refines_healthy stored_codec.healthy_zstd_axioms demo_db_keyed _
      d(3,1,2) this]
  show ?thesis by auto
qed

text \<open>C20: On a healthy store whose individual blocks are consecutive from a batch start on, \<open>compactAll\<close>
  terminates, and leaves between 1000 and 1099 of them (or all, if there were fewer than 1100).\<close>

theorem compactAll_terminates:
  assumes "healthy_store S absf okf tracked" "healthy_zstd zs written"
    and "okf s" "tracked s" "sound_blocks (absf s)" "contiguous (absf s) lo hi" "aligned lo"
  shows "\<exists>s' lo'. compactAll zs S (\<lambda>_. False) k s = Some s' \<and>
    okf s' \<and> tracked s' \<and> sound_blocks (absf s') \<and> contiguous (absf s') lo' hi \<and> aligned lo' \<and>
    unat hi - unat lo' + 1 < 1100 \<and> (lo' = lo \<or> 1000 \<le> unat hi - unat lo' + 1)"
  by (rule healthy_compaction.compactAll_total [OF healthy_compactionI [OF assms(1,2)] assms(3-7)])

theorem compactAll_terminates_witness:
  "\<exists>s' lo'. compactAll stored_codec (PebbleStorage mem_pebble) (\<lambda>_. False) 0 (demo_db 1200) = Some s' \<and>
    contiguous (kv_abs (map_of s')) lo' (of_nat 1200) \<and> 1000 \<le> unat (of_nat 1200 :: u64) - unat lo' + 1"
proof -
  note d = demo_db_contiguous [of 1200]
  from compactAll_terminates [OF mem_pebble.refines_healthy stored_codec.healthy_zstd_axioms demo_db_keyed _ d(3,1,2),
      where k = 0]
  obtain s' lo' where "compactAll stored_codec (PebbleStorage mem_pebble) (\<lambda>_. False) 0 (demo_db 1200) = Some s'"
    "contiguous (kv_abs (map_of s')) lo' (of_nat 1200)" "unat (of_nat 1200 :: u64) - unat lo' + 1 < 1100"
    "lo' = 1 \<or> 1000 \<le> unat (of_nat 1200 :: u64) - unat lo' + 1" by auto
  with d(4) show ?thesis by (intro exI [of _ s'] exI [of _ lo']) auto
qed

text \<open>A store whose first individual block is not a batch start is never compacted: the batch would
  need blocks that are not there.\<close>

lemma compaction_needs_alignment:
  assumes "block_store S absf okf" "okf s" "FirstBlock S s = Some f" "f \<noteq> 0" "BatchStart f \<noteq> f"
  shows "compactOneBatch zs S s = (False, s)"
proof -
  have "BatchStart f \<le> f" using BatchStart_le [OF assms(4)] by (simp add: u64_le_iff)
  then have "\<not> f \<le> BatchStart f" using assms(5) by auto
  then have "blocks (absf s) (BatchStart f) = None"
    using block_store.FirstBlock_sound [OF assms(1-3)] by blast
  then obtain e where "GetBlock S s (BatchStart f) = Inl e"
    using block_store.GetBlock_absent [OF assms(1,2)] by blast
  then have "read_blocks S s (u64_range (BatchStart f) 100) = None"
    using u64_range_Suc [of "BatchStart f" 99] by simp
  moreover have "pick_batch S s \<in> {None, Some (BatchStart f)}"
    using assms(3) by (auto simp: pick_batch_def pick_range_def Let_def split: option.split)
  ultimately show ?thesis by (auto simp: compactOneBatch_def Let_def)
qed

lemma compaction_needs_alignment_example:
  "compactOneBatch stored_codec (PebbleStorage mem_pebble) [(blockKey 7, ''b7'')] =
    (False, [(blockKey 7, ''b7'')])"
proof (rule compaction_needs_alignment [OF mem_pebble.refines, where f = 7])
  show "FirstBlock (PebbleStorage mem_pebble) [(blockKey 7, ''b7'')] = Some 7"
    by (simp add: Pebble_FirstBlock_def mem_pebble_def mem_keys_def flip: block_range_def)
  show "BatchStart 7 \<noteq> 7" by (simp add: u64_eq_iff unat_BatchStart)
qed simp_all

subsection \<open>The properties of the server, the client and the ingestion loop\<close>

text \<open>Over states of the store that may differ at every lookup but are all sound, the frames of one
  connection carry the chain: each frame holds consecutive blocks, starts at or below the position
  and ends just below the next one.\<close>

lemma stream_carries_chain:
  assumes "block_store S absf okf" "zstd_laws zs written" "valid_chain chain" "cur \<noteq> 0"
    and "\<forall>t \<in> set ts. okf (at_block t) \<and> sound_store zs chain (absf (at_block t)) \<and>
      okf (at_batch t) \<and> sound_store zs chain (absf (at_batch t))"
    and "streamBlocks zs S ts cur = (fs, pos, r)"
  shows "carries zs chain cur fs pos"
proof -
  have serve: "serving S absf okf zs written chain"
    using assms(1-3) by (simp add: serving_def serving_axioms_def)
  show ?thesis
    using serving.streamBlocks_carries [OF serve _ assms(4,6)] assms(5) by (simp add: serving.good_def [OF serve])
qed

lemma stream_carries_chain_example:
  "\<exists>fs pos r. streamBlocks stored_codec (PebbleStorage mem_pebble)
      [\<lparr>tick_done = False, at_block = demo_db 3, at_batch = demo_db 2, write_result = None\<rparr>] 3 = (fs, pos, r) \<and>
    carries stored_codec demo_chain 3 fs pos"
proof -
  let ?ts = "[\<lparr>tick_done = False, at_block = demo_db 3, at_batch = demo_db 2, write_result = None\<rparr>]"
  obtain fs pos r where st: "streamBlocks stored_codec (PebbleStorage mem_pebble) ?ts 3 = (fs, pos, r)"
    by (metis prod.exhaust)
  have "\<forall>t \<in> set ?ts. well_keyed (map_of (at_block t)) \<and>
      sound_store stored_codec demo_chain (kv_abs (map_of (at_block t))) \<and>
      well_keyed (map_of (at_batch t)) \<and> sound_store stored_codec demo_chain (kv_abs (map_of (at_batch t)))"
    using holds_uptoD(1) [OF demo_db_holds] demo_db_keyed by simp
  from stream_carries_chain [OF mem_pebble.refines stored_codec.zstd_laws_axioms demo_chain_valid _ this st]
  have "carries stored_codec demo_chain 3 fs pos" by simp
  with st show ?thesis by blast
qed

text \<open>On connections that carry the chain from the block they were opened for, the client hands its
  handler consecutive blocks over any number of failing dials, broken reads and reconnections, and
  goes on from exactly the next one.\<close>

lemma client_delivers_consecutively:
  assumes "decodes unm number chain nb_of" "valid_chain chain" "first \<noteq> 0"
    and "\<forall>s \<in> set ss. \<forall>c. c \<noteq> 0 \<longrightarrow> (\<exists>nxt. carries zs chain c (received (readings s c)) nxt)"
    and "Stream zs unm number reconnect first ss = (packs, pos, e)"
  shows "\<exists>k. concat packs = map (block_of nb_of) (u64_range first k) \<and>
    ((\<forall>err. e \<noteq> Returned err) \<longrightarrow> pos = first + of_nat k)"
  using Stream_consecutive [OF assms(1-3) _ assms(5)] assms(4) by (auto simp: consecutive_def)

lemma client_delivers_consecutively_example:
  "\<exists>packs pos e k. Stream stored_codec Inr (\<lambda>nb. nb) True 1 [demo_session] = (packs, pos, e) \<and>
    concat packs = map (block_of demo_chain) (u64_range 1 k)"
proof -
  obtain packs pos e where st: "Stream stored_codec Inr (\<lambda>nb. nb) True 1 [demo_session] = (packs, pos, e)"
    by (metis prod.exhaust)
  have "demo.service.sys_ok (boot (demo_db 3)) 3"
    by (rule demo.service.boot_ok [OF demo_db_keyed demo_db_holds]) simp
  then have "\<forall>s \<in> set [demo_session]. \<forall>c. c \<noteq> 0 \<longrightarrow>
      (\<exists>nxt. carries stored_codec demo_chain c (received (readings s c)) nxt)"
    using demo.service.served_carries demo_session_served by auto
  from client_delivers_consecutively [OF demo_chain_decodes demo_chain_valid _ this st]
  obtain k where "concat packs = map (block_of demo_chain) (u64_range 1 k)" by auto
  with st show ?thesis by blast
qed

text \<open>The URL a client connects with carries the block it wants, and the server's request handler
  reads that block back (block 0 stands for block 1).\<close>

lemma request_round_trip:
  "\<exists>q. connect_url addr n = ''ws://'' @ addr @ ''/ws?from='' @ q \<and> handleWS q = Inr (if n = 0 then 1 else n)"
  unfolding connect_url_def using handleWS_printed by blast

text \<open>Fed consecutive blocks of the chain from its position on, the ingestion loop stores each of them
  under its number, stores nothing else, ends at the next position and raises the server's latest
  block to the last one.\<close>

lemma ingest_stream_stores:
  assumes "healthy_store S absf okf tracked" "okf s"
    and "\<forall>n. parseBlockNumber (num (nb n)) = Inr n \<and> marshal (nb n) = Inr (chain n)"
    and "unat cur + k \<le> 18446744073709551615" "unat latest < unat cur" "0 < k"
  shows "\<exists>s'. ingest_stream S num marshal (map nb (u64_range cur k)) cur (s, latest) =
      (Inr (cur + of_nat k), s', cur + of_nat k - 1) \<and> okf s' \<and>
    blocks (absf s') = (\<lambda>n. if cur \<le> n \<and> unat n < unat cur + k then Some (chain n) else blocks (absf s) n) \<and>
    batches (absf s') = batches (absf s) \<and> meta (absf s') = meta (absf s)"
  using assms(2,4-6)
proof (induction k arbitrary: cur s latest)
  case (Suc k)
  note hs = healthy_store.axioms(1) [OF assms(1)]
  obtain s1 where s1: "SaveBlock S s cur (chain cur) = (None, s1)"
    using healthy_store.SaveBlock_total [OF assms(1) Suc.prems(1)] by (metis prod.collapse)
  note law = block_store.SaveBlock_law [OF hs Suc.prems(1) s1]
  then have a1: "okf s1" "absf s1 = put_block cur (chain cur) (absf s)" by simp_all
  have up: "UpdateLatestBlock [] latest cur = cur"
    using Suc.prems(3) by (simp add: UpdateLatestBlock_def u64_le_iff)
  have one: "ingest_block S num marshal [] (nb cur) cur (s, latest) = (Inr (cur + 1), s1, cur)"
    using assms(3) s1 up by (simp add: ingest_block_def)
  have u: "unat (cur + 1) = unat cur + 1" using Suc.prems(2) unat_add_u64 [of cur 1] by simp
  show ?case
  proof (cases "k = 0")
    case True
    have "cur \<le> n \<and> unat n < unat cur + 1 \<longleftrightarrow> n = cur" for n by (auto simp: u64_le_iff u64_eq_iff)
    with True one a1 show ?thesis by (simp add: u64_range_Suc fun_eq_iff)
  next
    case False
    then have "0 < k" by simp
    have "unat (cur + 1) + k \<le> 18446744073709551615" "unat cur < unat (cur + 1)" using Suc.prems(2) u by simp_all
    from Suc.IH [OF a1(1) this \<open>0 < k\<close>]
    obtain s' where s': "ingest_stream S num marshal (map nb (u64_range (cur + 1) k)) (cur + 1) (s1, cur) =
        (Inr (cur + 1 + of_nat k), s', cur + 1 + of_nat k - 1)" "okf s'"
      "blocks (absf s') = (\<lambda>n. if cur + 1 \<le> n \<and> unat n < unat (cur + 1) + k then Some (chain n) else blocks (absf s1) n)"
      "batches (absf s') = batches (absf s1)" "meta (absf s') = meta (absf s1)"
      by blast
    have "cur \<le> n \<and> unat n < unat cur + Suc k \<longleftrightarrow>
        n = cur \<or> (cur + 1 \<le> n \<and> unat n < unat (cur + 1) + k)" for n
      by (auto simp: u64_le_iff u64_eq_iff u)
    with s' one a1(2) show ?thesis
      by (intro exI [of _ s']) (auto simp: u64_range_Suc fun_eq_iff algebra_simps)
  qed
qed simp

end
