(* ===== verification/GoFloat.thy ===== *)
theory GoFloat
  imports Prelude
begin

section \<open>The \<open>float64\<close> arithmetic the source uses\<close>

text \<open>
  The controller computes an index and a growth step through \<open>float64\<close>.  A non-negative
  \<open>float64\<close> is a fraction \<open>(n, d)\<close> of integers; \<open>fl\<close> rounds an exact fraction to the nearest
  number with a 53-bit mantissa, ties to even, as IEEE 754 prescribes for every operation (in
  the range of the exponents that occur here, far from overflow and from the subnormal numbers).
\<close>

type_synonym fraction = "int \<times> int"

function bit_len :: "int \<Rightarrow> nat" where
  "bit_len n = (if n \<le> 0 then 0 else Suc (bit_len (n div 2)))"
  by pat_completeness auto
termination by (relation "measure nat") auto

declare bit_len.simps [simp del]

definition round_even :: "int \<Rightarrow> int \<Rightarrow> int" where
  "round_even n d =
     (let q = n div d; r = n mod d in if 2 * r < d \<or> (2 * r = d \<and> even q) then q else q + 1)"

definition fl :: "fraction \<Rightarrow> fraction" where
  "fl x = (case x of (n, d) \<Rightarrow>
     if n = 0 then (0, 1)
     else let k = int (bit_len n) - int (bit_len d);
              ge = (if k \<ge> 0 then n \<ge> d * 2 ^ nat k else n * 2 ^ nat (- k) \<ge> d);
              e = (if ge then k else k - 1) - 52
          in if e \<ge> 0 then (round_even n (d * 2 ^ nat e) * 2 ^ nat e, 1)
             else (round_even (n * 2 ^ nat (- e)) d, 2 ^ nat (- e)))"

definition fl_of_int :: "int \<Rightarrow> fraction" where "fl_of_int n = fl (n, 1)"
definition fl_mult :: "fraction \<Rightarrow> fraction \<Rightarrow> fraction" where
  "fl_mult x y = fl (fst x * fst y, snd x * snd y)"
definition fl_div :: "fraction \<Rightarrow> fraction \<Rightarrow> fraction" where
  "fl_div x y = fl (fst x * snd y, snd x * fst y)"
definition fl_add :: "fraction \<Rightarrow> fraction \<Rightarrow> fraction" where
  "fl_add x y = fl (fst x * snd y + fst y * snd x, snd x * snd y)"

text \<open>\<open>int(x)\<close> for a non-negative float.\<close>

definition fl_trunc :: "fraction \<Rightarrow> int" where "fl_trunc x = fst x div snd x"

text \<open>The constants of the source, as the compiler rounds them.\<close>

definition fl_095 :: fraction where "fl_095 = fl (95, 100)"
definition fl_01 :: fraction where "fl_01 = fl (1, 10)"


subsection \<open>Rounding\<close>

lemma bit_len_bounds:
  assumes "0 < n"
  shows "2 ^ (bit_len n - 1) \<le> n \<and> n < 2 ^ bit_len n \<and> 0 < bit_len n"
  using assms
proof (induction n rule: bit_len.induct)
  case (1 n)
  have step: "bit_len n = Suc (bit_len (n div 2))" using 1(2) by (subst bit_len.simps) simp
  show ?case
  proof (cases "n = 1")
    case True
    then show ?thesis unfolding step by (simp add: bit_len.simps [of 0])
  next
    case False
    then have IH: "2 ^ (bit_len (n div 2) - 1) \<le> n div 2" "n div 2 < 2 ^ bit_len (n div 2)"
      "0 < bit_len (n div 2)" using 1 by auto
    then obtain m where "bit_len (n div 2) = Suc m" using not0_implies_Suc by auto
    with IH show ?thesis unfolding step by auto
  qed
qed

lemma pow2_less: "(2 :: int) ^ a < 2 ^ b \<Longrightarrow> a < b"
  by (rule power_less_imp_less_exp [of 2]) simp_all

lemma bit_len_unique:
  assumes "2 ^ m \<le> n" "n < 2 ^ Suc m"
  shows "bit_len n = Suc m"
proof -
  have "0 < n" using assms(1) by (smt (verit) zero_less_power)
  from bit_len_bounds [OF this] have b: "2 ^ (bit_len n - 1) \<le> n" "n < 2 ^ bit_len n" "0 < bit_len n" by auto
  have "(2 :: int) ^ (bit_len n - 1) < 2 ^ Suc m" "(2 :: int) ^ m < 2 ^ bit_len n"
    using b assms by linarith+
  then have "bit_len n - 1 < Suc m" "m < bit_len n" by (blast dest: pow2_less)+
  with b(3) show ?thesis by linarith
qed

lemma bit_len_mult_power:
  assumes "0 < n"
  shows "bit_len (n * 2 ^ j) = bit_len n + j"
proof -
  note b = bit_len_bounds [OF assms]
  have "2 ^ (bit_len n + j - 1) \<le> n * 2 ^ j" "n * 2 ^ j < 2 ^ Suc (bit_len n + j - 1)"
  proof -
    have "(2 :: int) ^ (bit_len n + j - 1) = 2 ^ (bit_len n - 1) * 2 ^ j"
      using b by (simp add: power_add [symmetric])
    with b show "2 ^ (bit_len n + j - 1) \<le> n * 2 ^ j" by simp
    have "(2 :: int) ^ Suc (bit_len n + j - 1) = 2 ^ bit_len n * 2 ^ j"
      using b by (simp add: power_add [symmetric] del: power_Suc)
    with b show "n * 2 ^ j < 2 ^ Suc (bit_len n + j - 1)" by (simp del: power_Suc)
  qed
  from bit_len_unique [OF this] b show ?thesis by linarith
qed

lemma round_even_scale:
  assumes "0 < c"
  shows "round_even (n * c) (d * c) = round_even n d"
proof -
  have qr: "n * c div (d * c) = n div d" "n * c mod (d * c) = n mod d * c"
    using assms by (simp_all only: mod_mult_mult2 div_mult_mult2)
  have c0: "(c = 0) = False" using assms by simp
  have lt: "2 * (r * c) < d * c \<longleftrightarrow> 2 * r < d" for r
    using mult_less_cancel_right_pos [OF assms, of "2 * r" d] by (simp only: mult.assoc)
  have eq: "2 * (r * c) = d * c \<longleftrightarrow> 2 * r = d" for r
    using mult_cancel_right [of "2 * r" c d] by (simp only: mult.assoc c0 simp_thms)
  show ?thesis unfolding round_even_def Let_def qr lt eq ..
qed

text \<open>Rounding to the nearest integer, from both sides.\<close>

lemma div_mod_split:
  assumes "0 < (d :: int)"
  obtains q r where "q = n div d" "r = n mod d" "n = d * q + r" "0 \<le> r" "r < d"
proof (rule that [of "n div d" "n mod d"])
  show "n = d * (n div d) + n mod d" by (rule mult_div_mod_eq [symmetric])
  show "0 \<le> n mod d" using assms by (rule pos_mod_sign)
  show "n mod d < d" using assms by (rule pos_mod_bound)
qed (rule refl)+

lemma round_even_ge:
  assumes "0 < d" "2 * (d * m) < 2 * n + d"
  shows "m \<le> round_even n d"
proof -
  obtain q r where qr: "q = n div d" "r = n mod d" "n = d * q + r" "0 \<le> r" "r < d"
    using div_mod_split [OF assms(1)] by blast
  show ?thesis
  proof (cases "m \<le> q")
    case True
    then show ?thesis by (simp add: round_even_def Let_def flip: qr(1,2))
  next
    case False
    then have "d * (q + 1) \<le> d * m" using assms(1) by (intro mult_left_mono) auto
    then have above: "d * q + d \<le> d * m" by (simp add: distrib_left)
    have "d < 2 * r" using assms(2) above qr(3) by linarith
    moreover have "d * m < d * q + 2 * d" using assms(2) above qr(3,5) by linarith
    then have "d * m < d * (q + 2)" by (simp add: algebra_simps)
    then have "m < q + 2" using assms(1) by simp
    ultimately show ?thesis using False by (simp add: round_even_def Let_def flip: qr(1,2))
  qed
qed

lemma round_even_less:
  assumes "0 < d" "2 * n + d < 2 * (d * m)"
  shows "round_even n d < m"
proof -
  obtain q r where qr: "q = n div d" "r = n mod d" "n = d * q + r" "0 \<le> r" "r < d"
    using div_mod_split [OF assms(1)] by blast
  show ?thesis
  proof (cases "q + 1 < m")
    case True
    then show ?thesis by (simp add: round_even_def Let_def flip: qr(1,2))
  next
    case False
    then have "d * m \<le> d * (q + 1)" using assms(1) by (intro mult_left_mono) auto
    then have below: "d * m \<le> d * q + d" by (simp add: distrib_left)
    have "2 * r < d" using assms(2) below qr(3) by linarith
    moreover have "d * q < d * m" using assms qr(3,4) by linarith
    then have "q < m" using assms(1) by simp
    ultimately show ?thesis by (simp add: round_even_def Let_def flip: qr(1,2))
  qed
qed

lemma fl_scale:
  assumes "0 < n" "0 < d"
  shows "fl (n * 2 ^ j, d * 2 ^ j) = fl (n, d)"
proof -
  have len: "bit_len (n * 2 ^ j) = bit_len n + j" "bit_len (d * 2 ^ j) = bit_len d + j"
    using assms by (simp_all add: bit_len_mult_power)
  have ge: "n * 2 ^ j \<ge> d * 2 ^ j * p \<longleftrightarrow> n \<ge> d * p" "n * 2 ^ j * p \<ge> d * 2 ^ j \<longleftrightarrow> n * p \<ge> d" for p
    by (simp_all add: mult.assoc mult.left_commute [of _ "2 ^ j"] mult.commute [of _ "2 ^ j"])
  have re: "round_even (n * 2 ^ j) (d * 2 ^ j * p) = round_even n (d * p)"
    "round_even (n * 2 ^ j * p) (d * 2 ^ j) = round_even (n * p) d" for p
    using round_even_scale [of "2 ^ j" n "d * p"] round_even_scale [of "2 ^ j" "n * p" d]
    by (simp_all add: ac_simps)
  show ?thesis using assms by (simp add: fl_def len ge re Let_def)
qed

lemma fl_of_int_exact:
  assumes "0 < n" "n < 2 ^ 53"
  shows "\<exists>j. fl_of_int n = (n * 2 ^ j, 2 ^ j)"
proof -
  note b = bit_len_bounds [OF assms(1)]
  have "(2 :: int) ^ (bit_len n - 1) < 2 ^ 53" using b assms(2) by linarith
  then have "bit_len n - 1 < 53" by (rule pow2_less)
  then have e: "int (bit_len n) - 1 - 52 \<le> 0" using b by linarith
  have one: "bit_len 1 = 1" by (simp add: bit_len.simps)
  have k: "int (bit_len n) - int (bit_len 1) = int (bit_len n - 1)" using b one by simp
  show ?thesis
  proof (cases "int (bit_len n) - 1 - 52 = 0")
    case True
    then show ?thesis using assms b
      by (intro exI [of _ 0]) (simp add: fl_of_int_def fl_def one round_even_def Let_def nat_diff_distrib)
  next
    case False
    then show ?thesis using assms b e
      by (intro exI [of _ "nat (52 - (int (bit_len n) - 1))"])
        (simp add: fl_of_int_def fl_def one round_even_def Let_def nat_diff_distrib)
  qed
qed

lemma fl_power:
  assumes "0 < n" "bit_len n + u = j + 53" "0 < u"
  shows "fl (n, 2 ^ j) = (round_even (n * 2 ^ u) (2 ^ j), 2 ^ u)"
proof -
  let ?L = "bit_len n" and ?k = "int (bit_len n) - int (bit_len (2 ^ j))"
  note b = bit_len_bounds [OF assms(1)]
  have lj: "bit_len (2 ^ j) = Suc j" by (rule bit_len_unique) simp_all
  have ge: "if ?k \<ge> 0 then n \<ge> 2 ^ j * 2 ^ nat ?k else n * 2 ^ nat (- ?k) \<ge> 2 ^ j"
  proof (cases "Suc j \<le> ?L")
    case True
    then have "nat ?k = ?L - 1 - j" by (simp add: lj)
    then have "(2 :: int) ^ j * 2 ^ nat ?k = 2 ^ (?L - 1)" using True by (simp flip: power_add)
    with b True lj show ?thesis by simp
  next
    case False
    then have "nat (- ?k) = Suc j - ?L" by (simp add: lj nat_diff_distrib)
    then have "(2 :: int) ^ j = 2 ^ (?L - 1) * 2 ^ nat (- ?k)"
      using False b by (simp flip: power_add)
    also have "\<dots> \<le> n * 2 ^ nat (- ?k)" using b by (intro mult_right_mono) auto
    finally show ?thesis using False lj by simp
  qed
  have n0: "(n = 0) = False" using assms(1) by simp
  have e: "(if (if ?k \<ge> 0 then n \<ge> 2 ^ j * 2 ^ nat ?k else n * 2 ^ nat (- ?k) \<ge> 2 ^ j) then ?k else ?k - 1) - 52 = ?k - 52"
    using ge by simp
  have u: "nat (- (?k - 52)) = u" "(?k - 52 \<ge> 0) = False" using assms(2,3) lj by auto
  show ?thesis unfolding fl_def prod.case Let_def n0 if_False e u ..
qed

text \<open>The percentile index: through \<open>float64\<close> it is exactly the floor of \<open>0.95 n\<close>.\<close>

lemma fl_095_value: "fl_095 = (8556839292003942, 2 ^ 53)"
  by code_simp

lemma fl_mult_095:
  assumes "0 < n" "n < 2 ^ 45"
  shows "fl_trunc (fl_mult (fl_of_int n) fl_095) = 95 * n div 100"
proof -
  let ?c = "8556839292003942 :: int"
  obtain j where j: "fl_of_int n = (n * 2 ^ j, 2 ^ j)" using fl_of_int_exact [of n] assms by auto
  have "fl_mult (fl_of_int n) fl_095 = fl (n * ?c * 2 ^ j, 2 ^ 53 * 2 ^ j)"
    unfolding j fl_095_value fl_mult_def by (simp add: ac_simps)
  also have "\<dots> = fl (n * ?c, 2 ^ 53)" using assms(1) by (intro fl_scale) auto
  finally have m: "fl_mult (fl_of_int n) fl_095 = fl (n * ?c, 2 ^ 53)" .
  define L where "L = bit_len (n * ?c)"
  have b: "2 ^ (L - 1) \<le> n * ?c" "n * ?c < 2 ^ L" "0 < L"
    using bit_len_bounds [of "n * ?c"] assms(1) by (simp_all add: L_def)
  have "n * ?c < 2 ^ 98" using assms by simp
  then have "(2 :: int) ^ (L - 1) < 2 ^ 98" using b(1) by linarith
  then have "L - 1 < 98" by (rule pow2_less)
  then have L: "L \<le> 98" by simp
  define u where "u = 106 - L"
  have u: "L + u = 106" "8 \<le> u" using L by (simp_all add: u_def)
  define R where "R = round_even (n * ?c * 2 ^ u) (2 ^ 53)"
  have R: "fl_mult (fl_of_int n) fl_095 = (R, 2 ^ u)"
    unfolding m R_def using assms(1) u L_def by (intro fl_power) auto
  define N where "N = n * 2 ^ u"
  define q where "q = 95 * n div 100"
  have q: "20 * q \<le> 19 * n" "19 * n < 20 * q + 20" by (simp_all add: q_def)
  have N_pos: "0 \<le> N" using assms(1) by (simp add: N_def)
  have U: "(256 :: int) \<le> 2 ^ u" using power_increasing [of 8 u "2 :: int"] u(2) by simp
  have "20 * q * 2 ^ u \<le> 19 * n * 2 ^ u" "(19 * n + 1) * 2 ^ u \<le> (20 * q + 20) * 2 ^ u"
    using q by (intro mult_right_mono; simp)+
  then have Q: "20 * (q * 2 ^ u) \<le> 19 * N" "19 * N + 2 ^ u \<le> 20 * (q * 2 ^ u) + 20 * 2 ^ u"
    by (simp_all add: N_def algebra_simps)
  have "n * ?c * 2 ^ u < 2 ^ L * 2 ^ u" using b(2) by simp
  then have N: "?c * N < 2 ^ 106" using u(1) by (simp add: N_def ac_simps flip: power_add)
  have R_N: "R = round_even (?c * N) (2 ^ 53)" by (simp add: R_def N_def ac_simps)
  have "2 * (2 ^ 53 * (q * 2 ^ u)) < 2 * (?c * N) + 2 ^ 53" using Q(1) N by simp
  then have lower: "q * 2 ^ u \<le> R" unfolding R_N by (intro round_even_ge) simp_all
  have "2 * (?c * N) + 2 ^ 53 < 2 * (2 ^ 53 * (q * 2 ^ u + 2 ^ u))" using Q(2) U N_pos by simp
  then have upper: "R < q * 2 ^ u + 2 ^ u" unfolding R_N by (intro round_even_less) simp_all
  have "R div 2 ^ u = q"
    using lower upper by (intro int_div_pos_eq [of R "2 ^ u" q "R - q * 2 ^ u"]) (auto simp: algebra_simps)
  then show ?thesis by (simp add: R fl_trunc_def q_def)
qed

end
