(* ===== verification/Controller.thy ===== *)
theory Controller
  imports GoFloat Consts "HOL-Library.Signed_Division" "HOL-Library.Multiset"
begin

section \<open>The adaptive rate controller\<close>

text \<open>
  \<open>evm-ingestion/rpc/controller.go\<close>: a semaphore of tokens whose number follows the latency and
  the errors of the last minute.  The state is the \<open>Controller\<close> struct; the channel
  \<open>semaphore\<close> is the number of tokens in it and its capacity is \<open>max_parallelism\<close>.  Times and
  durations are nanoseconds.
\<close>

subsection \<open>The code\<close>

record RequestMetric =
  Timestamp :: int
  Duration :: int
  Success :: bool

record Controller =
  max_parallelism :: int
  min_parallelism :: int
  target_latency :: int
  max_latency :: int
  max_errors :: int
  current_parallel :: int
  semaphore :: int
  metrics :: "RequestMetric list"
  ctl_url :: string
  ctl_stopped :: bool

definition to_int32 :: "int \<Rightarrow> int" where "to_int32 n = sint (word_of_int n :: 32 word)"
definition to_int64 :: "int \<Rightarrow> int" where "to_int64 n = sint (word_of_int n :: 64 word)"

text \<open>\<open>ChainConfig\<close> of rpc/types.go.\<close>

record ChainConfig =
  cfg_ChainID :: u64
  cfg_Name :: string
  cfg_URL :: string
  cfg_MaxParallelism :: int
  cfg_MaxLatencyMs :: int

text \<open>
  The loop of \<open>NewController\<close> that fills the channel blocks for ever when there are more tokens than
  capacity: that is \<open>None\<close>.
\<close>

definition NewController :: "ChainConfig \<Rightarrow> Controller option" where
  "NewController cfg =
     (let maxP = (if cfg_MaxParallelism cfg \<le> 0 then RPCDefaultMaxParallelism else cfg_MaxParallelism cfg);
          ms = to_int64 (cfg_MaxLatencyMs cfg * Millisecond);
          maxLatency = (if ms \<le> 0 then RPCMaxLatency else ms);
          targetLatency = maxLatency sdiv 2;
          minP = max 2 (maxP sdiv 10)
      in if minP > maxP then None
         else Some \<lparr>max_parallelism = maxP, min_parallelism = minP, target_latency = targetLatency,
           max_latency = maxLatency, max_errors = RPCMaxErrorsPerMinute,
           current_parallel = to_int32 minP, semaphore = minP, metrics = [],
           ctl_url = cfg_URL cfg, ctl_stopped = False\<rparr>)"

definition URL :: "Controller \<Rightarrow> string" where "URL c = ctl_url c"

definition CurrentParallelism :: "Controller \<Rightarrow> int" where "CurrentParallelism c = current_parallel c"

text \<open>
  \<open>Controller.Stop\<close>: the adjustment loop ends at the closed channel, since an adjustment never blocks;
  so the wait returns.
\<close>

definition StopController :: "Controller \<Rightarrow> Controller called" where
  "StopController c =
     (case close_chan (ctl_stopped c) of
        PanicCall \<Rightarrow> PanicCall
      | HangCall \<Rightarrow> HangCall
      | Returns closed \<Rightarrow> Returns (c\<lparr>ctl_stopped := closed\<rparr>))"

definition p95_index :: "int \<Rightarrow> int" where
  "p95_index n =
     (let p95Idx = fl_trunc (fl_mult (fl_of_int n) fl_095) in if p95Idx \<ge> n then n - 1 else p95Idx)"

definition p95_of :: "RequestMetric list \<Rightarrow> int" where
  "p95_of ms = (let durations = sort (map Duration ms) in
     durations ! nat (p95_index (int (length durations))))"

definition P95Latency :: "Controller \<Rightarrow> int" where
  "P95Latency c = (if length (metrics c) < 10 then 0 else p95_of (metrics c))"

text \<open>The case of \<open>Acquire\<close> that takes a token; \<open>None\<close> while it blocks.\<close>

definition Acquire :: "Controller \<Rightarrow> Controller option" where
  "Acquire c = (if semaphore c > 0 then Some (c\<lparr>semaphore := semaphore c - 1\<rparr>) else None)"

definition Release :: "Controller \<Rightarrow> Controller" where
  "Release c = (if semaphore c < max_parallelism c then c\<lparr>semaphore := semaphore c + 1\<rparr> else c)"

definition RecordMetric :: "int \<Rightarrow> int \<Rightarrow> bool \<Rightarrow> Controller \<Rightarrow> Controller" where
  "RecordMetric now duration success c =
     c\<lparr>metrics := metrics c @ [\<lparr>Timestamp = now, Duration = duration, Success = success\<rparr>]\<rparr>"

text \<open>The loop of \<open>adjust\<close> that finds the first metric of the window, with its index.\<close>

fun valid_start :: "int \<Rightarrow> nat \<Rightarrow> nat \<Rightarrow> RequestMetric list \<Rightarrow> nat" where
  "valid_start cutoff n i [] = 0"
| "valid_start cutoff n i (m # ms) =
     (if Timestamp m > cutoff then i
      else if i = n - 1 then n
      else valid_start cutoff n (i + 1) ms)"

definition growth_step :: "int \<Rightarrow> int \<Rightarrow> int" where
  "growth_step p95Latency targetLatency =
     (let ratio = fl_div (fl_of_int p95Latency) (fl_of_int targetLatency);
          growth = fl_trunc (fl_div (1, 1) (fl_add ratio fl_01));
          growth = (if growth < 1 then 1 else growth)
      in if growth > 20 then 20 else growth)"

definition new_parallel :: "Controller \<Rightarrow> RequestMetric list \<Rightarrow> int" where
  "new_parallel c ms =
     (let errorCount = int (length (filter (\<lambda>m. \<not> Success m) ms));
          p95Latency = p95_of ms;
          current = current_parallel c;
          p = (if errorCount > max_errors c then current sdiv 2
               else if p95Latency > max_latency c then current - 2
               else if p95Latency < target_latency c
                 then current + growth_step p95Latency (target_latency c)
               else current);
          p = (if p < min_parallelism c then min_parallelism c else p)
      in if p > max_parallelism c then max_parallelism c else p)"

fun add_slots :: "nat \<Rightarrow> Controller \<Rightarrow> Controller" where
  "add_slots 0 c = c"
| "add_slots (Suc k) c =
     add_slots k (if semaphore c < max_parallelism c then c\<lparr>semaphore := semaphore c + 1\<rparr> else c)"

definition adjust :: "int \<Rightarrow> Controller \<Rightarrow> Controller" where
  "adjust now c =
     (let cutoff = now - RPCMetricsWindow;
          ms = drop (valid_start cutoff (length (metrics c)) 0 (metrics c)) (metrics c);
          c = c\<lparr>metrics := ms\<rparr>
      in if length ms < 10 then c
         else let current = current_parallel c;
                  newParallel = new_parallel c ms
           in if newParallel \<noteq> current
              then let c = c\<lparr>current_parallel := to_int32 newParallel\<rparr>
                in if newParallel > current then add_slots (nat (newParallel - current)) c else c
              else c)"

subsection \<open>The metrics window\<close>

lemma valid_start_drop:
  "ms \<noteq> [] \<Longrightarrow> i + length ms = n \<Longrightarrow>
    valid_start cutoff n i ms = i + length (takeWhile (\<lambda>m. \<not> Timestamp m > cutoff) ms)"
proof (induction ms arbitrary: i)
  case (Cons m ms)
  then show ?case by (cases ms) auto
qed simp

lemma drop_valid_start:
  "drop (valid_start cutoff (length ms) 0 ms) ms = dropWhile (\<lambda>m. \<not> Timestamp m > cutoff) ms"
  by (cases "ms = []") (simp_all add: valid_start_drop dropWhile_eq_drop)

lemma p95_index_exact: "0 < n \<Longrightarrow> n < 2 ^ 45 \<Longrightarrow> p95_index n = 95 * n div 100"
proof -
  assume n: "0 < n" "n < 2 ^ 45"
  then have "95 * n div 100 < n" by linarith
  then show "p95_index n = 95 * n div 100" using fl_mult_095 [OF n] by (simp add: p95_index_def Let_def)
qed

subsection \<open>The invariant\<close>

definition ctl_ok :: "Controller \<Rightarrow> bool" where
  "ctl_ok c \<longleftrightarrow> 2 \<le> min_parallelism c \<and> min_parallelism c \<le> max_parallelism c \<and>
     max_parallelism c < 2 ^ 31 \<and> min_parallelism c \<le> current_parallel c \<and>
     current_parallel c \<le> max_parallelism c \<and> 0 \<le> semaphore c \<and> semaphore c \<le> max_parallelism c"

lemma to_int32_id: "0 \<le> n \<Longrightarrow> n < 2 ^ 31 \<Longrightarrow> to_int32 n = n"
  by (simp add: to_int32_def signed_of_int signed_take_bit_int_eq_self)

lemma sdiv_nonneg: "0 \<le> (n :: int) \<Longrightarrow> 0 < k \<Longrightarrow> n sdiv k = n div k"
  by (cases "n = 0") (simp_all add: signed_divide_int_def)

lemma NewController_ok:
  assumes "NewController cfg = Some c" "cfg_MaxParallelism cfg < 2 ^ 31"
  shows "ctl_ok c" "semaphore c = current_parallel c"
  using assms by (auto simp: NewController_def Let_def ctl_ok_def to_int32_id sdiv_nonneg
      RPCDefaultMaxParallelism_def RPCMaxErrorsPerMinute_def max_def split: if_splits)

text \<open>The decision of \<open>adjust\<close>, branch by branch.\<close>

lemma new_parallel_bounds:
  "min_parallelism c \<le> max_parallelism c \<Longrightarrow>
    min_parallelism c \<le> new_parallel c ms \<and> new_parallel c ms \<le> max_parallelism c"
  by (simp add: new_parallel_def Let_def)

lemma growth_step_bounds: "1 \<le> growth_step p t" "growth_step p t \<le> 20"
  by (simp_all add: growth_step_def Let_def)

lemma add_slots_fields [simp]:
  "max_parallelism (add_slots k c) = max_parallelism c" "min_parallelism (add_slots k c) = min_parallelism c"
  "current_parallel (add_slots k c) = current_parallel c" "metrics (add_slots k c) = metrics c"
  by (induction k arbitrary: c) simp_all

lemma add_slots_semaphore:
  "semaphore c \<le> max_parallelism c \<Longrightarrow>
    semaphore (add_slots k c) = min (max_parallelism c) (semaphore c + int k)"
  by (induction k arbitrary: c) auto

definition window :: "int \<Rightarrow> Controller \<Rightarrow> RequestMetric list" where
  "window now c = dropWhile (\<lambda>m. \<not> Timestamp m > now - RPCMetricsWindow) (metrics c)"

lemma adjust_eq:
  assumes "ctl_ok c"
  shows "adjust now c =
    (let ms = window now c; c' = c\<lparr>metrics := ms\<rparr>; p = new_parallel c ms in
     if length ms < 10 then c'
     else add_slots (nat (p - current_parallel c)) (c'\<lparr>current_parallel := p\<rparr>))"
proof -
  have np: "new_parallel (c\<lparr>metrics := ms\<rparr>) ms' = new_parallel c ms'" for ms ms'
    by (simp add: new_parallel_def Let_def cong: if_cong)
  have "to_int32 (new_parallel c ms) = new_parallel c ms" for ms
    using new_parallel_bounds [of c ms] assms by (intro to_int32_id) (auto simp: ctl_ok_def)
  then show ?thesis
    by (auto simp: adjust_def window_def drop_valid_start Let_def np)
qed

lemma adjust_ok: "ctl_ok c \<Longrightarrow> ctl_ok (adjust now c)"
  using new_parallel_bounds [of c "window now c"]
  by (auto simp: adjust_eq Let_def ctl_ok_def add_slots_semaphore)

subsection \<open>Workers\<close>

text \<open>
  The controller with the workers that hold a slot: \<open>Execute\<close> starts with \<open>Acquire\<close> and ends
  with \<open>RecordMetric\<close> and \<open>Release\<close>, the ticker calls \<open>adjust\<close>.
\<close>

datatype ctl_op = Start | Finish int int bool | Tick int

fun ctl_step :: "ctl_op \<Rightarrow> Controller \<times> int \<Rightarrow> (Controller \<times> int) option" where
  "ctl_step Start (c, r) = map_option (\<lambda>c'. (c', r + 1)) (Acquire c)"
| "ctl_step (Finish now duration success) (c, r) =
     (if r > 0 then Some (Release (RecordMetric now duration success c), r - 1) else None)"
| "ctl_step (Tick now) (c, r) = Some (adjust now c, r)"

fun ctl_run :: "ctl_op list \<Rightarrow> Controller \<times> int \<Rightarrow> (Controller \<times> int) option" where
  "ctl_run [] x = Some x"
| "ctl_run (ev # evs) x = (case ctl_step ev x of None \<Rightarrow> None | Some y \<Rightarrow> ctl_run evs y)"

definition slots_ok :: "Controller \<times> int \<Rightarrow> bool" where
  "slots_ok x = (case x of (c, r) \<Rightarrow> ctl_ok c \<and> 0 \<le> r \<and> current_parallel c \<le> semaphore c + r)"

lemma ctl_step_ok:
  assumes "ctl_step ev x = Some y" "slots_ok x"
  shows "slots_ok y"
proof (cases x)
  case (Pair c r)
  show ?thesis
  proof (cases ev)
    case Start
    then show ?thesis using assms Pair
      by (auto simp: slots_ok_def Acquire_def ctl_ok_def split: if_splits)
  next
    case (Finish now duration success)
    then show ?thesis using assms Pair
      by (auto simp: slots_ok_def Release_def RecordMetric_def ctl_ok_def split: if_splits)
  next
    case (Tick now)
    have c: "ctl_ok c" "0 \<le> r" "current_parallel c \<le> semaphore c + r" "semaphore c \<le> max_parallelism c"
      using assms(2) Pair by (auto simp: slots_ok_def ctl_ok_def)
    note b = new_parallel_bounds [of c "window now c"]
    have "current_parallel (adjust now c) \<le> semaphore (adjust now c) + r"
      using c b by (auto simp: adjust_eq Let_def add_slots_semaphore ctl_ok_def)
    then show ?thesis using Tick assms(1) Pair c adjust_ok by (auto simp: slots_ok_def)
  qed
qed

lemma ctl_run_ok: "ctl_run evs x = Some y \<Longrightarrow> slots_ok x \<Longrightarrow> slots_ok y"
  by (induction evs x rule: ctl_run.induct) (auto split: option.splits dest: ctl_step_ok)

text \<open>
  A run on which more requests are in flight than \<open>MaxParallelism\<close> allows: the limit goes up to
  3, a slow minute brings it down to 2 while all three slots stay out, and when it goes up again
  a fourth token is made.
\<close>

definition busy :: "int \<Rightarrow> int \<Rightarrow> ctl_op list" where
  "busy now duration = concat (replicate 10 [Finish now duration True, Start])"

definition overshoot :: "ctl_op list" where
  "overshoot = [Start, Start] @ busy Second Millisecond @ [Tick (2 * Second), Start] @
     busy (100 * Second) (5 * Second) @ [Tick (101 * Second)] @
     busy (200 * Second) Millisecond @ [Tick (201 * Second), Start]"

definition config_with :: "string \<Rightarrow> int \<Rightarrow> ChainConfig" where
  "config_with url p = \<lparr>cfg_ChainID = 43114, cfg_Name = ''chain'', cfg_URL = url, cfg_MaxParallelism = p,
     cfg_MaxLatencyMs = 0\<rparr>"

lemma overshoot_runs:
  "case NewController (config_with [] 3) of None \<Rightarrow> False
   | Some c \<Rightarrow> (case ctl_run overshoot (c, 0) of None \<Rightarrow> False
      | Some (c', r) \<Rightarrow> max_parallelism c' = 3 \<and> r = 4)"
  by code_simp

subsection \<open>The properties\<close>

text \<open>C31: Through any run of requests and adjustments the parallelism stays between its bounds, the
  channel never overflows, and no slot is lost: the tokens in the channel and the requests in
  flight together never fall below the current parallelism.\<close>

theorem controller_keeps_its_slots:
  assumes "NewController cfg = Some c0" "cfg_MaxParallelism cfg < 2 ^ 31"
    and "ctl_run evs (c0, 0) = Some (c, running)"
  shows "min_parallelism c \<le> current_parallel c \<and> current_parallel c \<le> max_parallelism c \<and>
    0 \<le> semaphore c \<and> semaphore c \<le> max_parallelism c \<and> 0 \<le> running \<and>
    current_parallel c \<le> semaphore c + running"
proof -
  have "slots_ok (c0, 0)"
    using NewController_ok [OF assms(1,2)] by (simp add: slots_ok_def)
  from ctl_run_ok [OF assms(3) this] show ?thesis by (simp add: slots_ok_def ctl_ok_def)
qed

theorem controller_keeps_its_slots_witness:
  "\<exists>c0 c running. NewController (config_with [] 3) = Some c0 \<and> ctl_run overshoot (c0, 0) = Some (c, running) \<and>
    current_parallel c \<le> max_parallelism c \<and> current_parallel c \<le> semaphore c + running"
proof -
  obtain c0 c r where run: "NewController (config_with [] 3) = Some c0" "ctl_run overshoot (c0, 0) = Some (c, r)"
    using overshoot_runs by (auto split: option.splits)
  from controller_keeps_its_slots [OF run(1) _ run(2)] run show ?thesis by (auto simp: config_with_def)
qed

text \<open>C32: But \<open>MaxParallelism\<close> does not bound the requests in flight: lowering the parallelism takes
  no token out of circulation, and raising it again makes new ones.\<close>

theorem parallelism_can_exceed_maximum:
  "\<exists>evs c0 c running. NewController (config_with [] 3) = Some c0 \<and> ctl_run evs (c0, 0) = Some (c, running) \<and>
    running > max_parallelism c"
proof -
  obtain c0 c r where "NewController (config_with [] 3) = Some c0" "ctl_run overshoot (c0, 0) = Some (c, r)"
    "max_parallelism c = 3" "r = 4"
    using overshoot_runs by (auto split: option.splits)
  then show ?thesis by (intro exI [of _ overshoot] exI [of _ c0] exI [of _ c] exI [of _ r]) simp
qed

text \<open>\<open>NewController\<close> returns for every configuration but \<open>MaxParallelism = 1\<close>, for which it blocks
  for ever filling its channel.\<close>

lemma NewController_None:
  "NewController cfg = None \<longleftrightarrow> cfg_MaxParallelism cfg = 1"
proof -
  have "\<not> m < m sdiv 10" "m < 2 \<Longrightarrow> m = 1" if "0 < m" for m :: int
    using that by (auto simp: sdiv_nonneg)
  then show ?thesis
    by (auto simp: NewController_def Let_def RPCDefaultMaxParallelism_def max_def sdiv_nonneg not_le)
qed

lemma NewController_URL: "NewController cfg = Some c \<Longrightarrow> URL c = cfg_URL cfg"
  by (auto simp: NewController_def URL_def Let_def split: if_splits)

lemma NewController_max: "NewController cfg = Some c \<Longrightarrow>
    max_parallelism c = (if cfg_MaxParallelism cfg \<le> 0 then 200 else cfg_MaxParallelism cfg)"
  by (auto simp: NewController_def RPCDefaultMaxParallelism_def Let_def split: if_splits)

text \<open>\<open>Stop\<close> returns once; a second one panics.\<close>

lemma StopController_twice:
  assumes "NewController cfg = Some c"
  shows "\<exists>c'. StopController c = Returns c' \<and> StopController c' = PanicCall"
  using assms by (auto simp: NewController_def StopController_def close_chan_def Let_def split: if_splits)

text \<open>The percentile index, computed through \<open>float64\<close>, is exactly the floor of 95 percent of the
  number of samples, and always a valid index.\<close>

lemma percentile_index_exact:
  assumes "0 < n" "n < 2 ^ 45"
  shows "p95_index n = 95 * n div 100 \<and> 0 \<le> p95_index n \<and> p95_index n < n"
proof -
  have "95 * n div 100 < n" "0 \<le> 95 * n div 100" using assms(1) by linarith+
  then show ?thesis using p95_index_exact [OF assms] by simp
qed

text \<open>One adjustment over at least ten recent samples: too many errors halve the parallelism, a high
  95th percentile takes 2 off, a low one adds between 1 and 20, all within the bounds; with fewer
  samples nothing changes.\<close>

lemma adjust_decision:
  assumes "ctl_ok c" "ms = window now c"
    and "errors = int (length (filter (\<lambda>m. \<not> Success m) ms))" "p95 = p95_of ms"
  shows "current_parallel (adjust now c) =
    (if length ms < 10 then current_parallel c
     else if errors > max_errors c then max (min_parallelism c) (current_parallel c div 2)
     else if p95 > max_latency c then max (min_parallelism c) (current_parallel c - 2)
     else if p95 < target_latency c
       then min (max_parallelism c) (current_parallel c + growth_step p95 (target_latency c))
     else current_parallel c) \<and>
    1 \<le> growth_step p95 (target_latency c) \<and> growth_step p95 (target_latency c) \<le> 20"
proof -
  have c: "2 \<le> min_parallelism c" "min_parallelism c \<le> current_parallel c"
    "current_parallel c \<le> max_parallelism c"
    using assms(1) by (simp_all add: ctl_ok_def)
  have half: "current_parallel c sdiv 2 = current_parallel c div 2" "current_parallel c div 2 \<le> current_parallel c"
    using c by (simp_all add: sdiv_nonneg)
  have grow: "1 \<le> growth_step p95 (target_latency c)" "growth_step p95 (target_latency c) \<le> 20"
    by (rule growth_step_bounds)+
  have "current_parallel (adjust now c) = (if length ms < 10 then current_parallel c else new_parallel c ms)"
    by (simp add: adjust_eq [OF assms(1)] Let_def assms(2))
  moreover have "new_parallel c ms =
    (if errors > max_errors c then max (min_parallelism c) (current_parallel c div 2)
     else if p95 > max_latency c then max (min_parallelism c) (current_parallel c - 2)
     else if p95 < target_latency c
       then min (max_parallelism c) (current_parallel c + growth_step p95 (target_latency c))
     else current_parallel c)"
    using c half grow by (auto simp: new_parallel_def Let_def assms(3,4) max_def min_def)
  ultimately show ?thesis using grow by simp
qed

definition demo_controller :: Controller where
  "demo_controller = \<lparr>max_parallelism = 50, min_parallelism = 5, target_latency = 500 * Millisecond,
     max_latency = 1000 * Millisecond, max_errors = 10, current_parallel = 40, semaphore = 40,
     metrics = replicate 11 \<lparr>Timestamp = Minute, Duration = Second, Success = False\<rparr>,
     ctl_url = ''http://node/rpc'', ctl_stopped = False\<rparr>"

lemma adjust_decision_example: "current_parallel (adjust (Minute + Second) demo_controller) = 20"
  using adjust_decision [of demo_controller "window (Minute + Second) demo_controller" "Minute + Second" 11 "p95_of (metrics demo_controller)"]
  by (simp add: demo_controller_def ctl_ok_def window_def duration_defs eval_nat_numeral)

end
