(* ===== verification/Json.thy ===== *)
theory Json
  imports GoText
begin

section \<open>JSON values, and Go structs made from them\<close>

text \<open>
  What the source uses of \<open>encoding/json\<close>.  A document is the value that its text denotes; how text
  and values correspond is the record \<open>json_text\<close>, with its documented laws.  Decoding follows
  \<open>Unmarshal\<close>: it updates the variable it is given, \<open>null\<close> leaves it alone or makes it nil, a key is
  looked up exactly first and without regard to case second, and a key that no field has is
  skipped, or an error under \<open>DisallowUnknownFields\<close>.  The memory beyond the length of a slice is
  not kept: it matters only for an object that repeats a key three times.
\<close>

subsection \<open>Documents\<close>

datatype json =
    JNull
  | JBool bool
  | JNum string
  | JStr string
  | JArr "json list"
  | JObj "(string \<times> json) list"

text \<open>Well-formed UTF-8, as \<open>unicode/utf8\<close> has it.\<close>

definition byte_in :: "nat \<Rightarrow> nat \<Rightarrow> char \<Rightarrow> bool" where
  "byte_in lo hi c \<longleftrightarrow> lo \<le> of_char c \<and> of_char c \<le> hi"

definition utf8_second :: "char \<Rightarrow> char \<Rightarrow> bool" where
  "utf8_second c d \<longleftrightarrow>
     byte_in (if of_char c = (0xE0 :: nat) then 0xA0 else if of_char c = (0xF0 :: nat) then 0x90 else 0x80)
       (if of_char c = (0xED :: nat) then 0x9F else if of_char c = (0xF4 :: nat) then 0x8F else 0xBF) d"

fun valid_utf8 :: "bytes \<Rightarrow> bool" where
  "valid_utf8 [] = True"
| "valid_utf8 (c # s) =
     (if byte_in 0 0x7F c then valid_utf8 s
      else if byte_in 0xC2 0xDF c then
        (case s of d # s' \<Rightarrow> utf8_second c d \<and> valid_utf8 s' | _ \<Rightarrow> False)
      else if byte_in 0xE0 0xEF c then
        (case s of d # e # s' \<Rightarrow> utf8_second c d \<and> byte_in 0x80 0xBF e \<and> valid_utf8 s' | _ \<Rightarrow> False)
      else if byte_in 0xF0 0xF4 c then
        (case s of d # e # f # s' \<Rightarrow>
             utf8_second c d \<and> byte_in 0x80 0xBF e \<and> byte_in 0x80 0xBF f \<and> valid_utf8 s'
         | _ \<Rightarrow> False)
      else False)"

text \<open>The documents that text can carry faithfully; of numbers, the natural ones are enough here.  The
  decoder refuses documents nested more than ten thousand levels deep.\<close>

definition valid_number :: "string \<Rightarrow> bool" where
  "valid_number s \<longleftrightarrow> s \<noteq> [] \<and> list_all (byte_in 48 57) s \<and> (hd s = CHR ''0'' \<longrightarrow> s = ''0'')"

fun valid_json :: "json \<Rightarrow> bool" where
  "valid_json JNull = True"
| "valid_json (JBool b) = True"
| "valid_json (JNum s) = valid_number s"
| "valid_json (JStr s) = valid_utf8 s"
| "valid_json (JArr js) = list_all valid_json js"
| "valid_json (JObj kvs) = list_all (\<lambda>(k, v). valid_utf8 k \<and> valid_json v) kvs"

fun json_depth :: "json \<Rightarrow> nat" where
  "json_depth (JArr js) = Suc (foldr max (map json_depth js) 0)"
| "json_depth (JObj kvs) = Suc (foldr max (map (\<lambda>(k, v). json_depth v) kvs) 0)"
| "json_depth _ = 0"

definition valid_document :: "json \<Rightarrow> bool" where
  "valid_document j \<longleftrightarrow> valid_json j \<and> json_depth j \<le> 10000"

subsection \<open>Decoding\<close>

type_synonym 'a decoder = "bool \<Rightarrow> json \<Rightarrow> 'a \<Rightarrow> 'a result"

definition cannot_unmarshal :: error where "cannot_unmarshal = Fail ''cannot unmarshal''"
definition unknown_field :: error where "unknown_field = Fail ''unknown field''"

fun dec_string :: "string decoder" where
  "dec_string strict JNull old = Inr old"
| "dec_string strict (JStr s) old = Inr s"
| "dec_string strict j old = Inl cannot_unmarshal"

fun dec_bool :: "bool decoder" where
  "dec_bool strict JNull old = Inr old"
| "dec_bool strict (JBool b) old = Inr b"
| "dec_bool strict j old = Inl cannot_unmarshal"

text \<open>\<open>json.RawMessage\<close> (\<open>None\<close> for no bytes) takes any value, \<open>null\<close> too.\<close>

definition dec_raw :: "json option decoder" where
  "dec_raw strict j old = Inr (Some j)"

text \<open>A pointer (\<open>None\<close> for nil): \<open>null\<close> makes it nil, anything else goes to what it points to.\<close>

fun dec_ptr :: "'a decoder \<Rightarrow> 'a \<Rightarrow> 'a option decoder" where
  "dec_ptr dcd zero strict JNull old = Inr None"
| "dec_ptr dcd zero strict j old =
     map_sum id Some (dcd strict j (case old of None \<Rightarrow> zero | Some x \<Rightarrow> x))"

text \<open>A slice (\<open>None\<close> for nil): the elements that are there already are decoded into.\<close>

fun dec_elems :: "'a decoder \<Rightarrow> 'a \<Rightarrow> bool \<Rightarrow> json list \<Rightarrow> 'a list \<Rightarrow> 'a list result" where
  "dec_elems dcd zero strict [] old = Inr []"
| "dec_elems dcd zero strict (j # js) old =
     (case dcd strict j (case old of [] \<Rightarrow> zero | x # _ \<Rightarrow> x) of
        Inl err \<Rightarrow> Inl err
      | Inr x \<Rightarrow> map_sum id ((#) x) (dec_elems dcd zero strict js (tl old)))"

fun dec_list :: "'a decoder \<Rightarrow> 'a \<Rightarrow> 'a list option decoder" where
  "dec_list dcd zero strict JNull old = Inr None"
| "dec_list dcd zero strict (JArr js) old =
     map_sum id Some (dec_elems dcd zero strict js (case old of None \<Rightarrow> [] | Some xs \<Rightarrow> xs))"
| "dec_list dcd zero strict j old = Inl cannot_unmarshal"

definition elems :: "'a list option \<Rightarrow> 'a list" where
  "elems xs = (case xs of None \<Rightarrow> [] | Some ys \<Rightarrow> ys)"

text \<open>
  The key of a field: the case folding is the one of Unicode, under which two characters outside of
  ASCII (long s and the Kelvin sign) count as letters.  \<open>upper\<close> clears bit 5 of the letters \<open>a\<close> to \<open>z\<close>.
\<close>

fun upper :: "char \<Rightarrow> char" where
  "upper (Char b0 b1 b2 b3 b4 b5 b6 b7) =
     (if \<not> b7 \<and> b6 \<and> b5 \<and> (b4 \<or> b3 \<or> b2 \<or> b1 \<or> b0) \<and> \<not> (b4 \<and> b3 \<and> (b2 \<or> b1 \<and> b0))
      then Char b0 b1 b2 b3 b4 False b6 b7
      else Char b0 b1 b2 b3 b4 b5 b6 b7)"

fun fold_name :: "string \<Rightarrow> string" where
  "fold_name [] = []"
| "fold_name (c # s) =
     (if c = CHR 0xC5 \<and> take 1 s = [CHR 0xBF] then CHR ''S'' # fold_name (drop 1 s)
      else if c = CHR 0xE2 \<and> take 2 s = [CHR 0x84, CHR 0xAA] then CHR ''K'' # fold_name (drop 2 s)
      else upper c # fold_name s)"

definition find_key :: "string list \<Rightarrow> string \<Rightarrow> string option" where
  "find_key ks k = (if k \<in> set ks then Some k else List.find (\<lambda>k'. fold_name k' = fold_name k) ks)"

lemma upper_letters:
  "map upper ''abcdefghijklmnopqrstuvwxyz@[`{09'' = ''ABCDEFGHIJKLMNOPQRSTUVWXYZ@[`{09''"
  by simp

text \<open>A struct is the list of its fields; each updates the struct with a value.\<close>

type_synonym 'r fields = "(string \<times> (bool \<Rightarrow> json \<Rightarrow> 'r \<Rightarrow> 'r result)) list"

definition fld :: "'a decoder \<Rightarrow> ('r \<Rightarrow> 'a) \<Rightarrow> (('a \<Rightarrow> 'a) \<Rightarrow> 'r \<Rightarrow> 'r) \<Rightarrow> bool \<Rightarrow> json \<Rightarrow> 'r \<Rightarrow> 'r result" where
  "fld dcd get upd strict j r = map_sum id (\<lambda>x. upd (\<lambda>_. x) r) (dcd strict j (get r))"

fun dec_members :: "'r fields \<Rightarrow> bool \<Rightarrow> (string \<times> json) list \<Rightarrow> 'r \<Rightarrow> 'r result" where
  "dec_members fs strict [] r = Inr r"
| "dec_members fs strict ((k, j) # kvs) r =
     (case Option.bind (find_key (map fst fs) k) (map_of fs) of
        None \<Rightarrow> if strict then Inl unknown_field else dec_members fs strict kvs r
      | Some put \<Rightarrow>
          (case put strict j r of
             Inl err \<Rightarrow> Inl err
           | Inr r' \<Rightarrow> dec_members fs strict kvs r'))"

fun dec_struct :: "'r fields \<Rightarrow> 'r decoder" where
  "dec_struct fs strict JNull old = Inr old"
| "dec_struct fs strict (JObj kvs) old = dec_members fs strict kvs old"
| "dec_struct fs strict j old = Inl cannot_unmarshal"

subsection \<open>Encoding\<close>

definition enc_list :: "('a \<Rightarrow> json) \<Rightarrow> 'a list option \<Rightarrow> json" where
  "enc_list enc xs = (case xs of None \<Rightarrow> JNull | Some ys \<Rightarrow> JArr (map enc ys))"

definition enc_ptr :: "('a \<Rightarrow> json) \<Rightarrow> 'a option \<Rightarrow> json" where
  "enc_ptr enc p = (case p of None \<Rightarrow> JNull | Some x \<Rightarrow> enc x)"

text \<open>The members of fields with \<open>omitempty\<close>.\<close>

definition omit_string :: "string \<Rightarrow> string \<Rightarrow> (string \<times> json) list" where
  "omit_string k s = (if s = [] then [] else [(k, JStr s)])"

definition omit_raw :: "string \<Rightarrow> json option \<Rightarrow> (string \<times> json) list" where
  "omit_raw k raw = (case raw of None \<Rightarrow> [] | Some j \<Rightarrow> [(k, j)])"

subsection \<open>Text\<close>

text \<open>
  The compact form that \<open>Marshal\<close> writes, \<open>Unmarshal\<close> (which refuses anything after the value) and
  the first value that a \<open>Decoder\<close> reads.
\<close>

record json_text =
  print :: "json \<Rightarrow> bytes"
  scan_all :: "bytes \<Rightarrow> json result"
  scan_first :: "bytes \<Rightarrow> json result"

locale json_laws =
  fixes tx :: json_text
  assumes scan_all_print: "valid_document j \<Longrightarrow> scan_all tx (print tx j) = Inr j"
    and scan_first_print: "valid_document j \<Longrightarrow> scan_first tx (print tx j) = Inr j"
    and print_line: "valid_document j \<Longrightarrow> print tx j \<noteq> [] \<and> newline \<notin> set (print tx j)"

definition Unmarshal :: "json_text \<Rightarrow> 'a decoder \<Rightarrow> 'a \<Rightarrow> bytes \<Rightarrow> 'a result" where
  "Unmarshal tx dcd zero data = (case scan_all tx data of Inl err \<Rightarrow> Inl err | Inr j \<Rightarrow> dcd False j zero)"

subsection \<open>Codecs\<close>

text \<open>
  What a pair of an encoder and a decoder promises: reading back what was written gives the value,
  up to \<open>norm\<close>, into a zero variable and whether or not unknown fields are allowed.
\<close>

locale json_codec =
  fixes enc :: "'a \<Rightarrow> json" and dcd :: "'a decoder" and zero :: 'a and norm :: "'a \<Rightarrow> 'a"
  assumes decode_encode: "dcd strict (enc x) zero = Inr (norm x)"
    and encode_not_null: "enc x \<noteq> JNull"
begin

lemma dec_elems_encode: "dec_elems dcd zero strict (map enc xs) [] = Inr (map norm xs)"
  by (induction xs) (simp_all add: decode_encode)

lemma list_round_trip:
  "dec_list dcd zero strict (enc_list enc xs) None = Inr (map_option (map norm) xs)"
  by (cases xs) (simp_all add: enc_list_def dec_elems_encode)

lemma ptr_round_trip:
  "dec_ptr dcd zero strict (enc_ptr enc p) None = Inr (map_option norm p)"
proof (cases p)
  case (Some x)
  have "dec_ptr dcd zero strict (enc x) None = map_sum id Some (dcd strict (enc x) zero)"
    using encode_not_null [of x] by (cases "enc x") simp_all
  then show ?thesis by (simp add: Some enc_ptr_def decode_encode)
qed (simp add: enc_ptr_def)

lemma Unmarshal_print:
  assumes "json_laws tx" "valid_document (enc x)"
  shows "Unmarshal tx dcd zero (print tx (enc x)) = Inr (norm x)"
  using json_laws.scan_all_print [OF assms] by (simp add: Unmarshal_def decode_encode)

end

text \<open>Reading the members that an encoder wrote, one after the other.\<close>

lemma find_key_exact [simp]: "k \<in> set ks \<Longrightarrow> find_key ks k = Some k"
  by (simp add: find_key_def)

lemma dec_members_put:
  assumes "map_of fs k = Some put" "put strict j r = Inr r'"
  shows "dec_members fs strict ((k, j) # kvs) r = dec_members fs strict kvs r'"
proof -
  have "k \<in> set (map fst fs)" using assms(1) by (metis domI dom_map_of_conv_image_fst list.set_map)
  then show ?thesis using assms by simp
qed

lemma dec_members_string:
  assumes "map_of fs k = Some (fld dec_string get upd)"
  shows "dec_members fs strict ((k, JStr s) # kvs) r = dec_members fs strict kvs (upd (\<lambda>_. s) r)"
  by (rule dec_members_put [OF assms]) (simp add: fld_def)

lemma dec_members_bool:
  assumes "map_of fs k = Some (fld dec_bool get upd)"
  shows "dec_members fs strict ((k, JBool b) # kvs) r = dec_members fs strict kvs (upd (\<lambda>_. b) r)"
  by (rule dec_members_put [OF assms]) (simp add: fld_def)

lemma dec_members_fails:
  assumes "map_of fs k = Some put" "put strict j r = Inl err"
  shows "dec_members fs strict ((k, j) # kvs) r = Inl err"
proof -
  have "k \<in> set (map fst fs)" using assms(1) by (metis domI dom_map_of_conv_image_fst list.set_map)
  then show ?thesis using assms by simp
qed

lemma dec_members_decoded:
  assumes "map_of fs k = Some (fld dcd get upd)" "dcd strict j (get r) = Inr x"
  shows "dec_members fs strict ((k, j) # kvs) r = dec_members fs strict kvs (upd (\<lambda>_. x) r)"
  by (rule dec_members_put [OF assms(1)]) (simp add: fld_def assms(2))

lemma dec_members_omit_string:
  assumes "map_of fs k = Some (fld dec_string get upd)" "upd (\<lambda>_. '''') r = r"
  shows "dec_members fs strict (omit_string k s @ kvs) r = dec_members fs strict kvs (upd (\<lambda>_. s) r)"
  using assms(2) by (simp add: omit_string_def dec_members_string [OF assms(1)] del: dec_members.simps)

lemma dec_members_omit_raw:
  assumes "map_of fs k = Some (fld dec_raw get upd)" "upd (\<lambda>_. None) r = r"
  shows "dec_members fs strict (omit_raw k raw @ kvs) r = dec_members fs strict kvs (upd (\<lambda>_. raw) r)"
  using assms(2) dec_members_put [OF assms(1)]
  by (cases raw) (simp_all add: omit_raw_def fld_def dec_raw_def del: dec_members.simps)

lemmas dec_members_last =
  dec_members_omit_string [where kvs = "[]", unfolded append_Nil2 dec_members.simps(1)]
  dec_members_omit_raw [where kvs = "[]", unfolded append_Nil2 dec_members.simps(1)]

lemmas read_members =
  dec_members_string dec_members_bool dec_members_omit_string dec_members_omit_raw dec_members_last

context json_codec
begin

lemma read_value:
  assumes "map_of fs k = Some (fld dcd get upd)" "get r = zero"
  shows "dec_members fs strict ((k, enc x) # kvs) r = dec_members fs strict kvs (upd (\<lambda>_. norm x) r)"
  by (rule dec_members_put [OF assms(1)]) (simp add: fld_def assms(2) decode_encode)

lemma read_list:
  assumes "map_of fs k = Some (fld (dec_list dcd zero) get upd)" "get r = None"
  shows "dec_members fs strict ((k, enc_list enc xs) # kvs) r =
    dec_members fs strict kvs (upd (\<lambda>_. map_option (map norm) xs) r)"
  by (rule dec_members_put [OF assms(1)]) (simp add: fld_def assms(2) list_round_trip)

lemma read_ptr:
  assumes "map_of fs k = Some (fld (dec_ptr dcd zero) get upd)" "get r = None"
  shows "dec_members fs strict ((k, enc_ptr enc p) # kvs) r =
    dec_members fs strict kvs (upd (\<lambda>_. map_option norm p) r)"
  by (rule dec_members_put [OF assms(1)]) (simp add: fld_def assms(2) ptr_round_trip)

end

interpretation string_codec: json_codec JStr dec_string "''''" "\<lambda>s. s"
  by unfold_locales simp_all

subsection \<open>A concrete text form\<close>

text \<open>
  An instance of the laws: values in postfix order, read by a machine with a stack.  Within
  strings, the quote, the escape character and the newline are escaped.
\<close>

definition demo_esc :: "char \<Rightarrow> bytes" where
  "demo_esc c = (if c = newline then ''%n'' else if c = CHR 0x22 then ''%q'' else if c = CHR ''%'' then ''%%'' else [c])"

definition demo_quote :: "char \<Rightarrow> string \<Rightarrow> bytes" where
  "demo_quote kind s = kind # concat (map demo_esc s) @ [CHR 0x22]"

fun demo_print :: "json \<Rightarrow> bytes" where
  "demo_print JNull = ''n''"
| "demo_print (JBool b) = (if b then ''t'' else ''f'')"
| "demo_print (JNum s) = demo_quote (CHR ''#'') s"
| "demo_print (JStr s) = demo_quote (CHR ''s'') s"
| "demo_print (JArr js) = ''['' @ concat (map demo_print js) @ '']''"
| "demo_print (JObj kvs) = ''['' @ concat (map (\<lambda>(k, v). demo_quote (CHR ''k'') k @ demo_print v) kvs) @ ''}''"

datatype demo_item = Mark | Item json | Key string

fun demo_items :: "json list \<Rightarrow> demo_item list \<Rightarrow> (json list \<times> demo_item list) option" where
  "demo_items js (Item j # st) = demo_items (j # js) st"
| "demo_items js (Mark # st) = Some (js, st)"
| "demo_items js _ = None"

fun demo_members :: "(string \<times> json) list \<Rightarrow> demo_item list \<Rightarrow> ((string \<times> json) list \<times> demo_item list) option" where
  "demo_members kvs (Item j # Key k # st) = demo_members ((k, j) # kvs) st"
| "demo_members kvs (Mark # st) = Some (kvs, st)"
| "demo_members kvs _ = None"

definition demo_push :: "char \<Rightarrow> string \<Rightarrow> demo_item" where
  "demo_push kind s = (if kind = CHR ''k'' then Key s else if kind = CHR ''#'' then Item (JNum s) else Item (JStr s))"

definition demo_char :: "char \<Rightarrow> char \<times> string \<times> bool \<Rightarrow> demo_item list \<Rightarrow>
    (char \<times> string \<times> bool) option \<times> demo_item list" where
  "demo_char c m st =
     (case m of (kind, acc, escaped) \<Rightarrow>
        if escaped then
          (Some (kind, acc @ [if c = CHR ''n'' then newline else if c = CHR ''q'' then CHR 0x22 else c], False), st)
        else if c = CHR ''%'' then (Some (kind, acc, True), st)
        else if c = CHR 0x22 then (None, demo_push kind acc # st)
        else (Some (kind, acc @ [c], False), st))"

definition demo_value :: "char \<Rightarrow> demo_item list \<Rightarrow> ((char \<times> string \<times> bool) option \<times> demo_item list) option" where
  "demo_value c st =
     (if c = CHR ''n'' then Some (None, Item JNull # st)
      else if c = CHR ''t'' then Some (None, Item (JBool True) # st)
      else if c = CHR ''f'' then Some (None, Item (JBool False) # st)
      else if c = CHR ''['' then Some (None, Mark # st)
      else if c = CHR '']'' then map_option (\<lambda>(js, st'). (None, Item (JArr js) # st')) (demo_items [] st)
      else if c = CHR ''}'' then map_option (\<lambda>(kvs, st'). (None, Item (JObj kvs) # st')) (demo_members [] st)
      else if c = CHR ''#'' \<or> c = CHR ''s'' \<or> c = CHR ''k'' then Some (Some (c, [], False), st)
      else None)"

primrec demo_run :: "bytes \<Rightarrow> (char \<times> string \<times> bool) option \<Rightarrow> demo_item list \<Rightarrow> demo_item list option" where
  "demo_run [] m st = (if m = None then Some st else None)"
| "demo_run (c # cs) m st =
     (case (case m of None \<Rightarrow> demo_value c st | Some m' \<Rightarrow> Some (demo_char c m' st)) of
        None \<Rightarrow> None
      | Some (m', st') \<Rightarrow> demo_run cs m' st')"

definition demo_scan :: "bytes \<Rightarrow> json result" where
  "demo_scan data = (case demo_run data None [] of Some [Item j] \<Rightarrow> Inr j | _ \<Rightarrow> Inl (Fail ''invalid JSON''))"

definition demo_text :: json_text where
  "demo_text = \<lparr>print = demo_print, scan_all = demo_scan, scan_first = demo_scan\<rparr>"

lemma demo_run_string:
  "demo_run (concat (map demo_esc s) @ CHR 0x22 # cs) (Some (kind, acc, False)) st =
    demo_run cs None (demo_push kind (acc @ s) # st)"
  by (induction s arbitrary: acc) (simp_all add: demo_esc_def demo_char_def)

lemma demo_run_quote:
  assumes "kind \<in> {CHR ''#'', CHR ''s'', CHR ''k''}"
  shows "demo_run (demo_quote kind s @ cs) None st = demo_run cs None (demo_push kind s # st)"
  using assms demo_run_string [of s cs kind "[]" st] by (auto simp: demo_quote_def demo_value_def)

lemma demo_items_rev: "demo_items js (rev (map Item xs) @ Mark # st) = Some (xs @ js, st)"
  by (induction xs arbitrary: js rule: rev_induct) simp_all

lemma demo_members_rev:
  "demo_members kvs (concat (map (\<lambda>(k, v). [Item v, Key k]) (rev xs)) @ Mark # st) = Some (xs @ kvs, st)"
  by (induction xs arbitrary: kvs rule: rev_induct) auto

lemma demo_run_print: "demo_run (demo_print j @ cs) None st = demo_run cs None (Item j # st)"
proof (induction j arbitrary: cs st)
  case (JArr js)
  have "demo_run (concat (map demo_print xs) @ cs) None st = demo_run cs None (rev (map Item xs) @ st)"
    if "set xs \<subseteq> set js" for xs cs st
    using that by (induction xs arbitrary: st) (simp_all add: JArr.IH)
  from this [of js "CHR '']'' # cs" "Mark # st"] demo_items_rev [of "[]" js st] show ?case by (simp add: demo_value_def)
next
  case (JObj kvs)
  have step: "demo_run (demo_quote (CHR ''k'') k @ demo_print v @ cs) None st = demo_run cs None (Item v # Key k # st)"
    if "(k, v) \<in> set kvs" for k v cs st
    using JObj.IH [OF that, of v] demo_run_quote [of "CHR ''k''" k "demo_print v @ cs" st]
    by (simp add: demo_push_def)
  have "demo_run (concat (map (\<lambda>(k, v). demo_quote (CHR ''k'') k @ demo_print v) xs) @ cs) None st =
      demo_run cs None (concat (map (\<lambda>(k, v). [Item v, Key k]) (rev xs)) @ st)"
    if "set xs \<subseteq> set kvs" for xs cs st
    using that by (induction xs arbitrary: st) (auto simp: step)
  from this [of kvs "CHR ''}'' # cs" "Mark # st"] demo_members_rev [of "[]" kvs st] show ?case by (simp add: demo_value_def)
qed (simp_all add: demo_run_quote demo_push_def demo_value_def)

lemma demo_line: "demo_print j \<noteq> [] \<and> newline \<notin> set (demo_print j)"
proof -
  have quote: "newline \<notin> set (demo_quote kind s)" if "kind \<noteq> newline" for kind s
    using that by (auto simp: demo_quote_def demo_esc_def split: if_splits)
  have "newline \<notin> set (demo_print j)"
    by (induction j) (auto simp: quote)
  then show ?thesis by (cases j) (simp_all add: demo_quote_def)
qed

interpretation demo_json: json_laws demo_text
  using demo_run_print [of _ "[]" "[]"]
  by unfold_locales (simp_all add: demo_text_def demo_scan_def demo_line)

end
