(* ===== verification/Types.thy ===== *)
theory Types
  imports Json
begin

section \<open>The RPC data types\<close>

text \<open>
  \<open>evm-ingestion/rpc/types.go\<close>: the structs of blocks, transactions, receipts, logs and traces,
  with all their fields in order; slices and pointers may be nil (\<open>None\<close>).  Each comes with its
  zero value, the decoder and the encoder that its JSON tags describe, and the proof that
  decoding an encoded value gives it back.
\<close>

definition StrictUnmarshal :: "json_text \<Rightarrow> 'a decoder \<Rightarrow> 'a \<Rightarrow> bytes \<Rightarrow> 'a result" where
  "StrictUnmarshal tx dcd zero data =
     (case scan_first tx data of
        Inl err \<Rightarrow> Inl (Wrap ''strict unmarshal failed'' err)
      | Inr j \<Rightarrow>
          (case dcd True j zero of
             Inl err \<Rightarrow> Inl (Wrap ''strict unmarshal failed'' err)
           | Inr v \<Rightarrow> Inr v))"

subsection \<open>Transactions and blocks\<close>

record Transaction =
  tx_Hash :: string
  tx_Nonce :: string
  tx_BlockHash :: string
  tx_BlockNumber :: string
  tx_TransactionIndex :: string
  tx_From :: string
  tx_To :: string
  tx_Value :: string
  tx_Gas :: string
  tx_GasPrice :: string
  tx_Input :: string
  tx_V :: string
  tx_R :: string
  tx_S :: string
  tx_YParity :: string
  tx_Type :: string
  tx_TypeHex :: string
  tx_ChainId :: string
  tx_MaxFeePerGas :: string
  tx_MaxPriorityFeePerGas :: string
  tx_AccessList :: "json option"

definition zero_Transaction :: Transaction where
  "zero_Transaction = \<lparr>tx_Hash = '''', tx_Nonce = '''', tx_BlockHash = '''', tx_BlockNumber = '''',
     tx_TransactionIndex = '''', tx_From = '''', tx_To = '''', tx_Value = '''',
     tx_Gas = '''', tx_GasPrice = '''', tx_Input = '''', tx_V = '''', tx_R = '''',
     tx_S = '''', tx_YParity = '''', tx_Type = '''', tx_TypeHex = '''', tx_ChainId = '''',
     tx_MaxFeePerGas = '''', tx_MaxPriorityFeePerGas = '''', tx_AccessList = None\<rparr>"

definition Transaction_fields :: "Transaction fields" where
  "Transaction_fields =
    [(''hash'', fld dec_string tx_Hash tx_Hash_update),
     (''nonce'', fld dec_string tx_Nonce tx_Nonce_update),
     (''blockHash'', fld dec_string tx_BlockHash tx_BlockHash_update),
     (''blockNumber'', fld dec_string tx_BlockNumber tx_BlockNumber_update),
     (''transactionIndex'', fld dec_string tx_TransactionIndex tx_TransactionIndex_update),
     (''from'', fld dec_string tx_From tx_From_update),
     (''to'', fld dec_string tx_To tx_To_update),
     (''value'', fld dec_string tx_Value tx_Value_update),
     (''gas'', fld dec_string tx_Gas tx_Gas_update),
     (''gasPrice'', fld dec_string tx_GasPrice tx_GasPrice_update),
     (''input'', fld dec_string tx_Input tx_Input_update),
     (''v'', fld dec_string tx_V tx_V_update),
     (''r'', fld dec_string tx_R tx_R_update),
     (''s'', fld dec_string tx_S tx_S_update),
     (''yParity'', fld dec_string tx_YParity tx_YParity_update),
     (''type'', fld dec_string tx_Type tx_Type_update),
     (''typeHex'', fld dec_string tx_TypeHex tx_TypeHex_update),
     (''chainId'', fld dec_string tx_ChainId tx_ChainId_update),
     (''maxFeePerGas'', fld dec_string tx_MaxFeePerGas tx_MaxFeePerGas_update),
     (''maxPriorityFeePerGas'', fld dec_string tx_MaxPriorityFeePerGas tx_MaxPriorityFeePerGas_update),
     (''accessList'', fld dec_raw tx_AccessList tx_AccessList_update)]"

lemma Transaction_lookup:
  "map_of Transaction_fields ''hash'' = Some (fld dec_string tx_Hash tx_Hash_update)"
  "map_of Transaction_fields ''nonce'' = Some (fld dec_string tx_Nonce tx_Nonce_update)"
  "map_of Transaction_fields ''blockHash'' = Some (fld dec_string tx_BlockHash tx_BlockHash_update)"
  "map_of Transaction_fields ''blockNumber'' = Some (fld dec_string tx_BlockNumber tx_BlockNumber_update)"
  "map_of Transaction_fields ''transactionIndex'' = Some (fld dec_string tx_TransactionIndex tx_TransactionIndex_update)"
  "map_of Transaction_fields ''from'' = Some (fld dec_string tx_From tx_From_update)"
  "map_of Transaction_fields ''to'' = Some (fld dec_string tx_To tx_To_update)"
  "map_of Transaction_fields ''value'' = Some (fld dec_string tx_Value tx_Value_update)"
  "map_of Transaction_fields ''gas'' = Some (fld dec_string tx_Gas tx_Gas_update)"
  "map_of Transaction_fields ''gasPrice'' = Some (fld dec_string tx_GasPrice tx_GasPrice_update)"
  "map_of Transaction_fields ''input'' = Some (fld dec_string tx_Input tx_Input_update)"
  "map_of Transaction_fields ''v'' = Some (fld dec_string tx_V tx_V_update)"
  "map_of Transaction_fields ''r'' = Some (fld dec_string tx_R tx_R_update)"
  "map_of Transaction_fields ''s'' = Some (fld dec_string tx_S tx_S_update)"
  "map_of Transaction_fields ''yParity'' = Some (fld dec_string tx_YParity tx_YParity_update)"
  "map_of Transaction_fields ''type'' = Some (fld dec_string tx_Type tx_Type_update)"
  "map_of Transaction_fields ''typeHex'' = Some (fld dec_string tx_TypeHex tx_TypeHex_update)"
  "map_of Transaction_fields ''chainId'' = Some (fld dec_string tx_ChainId tx_ChainId_update)"
  "map_of Transaction_fields ''maxFeePerGas'' = Some (fld dec_string tx_MaxFeePerGas tx_MaxFeePerGas_update)"
  "map_of Transaction_fields ''maxPriorityFeePerGas'' = Some (fld dec_string tx_MaxPriorityFeePerGas tx_MaxPriorityFeePerGas_update)"
  "map_of Transaction_fields ''accessList'' = Some (fld dec_raw tx_AccessList tx_AccessList_update)"
  by (simp_all add: Transaction_fields_def)

definition dec_Transaction :: "Transaction decoder" where "dec_Transaction = dec_struct Transaction_fields"

definition enc_Transaction :: "Transaction \<Rightarrow> json" where
  "enc_Transaction t = JObj
    ((''hash'', JStr (tx_Hash t)) #
     (''nonce'', JStr (tx_Nonce t)) #
     (''blockHash'', JStr (tx_BlockHash t)) #
     (''blockNumber'', JStr (tx_BlockNumber t)) #
     (''transactionIndex'', JStr (tx_TransactionIndex t)) #
     (''from'', JStr (tx_From t)) #
     (''to'', JStr (tx_To t)) #
     (''value'', JStr (tx_Value t)) #
     (''gas'', JStr (tx_Gas t)) #
     (''gasPrice'', JStr (tx_GasPrice t)) #
     (''input'', JStr (tx_Input t)) #
     omit_string ''v'' (tx_V t) @
     omit_string ''r'' (tx_R t) @
     omit_string ''s'' (tx_S t) @
     omit_string ''yParity'' (tx_YParity t) @
     omit_string ''type'' (tx_Type t) @
     omit_string ''typeHex'' (tx_TypeHex t) @
     omit_string ''chainId'' (tx_ChainId t) @
     omit_string ''maxFeePerGas'' (tx_MaxFeePerGas t) @
     omit_string ''maxPriorityFeePerGas'' (tx_MaxPriorityFeePerGas t) @
     omit_raw ''accessList'' (tx_AccessList t) @
     [])"

lemma Transaction_round_trip: "dec_Transaction strict (enc_Transaction x) zero_Transaction = Inr x"
  by (simp add: dec_Transaction_def enc_Transaction_def Transaction_lookup zero_Transaction_def read_members
      string_codec.read_list string_codec.read_ptr  option.map_ident del: dec_members.simps(2))

interpretation Transaction_codec: json_codec enc_Transaction dec_Transaction zero_Transaction "\<lambda>x. x"
  by unfold_locales (rule Transaction_round_trip, simp add: enc_Transaction_def)

record RpcBlock =
  blk_Number :: string
  blk_Hash :: string
  blk_ParentHash :: string
  blk_Timestamp :: string
  blk_Miner :: string
  blk_Difficulty :: string
  blk_TotalDifficulty :: string
  blk_Size :: string
  blk_GasLimit :: string
  blk_GasUsed :: string
  blk_BaseFeePerGas :: string
  blk_BlockGasCost :: string
  blk_Transactions :: "Transaction list option"
  blk_StateRoot :: string
  blk_TransactionsRoot :: string
  blk_ReceiptsRoot :: string
  blk_ExtraData :: string
  blk_BlockExtraData :: string
  blk_ExtDataHash :: string
  blk_ExtDataGasUsed :: string
  blk_LogsBloom :: string
  blk_MixHash :: string
  blk_Nonce :: string
  blk_Sha3Uncles :: string
  blk_Uncles :: "string list option"
  blk_BlobGasUsed :: string
  blk_ExcessBlobGas :: string
  blk_ParentBeaconBlockRoot :: string
  blk_MinDelayExcess :: string
  blk_TimestampMilliseconds :: string

definition zero_Block :: RpcBlock where
  "zero_Block = \<lparr>blk_Number = '''', blk_Hash = '''', blk_ParentHash = '''', blk_Timestamp = '''',
     blk_Miner = '''', blk_Difficulty = '''', blk_TotalDifficulty = '''', blk_Size = '''',
     blk_GasLimit = '''', blk_GasUsed = '''', blk_BaseFeePerGas = '''',
     blk_BlockGasCost = '''', blk_Transactions = None, blk_StateRoot = '''',
     blk_TransactionsRoot = '''', blk_ReceiptsRoot = '''', blk_ExtraData = '''',
     blk_BlockExtraData = '''', blk_ExtDataHash = '''', blk_ExtDataGasUsed = '''',
     blk_LogsBloom = '''', blk_MixHash = '''', blk_Nonce = '''', blk_Sha3Uncles = '''',
     blk_Uncles = None, blk_BlobGasUsed = '''', blk_ExcessBlobGas = '''',
     blk_ParentBeaconBlockRoot = '''', blk_MinDelayExcess = '''',
     blk_TimestampMilliseconds = ''''\<rparr>"

definition Block_fields :: "RpcBlock fields" where
  "Block_fields =
    [(''number'', fld dec_string blk_Number blk_Number_update),
     (''hash'', fld dec_string blk_Hash blk_Hash_update),
     (''parentHash'', fld dec_string blk_ParentHash blk_ParentHash_update),
     (''timestamp'', fld dec_string blk_Timestamp blk_Timestamp_update),
     (''miner'', fld dec_string blk_Miner blk_Miner_update),
     (''difficulty'', fld dec_string blk_Difficulty blk_Difficulty_update),
     (''totalDifficulty'', fld dec_string blk_TotalDifficulty blk_TotalDifficulty_update),
     (''size'', fld dec_string blk_Size blk_Size_update),
     (''gasLimit'', fld dec_string blk_GasLimit blk_GasLimit_update),
     (''gasUsed'', fld dec_string blk_GasUsed blk_GasUsed_update),
     (''baseFeePerGas'', fld dec_string blk_BaseFeePerGas blk_BaseFeePerGas_update),
     (''blockGasCost'', fld dec_string blk_BlockGasCost blk_BlockGasCost_update),
     (''transactions'', fld (dec_list dec_Transaction zero_Transaction) blk_Transactions blk_Transactions_update),
     (''stateRoot'', fld dec_string blk_StateRoot blk_StateRoot_update),
     (''transactionsRoot'', fld dec_string blk_TransactionsRoot blk_TransactionsRoot_update),
     (''receiptsRoot'', fld dec_string blk_ReceiptsRoot blk_ReceiptsRoot_update),
     (''extraData'', fld dec_string blk_ExtraData blk_ExtraData_update),
     (''blockExtraData'', fld dec_string blk_BlockExtraData blk_BlockExtraData_update),
     (''extDataHash'', fld dec_string blk_ExtDataHash blk_ExtDataHash_update),
     (''extDataGasUsed'', fld dec_string blk_ExtDataGasUsed blk_ExtDataGasUsed_update),
     (''logsBloom'', fld dec_string blk_LogsBloom blk_LogsBloom_update),
     (''mixHash'', fld dec_string blk_MixHash blk_MixHash_update),
     (''nonce'', fld dec_string blk_Nonce blk_Nonce_update),
     (''sha3Uncles'', fld dec_string blk_Sha3Uncles blk_Sha3Uncles_update),
     (''uncles'', fld (dec_list dec_string '''') blk_Uncles blk_Uncles_update),
     (''blobGasUsed'', fld dec_string blk_BlobGasUsed blk_BlobGasUsed_update),
     (''excessBlobGas'', fld dec_string blk_ExcessBlobGas blk_ExcessBlobGas_update),
     (''parentBeaconBlockRoot'', fld dec_string blk_ParentBeaconBlockRoot blk_ParentBeaconBlockRoot_update),
     (''minDelayExcess'', fld dec_string blk_MinDelayExcess blk_MinDelayExcess_update),
     (''timestampMilliseconds'', fld dec_string blk_TimestampMilliseconds blk_TimestampMilliseconds_update)]"

lemma Block_lookup:
  "map_of Block_fields ''number'' = Some (fld dec_string blk_Number blk_Number_update)"
  "map_of Block_fields ''hash'' = Some (fld dec_string blk_Hash blk_Hash_update)"
  "map_of Block_fields ''parentHash'' = Some (fld dec_string blk_ParentHash blk_ParentHash_update)"
  "map_of Block_fields ''timestamp'' = Some (fld dec_string blk_Timestamp blk_Timestamp_update)"
  "map_of Block_fields ''miner'' = Some (fld dec_string blk_Miner blk_Miner_update)"
  "map_of Block_fields ''difficulty'' = Some (fld dec_string blk_Difficulty blk_Difficulty_update)"
  "map_of Block_fields ''totalDifficulty'' = Some (fld dec_string blk_TotalDifficulty blk_TotalDifficulty_update)"
  "map_of Block_fields ''size'' = Some (fld dec_string blk_Size blk_Size_update)"
  "map_of Block_fields ''gasLimit'' = Some (fld dec_string blk_GasLimit blk_GasLimit_update)"
  "map_of Block_fields ''gasUsed'' = Some (fld dec_string blk_GasUsed blk_GasUsed_update)"
  "map_of Block_fields ''baseFeePerGas'' = Some (fld dec_string blk_BaseFeePerGas blk_BaseFeePerGas_update)"
  "map_of Block_fields ''blockGasCost'' = Some (fld dec_string blk_BlockGasCost blk_BlockGasCost_update)"
  "map_of Block_fields ''transactions'' = Some (fld (dec_list dec_Transaction zero_Transaction) blk_Transactions blk_Transactions_update)"
  "map_of Block_fields ''stateRoot'' = Some (fld dec_string blk_StateRoot blk_StateRoot_update)"
  "map_of Block_fields ''transactionsRoot'' = Some (fld dec_string blk_TransactionsRoot blk_TransactionsRoot_update)"
  "map_of Block_fields ''receiptsRoot'' = Some (fld dec_string blk_ReceiptsRoot blk_ReceiptsRoot_update)"
  "map_of Block_fields ''extraData'' = Some (fld dec_string blk_ExtraData blk_ExtraData_update)"
  "map_of Block_fields ''blockExtraData'' = Some (fld dec_string blk_BlockExtraData blk_BlockExtraData_update)"
  "map_of Block_fields ''extDataHash'' = Some (fld dec_string blk_ExtDataHash blk_ExtDataHash_update)"
  "map_of Block_fields ''extDataGasUsed'' = Some (fld dec_string blk_ExtDataGasUsed blk_ExtDataGasUsed_update)"
  "map_of Block_fields ''logsBloom'' = Some (fld dec_string blk_LogsBloom blk_LogsBloom_update)"
  "map_of Block_fields ''mixHash'' = Some (fld dec_string blk_MixHash blk_MixHash_update)"
  "map_of Block_fields ''nonce'' = Some (fld dec_string blk_Nonce blk_Nonce_update)"
  "map_of Block_fields ''sha3Uncles'' = Some (fld dec_string blk_Sha3Uncles blk_Sha3Uncles_update)"
  "map_of Block_fields ''uncles'' = Some (fld (dec_list dec_string '''') blk_Uncles blk_Uncles_update)"
  "map_of Block_fields ''blobGasUsed'' = Some (fld dec_string blk_BlobGasUsed blk_BlobGasUsed_update)"
  "map_of Block_fields ''excessBlobGas'' = Some (fld dec_string blk_ExcessBlobGas blk_ExcessBlobGas_update)"
  "map_of Block_fields ''parentBeaconBlockRoot'' = Some (fld dec_string blk_ParentBeaconBlockRoot blk_ParentBeaconBlockRoot_update)"
  "map_of Block_fields ''minDelayExcess'' = Some (fld dec_string blk_MinDelayExcess blk_MinDelayExcess_update)"
  "map_of Block_fields ''timestampMilliseconds'' = Some (fld dec_string blk_TimestampMilliseconds blk_TimestampMilliseconds_update)"
  by (simp_all add: Block_fields_def)

definition dec_Block :: "RpcBlock decoder" where "dec_Block = dec_struct Block_fields"

definition enc_Block :: "RpcBlock \<Rightarrow> json" where
  "enc_Block b = JObj
    ((''number'', JStr (blk_Number b)) #
     (''hash'', JStr (blk_Hash b)) #
     (''parentHash'', JStr (blk_ParentHash b)) #
     (''timestamp'', JStr (blk_Timestamp b)) #
     (''miner'', JStr (blk_Miner b)) #
     (''difficulty'', JStr (blk_Difficulty b)) #
     (''totalDifficulty'', JStr (blk_TotalDifficulty b)) #
     (''size'', JStr (blk_Size b)) #
     (''gasLimit'', JStr (blk_GasLimit b)) #
     (''gasUsed'', JStr (blk_GasUsed b)) #
     omit_string ''baseFeePerGas'' (blk_BaseFeePerGas b) @
     omit_string ''blockGasCost'' (blk_BlockGasCost b) @
     (''transactions'', enc_list enc_Transaction (blk_Transactions b)) #
     (''stateRoot'', JStr (blk_StateRoot b)) #
     (''transactionsRoot'', JStr (blk_TransactionsRoot b)) #
     (''receiptsRoot'', JStr (blk_ReceiptsRoot b)) #
     omit_string ''extraData'' (blk_ExtraData b) @
     omit_string ''blockExtraData'' (blk_BlockExtraData b) @
     omit_string ''extDataHash'' (blk_ExtDataHash b) @
     omit_string ''extDataGasUsed'' (blk_ExtDataGasUsed b) @
     (''logsBloom'', JStr (blk_LogsBloom b)) #
     (''mixHash'', JStr (blk_MixHash b)) #
     (''nonce'', JStr (blk_Nonce b)) #
     (''sha3Uncles'', JStr (blk_Sha3Uncles b)) #
     (''uncles'', enc_list JStr (blk_Uncles b)) #
     omit_string ''blobGasUsed'' (blk_BlobGasUsed b) @
     omit_string ''excessBlobGas'' (blk_ExcessBlobGas b) @
     omit_string ''parentBeaconBlockRoot'' (blk_ParentBeaconBlockRoot b) @
     omit_string ''minDelayExcess'' (blk_MinDelayExcess b) @
     omit_string ''timestampMilliseconds'' (blk_TimestampMilliseconds b) @
     [])"

lemma Block_round_trip: "dec_Block strict (enc_Block x) zero_Block = Inr x"
  by (simp add: dec_Block_def enc_Block_def Block_lookup zero_Block_def read_members
      string_codec.read_list string_codec.read_ptr Transaction_codec.read_list option.map_ident del: dec_members.simps(2))

interpretation Block_codec: json_codec enc_Block dec_Block zero_Block "\<lambda>x. x"
  by unfold_locales (rule Block_round_trip, simp add: enc_Block_def)

subsection \<open>Receipts\<close>

record Log =
  lg_Address :: string
  lg_Topics :: "string list option"
  lg_Data :: string
  lg_BlockNumber :: string
  lg_TransactionHash :: string
  lg_TransactionIndex :: string
  lg_BlockHash :: string
  lg_LogIndex :: string
  lg_Removed :: bool

definition zero_Log :: Log where
  "zero_Log = \<lparr>lg_Address = '''', lg_Topics = None, lg_Data = '''', lg_BlockNumber = '''',
     lg_TransactionHash = '''', lg_TransactionIndex = '''', lg_BlockHash = '''',
     lg_LogIndex = '''', lg_Removed = False\<rparr>"

definition Log_fields :: "Log fields" where
  "Log_fields =
    [(''address'', fld dec_string lg_Address lg_Address_update),
     (''topics'', fld (dec_list dec_string '''') lg_Topics lg_Topics_update),
     (''data'', fld dec_string lg_Data lg_Data_update),
     (''blockNumber'', fld dec_string lg_BlockNumber lg_BlockNumber_update),
     (''transactionHash'', fld dec_string lg_TransactionHash lg_TransactionHash_update),
     (''transactionIndex'', fld dec_string lg_TransactionIndex lg_TransactionIndex_update),
     (''blockHash'', fld dec_string lg_BlockHash lg_BlockHash_update),
     (''logIndex'', fld dec_string lg_LogIndex lg_LogIndex_update),
     (''removed'', fld dec_bool lg_Removed lg_Removed_update)]"

lemma Log_lookup:
  "map_of Log_fields ''address'' = Some (fld dec_string lg_Address lg_Address_update)"
  "map_of Log_fields ''topics'' = Some (fld (dec_list dec_string '''') lg_Topics lg_Topics_update)"
  "map_of Log_fields ''data'' = Some (fld dec_string lg_Data lg_Data_update)"
  "map_of Log_fields ''blockNumber'' = Some (fld dec_string lg_BlockNumber lg_BlockNumber_update)"
  "map_of Log_fields ''transactionHash'' = Some (fld dec_string lg_TransactionHash lg_TransactionHash_update)"
  "map_of Log_fields ''transactionIndex'' = Some (fld dec_string lg_TransactionIndex lg_TransactionIndex_update)"
  "map_of Log_fields ''blockHash'' = Some (fld dec_string lg_BlockHash lg_BlockHash_update)"
  "map_of Log_fields ''logIndex'' = Some (fld dec_string lg_LogIndex lg_LogIndex_update)"
  "map_of Log_fields ''removed'' = Some (fld dec_bool lg_Removed lg_Removed_update)"
  by (simp_all add: Log_fields_def)

definition dec_Log :: "Log decoder" where "dec_Log = dec_struct Log_fields"

definition enc_Log :: "Log \<Rightarrow> json" where
  "enc_Log l = JObj
    ((''address'', JStr (lg_Address l)) #
     (''topics'', enc_list JStr (lg_Topics l)) #
     (''data'', JStr (lg_Data l)) #
     (''blockNumber'', JStr (lg_BlockNumber l)) #
     (''transactionHash'', JStr (lg_TransactionHash l)) #
     (''transactionIndex'', JStr (lg_TransactionIndex l)) #
     (''blockHash'', JStr (lg_BlockHash l)) #
     (''logIndex'', JStr (lg_LogIndex l)) #
     (''removed'', JBool (lg_Removed l)) #
     [])"

lemma Log_round_trip: "dec_Log strict (enc_Log x) zero_Log = Inr x"
  by (simp add: dec_Log_def enc_Log_def Log_lookup zero_Log_def read_members
      string_codec.read_list string_codec.read_ptr  option.map_ident del: dec_members.simps(2))

interpretation Log_codec: json_codec enc_Log dec_Log zero_Log "\<lambda>x. x"
  by unfold_locales (rule Log_round_trip, simp add: enc_Log_def)

record Receipt =
  rc_BlockHash :: string
  rc_BlockNumber :: string
  rc_ContractAddress :: "string option"
  rc_CumulativeGasUsed :: string
  rc_EffectiveGasPrice :: string
  rc_From :: string
  rc_GasUsed :: string
  rc_Logs :: "Log list option"
  rc_LogsBloom :: string
  rc_Status :: string
  rc_To :: string
  rc_TransactionHash :: string
  rc_TransactionIndex :: string
  rc_Type :: string

definition zero_Receipt :: Receipt where
  "zero_Receipt = \<lparr>rc_BlockHash = '''', rc_BlockNumber = '''', rc_ContractAddress = None,
     rc_CumulativeGasUsed = '''', rc_EffectiveGasPrice = '''', rc_From = '''',
     rc_GasUsed = '''', rc_Logs = None, rc_LogsBloom = '''', rc_Status = '''', rc_To = '''',
     rc_TransactionHash = '''', rc_TransactionIndex = '''', rc_Type = ''''\<rparr>"

definition Receipt_fields :: "Receipt fields" where
  "Receipt_fields =
    [(''blockHash'', fld dec_string rc_BlockHash rc_BlockHash_update),
     (''blockNumber'', fld dec_string rc_BlockNumber rc_BlockNumber_update),
     (''contractAddress'', fld (dec_ptr dec_string '''') rc_ContractAddress rc_ContractAddress_update),
     (''cumulativeGasUsed'', fld dec_string rc_CumulativeGasUsed rc_CumulativeGasUsed_update),
     (''effectiveGasPrice'', fld dec_string rc_EffectiveGasPrice rc_EffectiveGasPrice_update),
     (''from'', fld dec_string rc_From rc_From_update),
     (''gasUsed'', fld dec_string rc_GasUsed rc_GasUsed_update),
     (''logs'', fld (dec_list dec_Log zero_Log) rc_Logs rc_Logs_update),
     (''logsBloom'', fld dec_string rc_LogsBloom rc_LogsBloom_update),
     (''status'', fld dec_string rc_Status rc_Status_update),
     (''to'', fld dec_string rc_To rc_To_update),
     (''transactionHash'', fld dec_string rc_TransactionHash rc_TransactionHash_update),
     (''transactionIndex'', fld dec_string rc_TransactionIndex rc_TransactionIndex_update),
     (''type'', fld dec_string rc_Type rc_Type_update)]"

lemma Receipt_lookup:
  "map_of Receipt_fields ''blockHash'' = Some (fld dec_string rc_BlockHash rc_BlockHash_update)"
  "map_of Receipt_fields ''blockNumber'' = Some (fld dec_string rc_BlockNumber rc_BlockNumber_update)"
  "map_of Receipt_fields ''contractAddress'' = Some (fld (dec_ptr dec_string '''') rc_ContractAddress rc_ContractAddress_update)"
  "map_of Receipt_fields ''cumulativeGasUsed'' = Some (fld dec_string rc_CumulativeGasUsed rc_CumulativeGasUsed_update)"
  "map_of Receipt_fields ''effectiveGasPrice'' = Some (fld dec_string rc_EffectiveGasPrice rc_EffectiveGasPrice_update)"
  "map_of Receipt_fields ''from'' = Some (fld dec_string rc_From rc_From_update)"
  "map_of Receipt_fields ''gasUsed'' = Some (fld dec_string rc_GasUsed rc_GasUsed_update)"
  "map_of Receipt_fields ''logs'' = Some (fld (dec_list dec_Log zero_Log) rc_Logs rc_Logs_update)"
  "map_of Receipt_fields ''logsBloom'' = Some (fld dec_string rc_LogsBloom rc_LogsBloom_update)"
  "map_of Receipt_fields ''status'' = Some (fld dec_string rc_Status rc_Status_update)"
  "map_of Receipt_fields ''to'' = Some (fld dec_string rc_To rc_To_update)"
  "map_of Receipt_fields ''transactionHash'' = Some (fld dec_string rc_TransactionHash rc_TransactionHash_update)"
  "map_of Receipt_fields ''transactionIndex'' = Some (fld dec_string rc_TransactionIndex rc_TransactionIndex_update)"
  "map_of Receipt_fields ''type'' = Some (fld dec_string rc_Type rc_Type_update)"
  by (simp_all add: Receipt_fields_def)

definition dec_Receipt :: "Receipt decoder" where "dec_Receipt = dec_struct Receipt_fields"

definition enc_Receipt :: "Receipt \<Rightarrow> json" where
  "enc_Receipt r = JObj
    ((''blockHash'', JStr (rc_BlockHash r)) #
     (''blockNumber'', JStr (rc_BlockNumber r)) #
     (''contractAddress'', enc_ptr JStr (rc_ContractAddress r)) #
     (''cumulativeGasUsed'', JStr (rc_CumulativeGasUsed r)) #
     (''effectiveGasPrice'', JStr (rc_EffectiveGasPrice r)) #
     (''from'', JStr (rc_From r)) #
     (''gasUsed'', JStr (rc_GasUsed r)) #
     (''logs'', enc_list enc_Log (rc_Logs r)) #
     (''logsBloom'', JStr (rc_LogsBloom r)) #
     (''status'', JStr (rc_Status r)) #
     (''to'', JStr (rc_To r)) #
     (''transactionHash'', JStr (rc_TransactionHash r)) #
     (''transactionIndex'', JStr (rc_TransactionIndex r)) #
     (''type'', JStr (rc_Type r)) #
     [])"

lemma Receipt_round_trip: "dec_Receipt strict (enc_Receipt x) zero_Receipt = Inr x"
  by (simp add: dec_Receipt_def enc_Receipt_def Receipt_lookup zero_Receipt_def read_members
      string_codec.read_list string_codec.read_ptr Log_codec.read_list option.map_ident del: dec_members.simps(2))

interpretation Receipt_codec: json_codec enc_Receipt dec_Receipt zero_Receipt "\<lambda>x. x"
  by unfold_locales (rule Receipt_round_trip, simp add: enc_Receipt_def)

subsection \<open>Traces\<close>

text \<open>A call trace holds call traces: its strings are a record, and its calls come beside it.\<close>

record trace_frame =
  ct_From :: string
  ct_Gas :: string
  ct_GasUsed :: string
  ct_To :: string
  ct_Input :: string
  ct_Output :: string
  ct_Error :: string
  ct_RevertReason :: string
  ct_Value :: string
  ct_Type :: string

datatype CallTrace = CallTrace (frame: trace_frame) (Calls: "CallTrace list option")

definition zero_frame :: trace_frame where
  "zero_frame = \<lparr>ct_From = '''', ct_Gas = '''', ct_GasUsed = '''', ct_To = '''', ct_Input = '''',
     ct_Output = '''', ct_Error = '''', ct_RevertReason = '''', ct_Value = '''', ct_Type = ''''\<rparr>"

definition zero_CallTrace :: CallTrace where "zero_CallTrace = CallTrace zero_frame None"

definition frame_fields :: "trace_frame fields" where
  "frame_fields =
    [(''from'', fld dec_string ct_From ct_From_update),
     (''gas'', fld dec_string ct_Gas ct_Gas_update),
     (''gasUsed'', fld dec_string ct_GasUsed ct_GasUsed_update),
     (''to'', fld dec_string ct_To ct_To_update),
     (''input'', fld dec_string ct_Input ct_Input_update),
     (''output'', fld dec_string ct_Output ct_Output_update),
     (''error'', fld dec_string ct_Error ct_Error_update),
     (''revertReason'', fld dec_string ct_RevertReason ct_RevertReason_update),
     (''value'', fld dec_string ct_Value ct_Value_update),
     (''type'', fld dec_string ct_Type ct_Type_update)]"

fun dec_CallTrace :: "CallTrace decoder"
and dec_calls :: "bool \<Rightarrow> json list \<Rightarrow> CallTrace list \<Rightarrow> CallTrace list result"
and dec_trace_members :: "bool \<Rightarrow> (string \<times> json) list \<Rightarrow> CallTrace \<Rightarrow> CallTrace result" where
  "dec_CallTrace strict j old =
     (case j of
        JNull \<Rightarrow> Inr old
      | JObj kvs \<Rightarrow> dec_trace_members strict kvs old
      | _ \<Rightarrow> Inl cannot_unmarshal)"
| "dec_calls strict [] old = Inr []"
| "dec_calls strict (j # js) old =
     (case dec_CallTrace strict j (case old of [] \<Rightarrow> zero_CallTrace | c # _ \<Rightarrow> c) of
        Inl err \<Rightarrow> Inl err
      | Inr c \<Rightarrow> map_sum id ((#) c) (dec_calls strict js (tl old)))"
| "dec_trace_members strict [] c = Inr c"
| "dec_trace_members strict ((k, j) # kvs) c =
     (case find_key (''calls'' # map fst frame_fields) k of
        None \<Rightarrow> if strict then Inl unknown_field else dec_trace_members strict kvs c
      | Some key \<Rightarrow>
          if key = ''calls'' then
            (case j of
               JNull \<Rightarrow> dec_trace_members strict kvs (CallTrace (frame c) None)
             | JArr js \<Rightarrow>
                 (case dec_calls strict js (elems (Calls c)) of
                    Inl err \<Rightarrow> Inl err
                  | Inr cs \<Rightarrow> dec_trace_members strict kvs (CallTrace (frame c) (Some cs)))
             | _ \<Rightarrow> Inl cannot_unmarshal)
          else
            (case map_of frame_fields key of
               None \<Rightarrow> Inl unknown_field
             | Some put \<Rightarrow>
                 (case put strict j (frame c) of
                    Inl err \<Rightarrow> Inl err
                  | Inr fr \<Rightarrow> dec_trace_members strict kvs (CallTrace fr (Calls c)))))"

definition omit_calls :: "json list \<Rightarrow> (string \<times> json) list" where
  "omit_calls js = (if js = [] then [] else [(''calls'', JArr js)])"

fun enc_CallTrace :: "CallTrace \<Rightarrow> json" where
  "enc_CallTrace (CallTrace fr calls) = JObj
    ((''from'', JStr (ct_From fr)) #
     (''gas'', JStr (ct_Gas fr)) #
     (''gasUsed'', JStr (ct_GasUsed fr)) #
     (''to'', JStr (ct_To fr)) #
     (''input'', JStr (ct_Input fr)) #
     omit_string ''output'' (ct_Output fr) @
     omit_string ''error'' (ct_Error fr) @
     omit_string ''revertReason'' (ct_RevertReason fr) @
     omit_calls (case calls of None \<Rightarrow> [] | Some cs \<Rightarrow> map enc_CallTrace cs) @
     omit_string ''value'' (ct_Value fr) @
     (''type'', JStr (ct_Type fr)) #
     [])"

text \<open>All that is lost: an empty list of calls comes back as nil.\<close>

fun norm_CallTrace :: "CallTrace \<Rightarrow> CallTrace" where
  "norm_CallTrace (CallTrace fr calls) = CallTrace fr
     (case calls of None \<Rightarrow> None | Some cs \<Rightarrow> if cs = [] then None else Some (map norm_CallTrace cs))"

lemma frame_lookup:
  "map_of frame_fields ''from'' = Some (fld dec_string ct_From ct_From_update)"
  "map_of frame_fields ''gas'' = Some (fld dec_string ct_Gas ct_Gas_update)"
  "map_of frame_fields ''gasUsed'' = Some (fld dec_string ct_GasUsed ct_GasUsed_update)"
  "map_of frame_fields ''to'' = Some (fld dec_string ct_To ct_To_update)"
  "map_of frame_fields ''input'' = Some (fld dec_string ct_Input ct_Input_update)"
  "map_of frame_fields ''output'' = Some (fld dec_string ct_Output ct_Output_update)"
  "map_of frame_fields ''error'' = Some (fld dec_string ct_Error ct_Error_update)"
  "map_of frame_fields ''revertReason'' = Some (fld dec_string ct_RevertReason ct_RevertReason_update)"
  "map_of frame_fields ''value'' = Some (fld dec_string ct_Value ct_Value_update)"
  "map_of frame_fields ''type'' = Some (fld dec_string ct_Type ct_Type_update)"
  by (simp_all add: frame_fields_def)

lemma read_frame_string:
  assumes "map_of frame_fields k = Some (fld dec_string get upd)" "k \<noteq> ''calls''"
  shows "dec_trace_members strict ((k, JStr s) # kvs) (CallTrace fr cs) =
    dec_trace_members strict kvs (CallTrace (upd (\<lambda>_. s) fr) cs)"
proof -
  have "k \<in> set (map fst frame_fields)" using assms(1) by (metis domI dom_map_of_conv_image_fst list.set_map)
  then show ?thesis using assms by (simp add: fld_def)
qed

lemma read_frame_omit_string:
  assumes "map_of frame_fields k = Some (fld dec_string get upd)" "k \<noteq> ''calls''" "upd (\<lambda>_. '''') fr = fr"
  shows "dec_trace_members strict (omit_string k s @ kvs) (CallTrace fr cs) =
    dec_trace_members strict kvs (CallTrace (upd (\<lambda>_. s) fr) cs)"
  using assms(3) read_frame_string [OF assms(1,2)]
  by (simp add: omit_string_def del: dec_trace_members.simps)

lemma read_calls:
  assumes "dec_calls strict js [] = Inr cs"
  shows "dec_trace_members strict (omit_calls js @ kvs) (CallTrace fr None) =
    dec_trace_members strict kvs (CallTrace fr (if js = [] then None else Some cs))"
  using assms by (simp add: omit_calls_def elems_def)

lemma CallTrace_round_trip: "dec_CallTrace strict (enc_CallTrace x) zero_CallTrace = Inr (norm_CallTrace x)"
proof (induction x)
  case (CallTrace fr calls)
  let ?js = "case calls of None \<Rightarrow> [] | Some cs \<Rightarrow> map enc_CallTrace cs"
  let ?cs = "case calls of None \<Rightarrow> [] | Some cs \<Rightarrow> map norm_CallTrace cs"
  have "dec_calls strict (map enc_CallTrace cs) [] = Inr (map norm_CallTrace cs)" if "set cs \<subseteq> set (elems calls)" for cs
    using that
  proof (induction cs)
    case (Cons c cs)
    then have "dec_CallTrace strict (enc_CallTrace c) zero_CallTrace = Inr (norm_CallTrace c)"
      using CallTrace.IH by (cases calls) (auto simp: elems_def)
    with Cons show ?case by (simp del: dec_CallTrace.simps)
  qed simp
  then have calls: "dec_calls strict ?js [] = Inr ?cs" by (cases calls) (simp_all add: elems_def)
  show ?case
    by (simp add: zero_CallTrace_def zero_frame_def read_frame_string read_frame_omit_string read_calls [OF calls]
        frame_lookup del: dec_trace_members.simps(2)) (cases calls; simp)
qed

interpretation CallTrace_codec: json_codec enc_CallTrace dec_CallTrace zero_CallTrace norm_CallTrace
proof (unfold_locales, rule CallTrace_round_trip)
  show "enc_CallTrace x \<noteq> JNull" for x by (cases x) simp
qed

record TraceResultOptional =
  TxHash :: string
  trc_Result :: "CallTrace option"

definition zero_TraceResultOptional :: TraceResultOptional where
  "zero_TraceResultOptional = \<lparr>TxHash = '''', trc_Result = None\<rparr>"

definition TraceResultOptional_fields :: "TraceResultOptional fields" where
  "TraceResultOptional_fields =
    [(''txHash'', fld dec_string TxHash TxHash_update),
     (''result'', fld (dec_ptr dec_CallTrace zero_CallTrace) trc_Result trc_Result_update)]"

definition dec_TraceResultOptional :: "TraceResultOptional decoder" where
  "dec_TraceResultOptional = dec_struct TraceResultOptional_fields"

definition enc_TraceResultOptional :: "TraceResultOptional \<Rightarrow> json" where
  "enc_TraceResultOptional t = JObj
    [(''txHash'', JStr (TxHash t)),
     (''result'', enc_ptr enc_CallTrace (trc_Result t))]"

definition norm_TraceResultOptional :: "TraceResultOptional \<Rightarrow> TraceResultOptional" where
  "norm_TraceResultOptional t = t\<lparr>trc_Result := map_option norm_CallTrace (trc_Result t)\<rparr>"

lemma TraceResultOptional_round_trip:
  "dec_TraceResultOptional strict (enc_TraceResultOptional x) zero_TraceResultOptional = Inr (norm_TraceResultOptional x)"
  by (simp add: dec_TraceResultOptional_def enc_TraceResultOptional_def TraceResultOptional_fields_def
      zero_TraceResultOptional_def norm_TraceResultOptional_def read_members CallTrace_codec.read_ptr
      del: dec_members.simps(2))

interpretation TraceResultOptional_codec:
  json_codec enc_TraceResultOptional dec_TraceResultOptional zero_TraceResultOptional norm_TraceResultOptional
  by unfold_locales (rule TraceResultOptional_round_trip, simp add: enc_TraceResultOptional_def)

subsection \<open>Normalized blocks\<close>

record NormalizedBlock =
  nb_Block :: RpcBlock
  nb_Traces :: "TraceResultOptional list option"
  nb_Receipts :: "Receipt list option"

text \<open>The transactions that a loop over the block visits.\<close>

definition block_txs :: "RpcBlock \<Rightarrow> Transaction list" where
  "block_txs b = elems (blk_Transactions b)"

definition zero_NormalizedBlock :: NormalizedBlock where
  "zero_NormalizedBlock = \<lparr>nb_Block = zero_Block, nb_Traces = None, nb_Receipts = None\<rparr>"

definition NormalizedBlock_fields :: "NormalizedBlock fields" where
  "NormalizedBlock_fields =
    [(''block'', fld dec_Block nb_Block nb_Block_update),
     (''traces'', fld (dec_list dec_TraceResultOptional zero_TraceResultOptional) nb_Traces nb_Traces_update),
     (''receipts'', fld (dec_list dec_Receipt zero_Receipt) nb_Receipts nb_Receipts_update)]"

definition dec_NormalizedBlock :: "NormalizedBlock decoder" where
  "dec_NormalizedBlock = dec_struct NormalizedBlock_fields"

definition enc_NormalizedBlock :: "NormalizedBlock \<Rightarrow> json" where
  "enc_NormalizedBlock nb = JObj
    [(''block'', enc_Block (nb_Block nb)),
     (''traces'', enc_list enc_TraceResultOptional (nb_Traces nb)),
     (''receipts'', enc_list enc_Receipt (nb_Receipts nb))]"

definition norm_NormalizedBlock :: "NormalizedBlock \<Rightarrow> NormalizedBlock" where
  "norm_NormalizedBlock nb = nb\<lparr>nb_Traces := map_option (map norm_TraceResultOptional) (nb_Traces nb)\<rparr>"

lemma NormalizedBlock_round_trip:
  "dec_NormalizedBlock strict (enc_NormalizedBlock x) zero_NormalizedBlock = Inr (norm_NormalizedBlock x)"
  by (simp add: dec_NormalizedBlock_def enc_NormalizedBlock_def NormalizedBlock_fields_def
      zero_NormalizedBlock_def norm_NormalizedBlock_def Block_codec.read_value TraceResultOptional_codec.read_list
      Receipt_codec.read_list option.map_ident del: dec_members.simps(2))

interpretation NormalizedBlock_codec:
  json_codec enc_NormalizedBlock dec_NormalizedBlock zero_NormalizedBlock norm_NormalizedBlock
  by unfold_locales (rule NormalizedBlock_round_trip, simp add: enc_NormalizedBlock_def)

text \<open>The text of one value, as the fetcher decodes it.\<close>

definition unm_block :: "json_text \<Rightarrow> bytes \<Rightarrow> RpcBlock result" where
  "unm_block tx = StrictUnmarshal tx dec_Block zero_Block"

definition unm_receipt :: "json_text \<Rightarrow> bytes \<Rightarrow> Receipt result" where
  "unm_receipt tx = StrictUnmarshal tx dec_Receipt zero_Receipt"

definition unm_traces :: "json_text \<Rightarrow> bytes \<Rightarrow> TraceResultOptional list result" where
  "unm_traces tx data =
     map_sum id elems (StrictUnmarshal tx (dec_list dec_TraceResultOptional zero_TraceResultOptional) None data)"

definition unm_trace :: "json_text \<Rightarrow> bytes \<Rightarrow> CallTrace result" where
  "unm_trace tx = StrictUnmarshal tx dec_CallTrace zero_CallTrace"

text \<open>\<open>json.Marshal\<close> and \<open>json.Unmarshal\<close> of a normalized block.\<close>

definition marshal_block :: "json_text \<Rightarrow> NormalizedBlock \<Rightarrow> bytes result" where
  "marshal_block tx nb = Inr (print tx (enc_NormalizedBlock nb))"

definition unmarshal_block :: "json_text \<Rightarrow> bytes \<Rightarrow> NormalizedBlock result" where
  "unmarshal_block tx = Unmarshal tx dec_NormalizedBlock zero_NormalizedBlock"

lemma unmarshal_marshal:
  assumes "json_laws tx" "valid_document (enc_NormalizedBlock nb)"
  shows "unmarshal_block tx (print tx (enc_NormalizedBlock nb)) = Inr (norm_NormalizedBlock nb)"
  unfolding unmarshal_block_def by (rule NormalizedBlock_codec.Unmarshal_print [OF assms])

lemma norm_block_number [simp]: "nb_Block (norm_NormalizedBlock nb) = nb_Block nb"
  by (simp add: norm_NormalizedBlock_def)

end
