(* ===== verification/Rpc.thy ===== *)
theory Rpc
  imports Controller GoText
begin

section \<open>One batch of JSON-RPC requests\<close>

text \<open>
  \<open>evm-ingestion/rpc/fetcher.go\<close>, \<open>batchRpcCall\<close> and \<open>batchRpcCallDebug\<close>: send a batch, decode
  the responses, check that they answer the requests, retry with a growing delay.  The node is the
  environment: what one HTTP attempt brings is a \<open>reply\<close>.
\<close>

subsection \<open>Requests, responses, and decoding into a slice that is used again\<close>

datatype param = PString string | PBool bool | PMap "(string \<times> string) list"

record JSONRPCRequest =
  rq_Method :: string
  rq_Params :: "param list"
  rq_ID :: int

text \<open>\<open>rs_Result\<close> is the raw JSON of the result (empty if the field was absent), \<open>rs_Error\<close> the
  message of the error object, \<open>None\<close> for the nil pointer.\<close>

record JSONRPCResponse =
  rs_ID :: int
  rs_Result :: bytes
  rs_Error :: "string option"

definition zero_response :: JSONRPCResponse where
  "zero_response = \<lparr>rs_ID = 0, rs_Result = [], rs_Error = None\<rparr>"

text \<open>
  A response object as it comes over the wire: each field may be absent, and the error may be
  \<open>null\<close> or an object with or without a message.
\<close>

datatype wire_error = NoError | NullError | ErrorObject "string option"

record wire_response =
  w_id :: "int option"
  w_result :: "bytes option"
  w_error :: wire_error

text \<open>
  \<open>encoding/json\<close> decodes an array into a slice by overwriting its elements one after the
  other: a field that the object leaves out keeps the value the element had, also for
  elements between the length and the capacity of the slice.  \<open>buf\<close> is the memory behind the
  slice (zero beyond its end); an empty array makes a new one.
\<close>

definition decode_element :: "wire_response \<Rightarrow> JSONRPCResponse \<Rightarrow> JSONRPCResponse" where
  "decode_element w old =
     \<lparr>rs_ID = (case w_id w of None \<Rightarrow> rs_ID old | Some i \<Rightarrow> i),
      rs_Result = (case w_result w of None \<Rightarrow> rs_Result old | Some r \<Rightarrow> r),
      rs_Error = (case w_error w of
          NoError \<Rightarrow> rs_Error old
        | NullError \<Rightarrow> None
        | ErrorObject (Some msg) \<Rightarrow> Some msg
        | ErrorObject None \<Rightarrow> (case rs_Error old of None \<Rightarrow> Some '''' | Some msg \<Rightarrow> Some msg))\<rparr>"

fun decode_elements :: "wire_response list \<Rightarrow> JSONRPCResponse list \<Rightarrow> JSONRPCResponse list" where
  "decode_elements [] buf = []"
| "decode_elements (w # ws) [] = decode_element w zero_response # decode_elements ws []"
| "decode_elements (w # ws) (old # buf) = decode_element w old # decode_elements ws buf"

definition decode_slice ::
  "wire_response list \<Rightarrow> JSONRPCResponse list \<Rightarrow> JSONRPCResponse list \<times> JSONRPCResponse list" where
  "decode_slice ws buf =
     (let responses = decode_elements ws buf in
      (responses, if ws = [] then [] else responses @ drop (length ws) buf))"

subsection \<open>The code\<close>

text \<open>
  What one HTTP attempt brings: no request could be built, no response came, or a body.  The
  decoder may report an error, with or without having decoded an array.
\<close>

datatype reply = BadRequest error | NoReply error | Reply "error option" "wire_response list option"

text \<open>The settings of the HTTP client and its transport; the client itself is the standard library's.\<close>

record http_client =
  hc_Timeout :: int
  hc_MaxIdleConns :: int
  hc_MaxIdleConnsPerHost :: int
  hc_MaxConnsPerHost :: int
  hc_IdleConnTimeout :: int
  hc_DisableKeepAlives :: bool
  hc_DialTimeout :: int
  hc_KeepAlive :: int

definition fetcher_http_client :: http_client where
  "fetcher_http_client =
     \<lparr>hc_Timeout = FetcherHTTPTimeout, hc_MaxIdleConns = FetcherMaxIdleConns,
      hc_MaxIdleConnsPerHost = FetcherMaxIdleConns, hc_MaxConnsPerHost = FetcherMaxConnsPerHost,
      hc_IdleConnTimeout = FetcherIdleConnTimeout, hc_DisableKeepAlives = False,
      hc_DialTimeout = FetcherDialTimeout, hc_KeepAlive = FetcherDialTimeout\<rparr>"

record Fetcher =
  batchSize :: int
  debugBatchSize :: int
  maxRetries :: int
  retryDelay :: int
  ft_controller :: Controller
  httpClient :: http_client

definition NewFetcher :: "Controller \<Rightarrow> Fetcher" where
  "NewFetcher c =
     (let debug = max 1 (CurrentParallelism c sdiv 10) in
      \<lparr>batchSize = FetcherBatchSize,
       debugBatchSize = (if debug > FetcherDebugBatchSizeMax then FetcherDebugBatchSizeMax else debug),
       maxRetries = FetcherMaxRetries,
       retryDelay = FetcherRetryDelay,
       ft_controller = c,
       httpClient = fetcher_http_client\<rparr>)"

definition FetcherController :: "Fetcher \<Rightarrow> Controller" where "FetcherController f = ft_controller f"

text \<open>The delay before attempt \<open>attempt > 0\<close>, in the \<open>int64\<close> arithmetic of \<open>time.Duration\<close>.\<close>

definition retry_wait :: "Fetcher \<Rightarrow> nat \<Rightarrow> int" where
  "retry_wait f attempt =
     (let delay = to_int64 (retryDelay f * to_int64 (2 ^ (attempt - 1))) in
      if delay > 10 * Second then 10 * Second else delay)"

text \<open>The loop that validates the sorted responses: all right, another attempt, or an error at once.\<close>

datatype verdict = Accepted | Again error | Fatal error

fun validate_responses :: "JSONRPCResponse list \<Rightarrow> JSONRPCRequest list \<Rightarrow> verdict" where
  "validate_responses (resp # rs) (req # qs) =
     (if rs_ID resp \<noteq> rq_ID req then Again (Fail ''batch response ID mismatch'')
      else case rs_Error resp of
        Some msg \<Rightarrow> Fatal (Wrap ''RPC error in batch'' (Fail msg))
      | None \<Rightarrow>
          if rs_Result resp = [] then Fatal (Fail ''empty result in batch response'')
          else validate_responses rs qs)"
| "validate_responses _ _ = Accepted"

fun validate_debug :: "JSONRPCResponse list \<Rightarrow> JSONRPCRequest list \<Rightarrow> verdict" where
  "validate_debug (resp # rs) (req # qs) =
     (if rs_ID resp \<noteq> rq_ID req then Again (Fail ''debug batch response ID mismatch'')
      else validate_debug rs qs)"
| "validate_debug _ _ = Accepted"

text \<open>
  One round of the retry loop of each function, on the memory behind \<open>responses\<close>.  \<open>srt\<close> is
  what \<open>sort.Slice\<close> does with equal identifiers; the debug variant sorts before it counts.
\<close>

definition call_attempt ::
  "(JSONRPCResponse list \<Rightarrow> JSONRPCResponse list) \<Rightarrow> JSONRPCRequest list \<Rightarrow> reply \<Rightarrow>
    JSONRPCResponse list \<Rightarrow> verdict \<times> JSONRPCResponse list \<times> JSONRPCResponse list" where
  "call_attempt srt requests rep buf =
     (case rep of
        BadRequest err \<Rightarrow> (Fatal (Wrap ''failed to create request'' err), [], buf)
      | NoReply err \<Rightarrow> (Again (Wrap ''failed to make batch request'' err), [], buf)
      | Reply (Some err) None \<Rightarrow> (Again (Wrap ''failed to unmarshal batch response'' err), [], buf)
      | Reply (Some err) (Some ws) \<Rightarrow>
          (Again (Wrap ''failed to unmarshal batch response'' err), [], snd (decode_slice ws buf))
      | Reply None body \<Rightarrow>
          (case decode_slice (case body of None \<Rightarrow> [] | Some ws \<Rightarrow> ws) buf of
             (responses, buf') \<Rightarrow>
               if length responses \<noteq> length requests
               then (Again (Fail ''batch response count mismatch''), [], buf')
               else let sorted_responses = srt responses in
                 (validate_responses sorted_responses requests, sorted_responses,
                  sorted_responses @ drop (length responses) buf')))"

definition debug_attempt ::
  "(JSONRPCResponse list \<Rightarrow> JSONRPCResponse list) \<Rightarrow> JSONRPCRequest list \<Rightarrow> reply \<Rightarrow>
    JSONRPCResponse list \<Rightarrow> verdict \<times> JSONRPCResponse list \<times> JSONRPCResponse list" where
  "debug_attempt srt requests rep buf =
     (case rep of
        BadRequest err \<Rightarrow> (Fatal (Wrap ''failed to create debug request'' err), [], buf)
      | NoReply err \<Rightarrow> (Again (Wrap ''failed to make debug batch request'' err), [], buf)
      | Reply (Some err) None \<Rightarrow> (Again (Wrap ''failed to unmarshal debug batch response'' err), [], buf)
      | Reply (Some err) (Some ws) \<Rightarrow>
          (Again (Wrap ''failed to unmarshal debug batch response'' err), [], snd (decode_slice ws buf))
      | Reply None body \<Rightarrow>
          (case decode_slice (case body of None \<Rightarrow> [] | Some ws \<Rightarrow> ws) buf of
             (responses, buf') \<Rightarrow>
               let sorted_responses = srt responses; buf'' = sorted_responses @ drop (length responses) buf' in
               if length sorted_responses \<noteq> length requests
               then (Again (Fail ''debug batch response count mismatch''), [], buf'')
               else (validate_debug sorted_responses requests, sorted_responses, buf'')))"

text \<open>The retry loop; the list holds what attempts \<open>0, 1, \<dots>, maxRetries\<close> bring.\<close>

fun retry_loop ::
  "(reply \<Rightarrow> JSONRPCResponse list \<Rightarrow> verdict \<times> JSONRPCResponse list \<times> JSONRPCResponse list) \<Rightarrow>
    string \<Rightarrow> JSONRPCResponse list \<Rightarrow> error \<Rightarrow> reply list \<Rightarrow> JSONRPCResponse list result" where
  "retry_loop att msg buf lastErr [] = Inl (Wrap msg lastErr)"
| "retry_loop att msg buf lastErr (rep # reps) =
     (case att rep buf of
        (Accepted, responses, buf') \<Rightarrow> Inr responses
      | (Fatal err, responses, buf') \<Rightarrow> Inl err
      | (Again err, responses, buf') \<Rightarrow> retry_loop att msg buf' err reps)"

definition attempts :: "Fetcher \<Rightarrow> (nat \<Rightarrow> reply) \<Rightarrow> reply list" where
  "attempts f replies = map replies [0..<nat (maxRetries f + 1)]"

definition batchRpcCall ::
  "Fetcher \<Rightarrow> (JSONRPCResponse list \<Rightarrow> JSONRPCResponse list) \<Rightarrow> JSONRPCRequest list \<Rightarrow> (nat \<Rightarrow> reply) \<Rightarrow>
    JSONRPCResponse list result" where
  "batchRpcCall f srt requests replies =
     (if requests = [] then Inr []
      else retry_loop (call_attempt srt requests) ''batch request failed after retries'' []
        (Fail '''') (attempts f replies))"

definition batchRpcCallDebug ::
  "Fetcher \<Rightarrow> (JSONRPCResponse list \<Rightarrow> JSONRPCResponse list) \<Rightarrow> JSONRPCRequest list \<Rightarrow> (nat \<Rightarrow> reply) \<Rightarrow>
    JSONRPCResponse list result" where
  "batchRpcCallDebug f srt requests replies =
     (if requests = [] then Inr []
      else retry_loop (debug_attempt srt requests) ''debug batch request failed after retries'' []
        (Fail '''') (attempts f replies))"

text \<open>\<open>chunksOf\<close>; \<open>None\<close> is its panic.\<close>

function chunks :: "nat \<Rightarrow> 'a list \<Rightarrow> 'a list list" where
  "chunks step items =
     (if items = [] \<or> step = 0 then [] else take step items # chunks step (drop step items))"
  by auto
termination by (relation "measure (\<lambda>(step, items). length items)") auto

declare chunks.simps [simp del]

definition chunksOf :: "'a list \<Rightarrow> int \<Rightarrow> 'a list list option" where
  "chunksOf items chunk_size = (if chunk_size \<le> 0 then None else Some (chunks (nat chunk_size) items))"

subsection \<open>What an accepted batch holds\<close>

text \<open>
  \<open>sort.Slice\<close> may order responses with the same identifier in any way; nothing below depends
  on how.
\<close>

locale slice_sort =
  fixes srt :: "JSONRPCResponse list \<Rightarrow> JSONRPCResponse list"
  assumes srt_mset: "mset (srt xs) = mset xs"
    and srt_sorted: "sorted (map rs_ID (srt xs))"

text \<open>A response object in the form JSON-RPC prescribes: an identifier, and a result or an error.\<close>

definition wellformed_wire :: "wire_response \<Rightarrow> bool" where
  "wellformed_wire w \<longleftrightarrow> w_id w \<noteq> None \<and>
     (case w_error w of ErrorObject msg \<Rightarrow> True | _ \<Rightarrow> w_result w \<noteq> None)"

definition wellformed_reply :: "reply \<Rightarrow> bool" where
  "wellformed_reply rep \<longleftrightarrow> (case rep of Reply None (Some ws) \<Rightarrow> list_all wellformed_wire ws | _ \<Rightarrow> True)"

text \<open>Some attempt brought the result \<open>res\<close> for the request \<open>i\<close>.\<close>

definition answered :: "reply list \<Rightarrow> int \<Rightarrow> bytes \<Rightarrow> bool" where
  "answered reps i res \<longleftrightarrow>
     (\<exists>ws w. Reply None (Some ws) \<in> set reps \<and> w \<in> set ws \<and> w_id w = Some i \<and> w_result w = Some res)"

lemma retry_loop_Inr:
  assumes "retry_loop att msg buf lastErr reps = Inr responses" "I buf"
    and step: "\<And>rep buf v rs buf'. rep \<in> set reps \<Longrightarrow> I buf \<Longrightarrow> att rep buf = (v, rs, buf') \<Longrightarrow> I buf'"
  obtains rep buf1 buf2 where "rep \<in> set reps" "I buf1" "att rep buf1 = (Accepted, responses, buf2)"
proof -
  have "\<exists>rep buf1 buf2. rep \<in> set reps \<and> I buf1 \<and> att rep buf1 = (Accepted, responses, buf2)"
    using assms
  proof (induction reps arbitrary: buf lastErr)
    case (Cons rep reps)
    obtain v rs buf' where a: "att rep buf = (v, rs, buf')" by (cases "att rep buf") auto
    show ?case
    proof (cases v)
      case Accepted
      then show ?thesis using a Cons.prems by auto
    next
      case (Again err)
      have "I buf'" using Cons.prems(2,3) a by (metis list.set_intros(1))
      then have "\<exists>rep buf1 buf2. rep \<in> set reps \<and> I buf1 \<and> att rep buf1 = (Accepted, responses, buf2)"
        using a Again Cons.prems(1)
        by (intro Cons.IH [of buf' err]) (simp, assumption, metis Cons.prems(3) list.set_intros(2))
      then show ?thesis by auto
    next
      case (Fatal err)
      then show ?thesis using a Cons.prems by simp
    qed
  qed simp
  then show thesis using that by blast
qed

lemma validate_responses_Accepted:
  "length rs = length qs \<Longrightarrow> validate_responses rs qs = Accepted \<longleftrightarrow>
    map rs_ID rs = map rq_ID qs \<and> (\<forall>r \<in> set rs. rs_Error r = None \<and> rs_Result r \<noteq> [])"
  by (induction rs qs rule: validate_responses.induct) (auto split: option.splits)

lemma validate_debug_Accepted:
  "length rs = length qs \<Longrightarrow> validate_debug rs qs = Accepted \<longleftrightarrow> map rs_ID rs = map rq_ID qs"
  by (induction rs qs rule: validate_debug.induct) auto

lemma length_decode_elements [simp]: "length (decode_elements ws buf) = length ws"
  by (induction ws buf rule: decode_elements.induct) auto

lemma decode_elements_origin:
  "r \<in> set (decode_elements ws buf) \<Longrightarrow> \<exists>w \<in> set ws. \<exists>old. r = decode_element w old"
  by (induction ws buf rule: decode_elements.induct) auto

lemma decode_element_result:
  "wellformed_wire w \<Longrightarrow> rs_Error (decode_element w old) = None \<Longrightarrow>
    w_id w = Some (rs_ID (decode_element w old)) \<and> w_result w = Some (rs_Result (decode_element w old))"
  by (auto simp: wellformed_wire_def decode_element_def split: wire_error.splits option.splits)

lemma decoded_answered:
  assumes "Reply None (Some ws) \<in> set reps" "list_all wellformed_wire ws"
    and "r \<in> set (decode_elements ws buf)" "rs_Error r = None"
  shows "answered reps (rs_ID r) (rs_Result r)"
proof -
  obtain w old where w: "w \<in> set ws" "r = decode_element w old"
    using decode_elements_origin [OF assms(3)] by blast
  with assms(2) have "wellformed_wire w" by (simp add: list_all_iff)
  with w assms(1,4) show ?thesis
    unfolding answered_def using decode_element_result [of w old] by blast
qed

context slice_sort
begin

lemma srt_props [simp]: "set (srt xs) = set xs" "length (srt xs) = length xs"
  using srt_mset [of xs] by (metis set_mset_mset, metis size_mset)

lemma call_attempt_Accepted:
  assumes "call_attempt srt requests rep buf = (Accepted, responses, buf')"
  obtains ws where "rep = Reply None (Some ws) \<or> (rep = Reply None None \<and> ws = [])"
    "responses = srt (decode_elements ws buf)" "length responses = length requests"
    "validate_responses responses requests = Accepted"
  using assms
  by (auto simp: call_attempt_def decode_slice_def Let_def split: reply.splits option.splits if_splits)

lemma debug_attempt_Accepted:
  assumes "debug_attempt srt requests rep buf = (Accepted, responses, buf')"
  obtains ws where "rep = Reply None (Some ws) \<or> (rep = Reply None None \<and> ws = [])"
    "responses = srt (decode_elements ws buf)" "length responses = length requests"
    "validate_debug responses requests = Accepted"
  using assms
  by (auto simp: debug_attempt_def decode_slice_def Let_def split: reply.splits option.splits if_splits)

lemma batchRpcCall_ids:
  assumes "batchRpcCall f srt requests replies = Inr responses"
  shows "map rs_ID responses = map rq_ID requests"
    "r \<in> set responses \<Longrightarrow> rs_Error r = None \<and> rs_Result r \<noteq> []"
proof -
  have "map rs_ID responses = map rq_ID requests \<and>
    (\<forall>r \<in> set responses. rs_Error r = None \<and> rs_Result r \<noteq> [])"
  proof (cases "requests = []")
    case False
    with assms obtain rep buf1 buf2
      where "call_attempt srt requests rep buf1 = (Accepted, responses, buf2)"
      by (auto simp: batchRpcCall_def elim: retry_loop_Inr [where I = "\<lambda>buf. True"])
    then show ?thesis
      by (rule call_attempt_Accepted) (simp add: validate_responses_Accepted)
  qed (use assms in \<open>simp add: batchRpcCall_def\<close>)
  then show "map rs_ID responses = map rq_ID requests"
    "r \<in> set responses \<Longrightarrow> rs_Error r = None \<and> rs_Result r \<noteq> []" by blast+
qed

lemma batchRpcCall_answered:
  assumes "batchRpcCall f srt requests replies = Inr responses"
    and wf: "list_all wellformed_reply (attempts f replies)" and r: "r \<in> set responses"
  shows "answered (attempts f replies) (rs_ID r) (rs_Result r)"
proof -
  have ne: "requests \<noteq> []" using assms(1) r by (auto simp: batchRpcCall_def)
  with assms(1) obtain rep buf1 buf2 where rep: "rep \<in> set (attempts f replies)"
    and att: "call_attempt srt requests rep buf1 = (Accepted, responses, buf2)"
    by (auto simp: batchRpcCall_def elim: retry_loop_Inr [where I = "\<lambda>buf. True"])
  from att obtain ws where ws: "rep = Reply None (Some ws) \<or> (rep = Reply None None \<and> ws = [])"
    "responses = srt (decode_elements ws buf1)"
    by (rule call_attempt_Accepted)
  with r have w: "rep = Reply None (Some ws)" "r \<in> set (decode_elements ws buf1)" by auto
  from wf rep w(1) have "list_all wellformed_wire ws"
    by (auto simp: list_all_iff wellformed_reply_def)
  moreover have "rs_Error r = None" using batchRpcCall_ids(2) [OF assms(1) r] by simp
  ultimately show ?thesis using decoded_answered w rep by blast
qed

lemma batchRpcCallDebug_ids:
  assumes "batchRpcCallDebug f srt requests replies = Inr responses"
  shows "map rs_ID responses = map rq_ID requests"
proof (cases "requests = []")
  case False
  with assms obtain rep buf1 buf2
    where "debug_attempt srt requests rep buf1 = (Accepted, responses, buf2)"
    by (auto simp: batchRpcCallDebug_def elim: retry_loop_Inr [where I = "\<lambda>buf. True"])
  then show ?thesis
    by (rule debug_attempt_Accepted) (simp add: validate_debug_Accepted)
qed (use assms in \<open>simp add: batchRpcCallDebug_def\<close>)

lemma batchRpcCallDebug_answered:
  assumes "batchRpcCallDebug f srt requests replies = Inr responses"
    and wf: "list_all wellformed_reply (attempts f replies)" and r: "r \<in> set responses" "rs_Error r = None"
  shows "answered (attempts f replies) (rs_ID r) (rs_Result r)"
proof -
  have ne: "requests \<noteq> []" using assms(1) r by (auto simp: batchRpcCallDebug_def)
  with assms(1) obtain rep buf1 buf2 where rep: "rep \<in> set (attempts f replies)"
    and att: "debug_attempt srt requests rep buf1 = (Accepted, responses, buf2)"
    by (auto simp: batchRpcCallDebug_def elim: retry_loop_Inr [where I = "\<lambda>buf. True"])
  from att obtain ws where ws: "rep = Reply None (Some ws) \<or> (rep = Reply None None \<and> ws = [])"
    "responses = srt (decode_elements ws buf1)"
    by (rule debug_attempt_Accepted)
  with r have w: "rep = Reply None (Some ws)" "r \<in> set (decode_elements ws buf1)" by auto
  from wf rep w(1) have "list_all wellformed_wire ws"
    by (auto simp: list_all_iff wellformed_reply_def)
  then show ?thesis using decoded_answered w rep r(2) by blast
qed

end

interpretation sort_by_id: slice_sort "sort_key rs_ID"
  by unfold_locales simp_all

subsection \<open>Outages are retried, and how long that takes\<close>

text \<open>
  A node that answers the batch with \<open>ans\<close>, in any order, after at most \<open>maxRetries\<close> attempts
  that brought nothing.
\<close>

definition outage :: "reply \<Rightarrow> bool" where
  "outage rep \<longleftrightarrow> (case rep of NoReply err \<Rightarrow> True | Reply (Some err) None \<Rightarrow> True | _ \<Rightarrow> False)"

definition answer_wire :: "(JSONRPCRequest \<Rightarrow> bytes) \<Rightarrow> JSONRPCRequest \<Rightarrow> wire_response" where
  "answer_wire ans q = \<lparr>w_id = Some (rq_ID q), w_result = Some (ans q), w_error = NoError\<rparr>"

definition answer_response :: "(JSONRPCRequest \<Rightarrow> bytes) \<Rightarrow> JSONRPCRequest \<Rightarrow> JSONRPCResponse" where
  "answer_response ans q = \<lparr>rs_ID = rq_ID q, rs_Result = ans q, rs_Error = None\<rparr>"

definition answers_after ::
  "Fetcher \<Rightarrow> (JSONRPCRequest \<Rightarrow> bytes) \<Rightarrow> JSONRPCRequest list \<Rightarrow> (nat \<Rightarrow> reply) \<Rightarrow> bool" where
  "answers_after f ans requests replies \<longleftrightarrow>
     (\<exists>k ws. int k \<le> maxRetries f \<and> (\<forall>j < k. outage (replies j)) \<and>
        replies k = Reply None (Some ws) \<and> mset ws = mset (map (answer_wire ans) requests))"

definition ordered_requests :: "JSONRPCRequest list \<Rightarrow> bool" where
  "ordered_requests requests \<longleftrightarrow> sorted_wrt (<) (map rq_ID requests)"

lemma decode_elements_nil: "decode_elements ws [] = map (\<lambda>w. decode_element w zero_response) ws"
  by (induction ws) simp_all

lemma decode_answer_wire: "decode_element (answer_wire ans q) zero_response = answer_response ans q"
  by (simp add: decode_element_def answer_wire_def answer_response_def zero_response_def)

lemma retry_loop_skip:
  assumes "\<And>j. j < length pre \<Longrightarrow> \<exists>err rs. att (pre ! j) [] = (Again err, rs, [])"
  shows "\<exists>err. retry_loop att msg [] lastErr (pre @ reps) = retry_loop att msg [] err reps"
  using assms
proof (induction pre arbitrary: lastErr)
  case (Cons rep pre)
  from Cons.prems [of 0] obtain err rs where "att rep [] = (Again err, rs, [])" by auto
  moreover have "\<exists>err'. retry_loop att msg [] err (pre @ reps) = retry_loop att msg [] err' reps"
    using Cons.prems by (intro Cons.IH) (metis Suc_less_eq length_Cons nth_Cons_Suc)
  ultimately show ?case by simp
qed auto

lemma attempts_split:
  assumes "int k \<le> maxRetries f"
  shows "\<exists>post. attempts f replies = map replies [0..<k] @ replies k # post"
proof -
  have "[0..<nat (maxRetries f + 1)] = [0..<k] @ k # [Suc k..<nat (maxRetries f + 1)]"
    using assms upt_add_eq_append [of 0 k "nat (maxRetries f + 1) - k"]
    by (simp add: upt_conv_Cons)
  then show ?thesis by (simp add: attempts_def)
qed

context slice_sort
begin

lemma sorted_answers:
  assumes "ordered_requests requests" "mset rs = mset (map (answer_response ans) requests)" "sorted (map rs_ID rs)"
  shows "rs = map (answer_response ans) requests"
proof -
  have ids: "map rs_ID (map (answer_response ans) requests) = map rq_ID requests"
    by (simp add: answer_response_def)
  have s: "sorted (map rq_ID requests)" "distinct (map rq_ID requests)"
    using assms(1) by (simp_all add: ordered_requests_def strict_sorted_iff)
  have "map rs_ID rs = map rq_ID requests"
    using assms(3) s(1) arg_cong [OF assms(2), of "image_mset rs_ID"] ids
    by (metis mset_map properties_for_sort sorted_sort_id)
  then have d: "distinct (map rs_ID rs)" using s by simp
  show ?thesis
  proof (rule map_sorted_distinct_set_unique [where f = rs_ID])
    show "set rs = set (map (answer_response ans) requests)"
      using assms(2) by (rule mset_eq_setD)
    then show "inj_on rs_ID (set rs \<union> set (map (answer_response ans) requests))"
      using d by (simp add: distinct_map)
  qed (use assms(3) d s ids in \<open>simp_all only:\<close>)
qed

lemma mset_decoded_answers:
  assumes "mset ws = mset (map (answer_wire ans) requests)"
  shows "mset (decode_elements ws []) = mset (map (answer_response ans) requests)"
  using arg_cong [OF assms, of "image_mset (\<lambda>w. decode_element w zero_response)"]
  by (simp add: decode_elements_nil decode_answer_wire image_mset.compositionality comp_def)

lemma srt_answers:
  assumes "ordered_requests requests" "mset ws = mset (map (answer_wire ans) requests)"
  shows "srt (decode_elements ws []) = map (answer_response ans) requests"
  using sorted_answers [OF assms(1) _ srt_sorted] mset_decoded_answers [OF assms(2)] by (simp add: srt_mset)

lemma outage_again:
  "outage rep \<Longrightarrow> \<exists>err rs. call_attempt srt requests rep [] = (Again err, rs, [])"
  "outage rep \<Longrightarrow> \<exists>err rs. debug_attempt srt requests rep [] = (Again err, rs, [])"
  by (auto simp: outage_def call_attempt_def debug_attempt_def split: reply.splits option.splits)

lemma answered_attempts:
  assumes "ordered_requests requests" "mset ws = mset (map (answer_wire ans) requests)"
  shows "(\<And>q. q \<in> set requests \<Longrightarrow> ans q \<noteq> []) \<Longrightarrow> \<exists>buf. call_attempt srt requests (Reply None (Some ws)) [] =
      (Accepted, map (answer_response ans) requests, buf)"
    "\<exists>buf. debug_attempt srt requests (Reply None (Some ws)) [] =
      (Accepted, map (answer_response ans) requests, buf)"
proof -
  have len: "length ws = length requests" using assms(2) by (metis length_map size_mset)
  note [simp] = srt_answers [OF assms]
  show "\<exists>buf. call_attempt srt requests (Reply None (Some ws)) [] =
      (Accepted, map (answer_response ans) requests, buf)" if "\<And>q. q \<in> set requests \<Longrightarrow> ans q \<noteq> []"
    using len that
    by (auto simp: call_attempt_def decode_slice_def Let_def validate_responses_Accepted answer_response_def)
  show "\<exists>buf. debug_attempt srt requests (Reply None (Some ws)) [] =
      (Accepted, map (answer_response ans) requests, buf)"
    using len by (auto simp: debug_attempt_def decode_slice_def Let_def validate_debug_Accepted answer_response_def)
qed

lemma calls_answer:
  assumes "answers_after f ans requests replies" "ordered_requests requests"
  shows "(\<And>q. q \<in> set requests \<Longrightarrow> ans q \<noteq> []) \<Longrightarrow>
      batchRpcCall f srt requests replies = Inr (map (answer_response ans) requests)"
    "batchRpcCallDebug f srt requests replies = Inr (map (answer_response ans) requests)"
proof -
  obtain k ws where k: "int k \<le> maxRetries f" "\<forall>j < k. outage (replies j)"
      "replies k = Reply None (Some ws)" "mset ws = mset (map (answer_wire ans) requests)"
    using assms(1) by (auto simp: answers_after_def)
  obtain post where post: "attempts f replies = map replies [0..<k] @ replies k # post"
    using attempts_split [OF k(1)] by blast
  have run: "retry_loop att msg [] err (attempts f replies) = Inr rs"
    if "\<And>j. j < k \<Longrightarrow> \<exists>err rs. att (replies j) [] = (Again err, rs, [])"
      "\<exists>buf. att (replies k) [] = (Accepted, rs, buf)" for att msg err rs
    using retry_loop_skip [of "map replies [0..<k]" att msg err "replies k # post"] that
    unfolding post by auto
  show "batchRpcCall f srt requests replies = Inr (map (answer_response ans) requests)"
    if "\<And>q. q \<in> set requests \<Longrightarrow> ans q \<noteq> []"
    using run [of "call_attempt srt requests"] outage_again(1) k(2,3)
      answered_attempts(1) [OF assms(2) k(4) that] by (auto simp: batchRpcCall_def)
  show "batchRpcCallDebug f srt requests replies = Inr (map (answer_response ans) requests)"
    using run [of "debug_attempt srt requests"] outage_again(2) k(2,3)
      answered_attempts(2) [OF assms(2) k(4)] by (auto simp: batchRpcCallDebug_def)
qed

end

subsection \<open>Chunks\<close>

lemma chunks_Nil [simp]: "chunks step [] = []"
  by (subst chunks.simps) simp

lemma chunks_step: "xs \<noteq> [] \<Longrightarrow> 0 < step \<Longrightarrow> chunks step xs = take step xs # chunks step (drop step xs)"
  by (subst chunks.simps) simp

lemma concat_chunks: "0 < step \<Longrightarrow> concat (chunks step xs) = xs"
  by (induction step xs rule: chunks.induct) (subst chunks.simps, auto)

lemma chunks_in: "c \<in> set (chunks step xs) \<Longrightarrow> c \<noteq> [] \<and> length c \<le> step \<and> set c \<subseteq> set xs"
proof (induction step xs rule: chunks.induct)
  case (1 step xs)
  show ?case
  proof (cases "xs = [] \<or> step = 0")
    case True
    with 1(2) show ?thesis by (subst (asm) chunks.simps) auto
  next
    case False
    then have "c = take step xs \<or> c \<in> set (chunks step (drop step xs))"
      using 1(2) by (simp add: chunks_step)
    then show ?thesis using 1(1) False by (auto dest: in_set_takeD in_set_dropD)
  qed
qed

lemma chunks_ordered:
  "ordered_requests requests \<Longrightarrow> c \<in> set (chunks step requests) \<Longrightarrow> ordered_requests c"
proof (induction step requests rule: chunks.induct)
  case (1 step requests)
  show ?case
  proof (cases "requests = [] \<or> step = 0")
    case True
    with 1(3) show ?thesis by (subst (asm) chunks.simps) auto
  next
    case False
    then have "c = take step requests \<or> c \<in> set (chunks step (drop step requests))"
      using 1(3) by (simp add: chunks_step)
    then show ?thesis using 1(1) [OF _] 1(2) False
      by (auto simp: ordered_requests_def take_map [symmetric] drop_map [symmetric]
          sorted_wrt_take sorted_wrt_drop)
  qed
qed

lemma nth_chunks:
  "0 < step \<Longrightarrow> i < length xs \<Longrightarrow>
    i div step < length (chunks step xs) \<and> i mod step < length (chunks step xs ! (i div step)) \<and>
    chunks step xs ! (i div step) ! (i mod step) = xs ! i"
proof (induction step xs arbitrary: i rule: chunks.induct)
  case (1 step xs)
  then have "xs \<noteq> []" by auto
  with 1(2) have c: "chunks step xs = take step xs # chunks step (drop step xs)" by (simp add: chunks_step)
  show ?case
  proof (cases "i < step")
    case True
    with 1 c show ?thesis by simp
  next
    case False
    have "(i - step) div step < length (chunks step (drop step xs)) \<and>
        (i - step) mod step < length (chunks step (drop step xs) ! ((i - step) div step)) \<and>
        chunks step (drop step xs) ! ((i - step) div step) ! ((i - step) mod step) = drop step xs ! (i - step)"
      using False 1(2,3) by (intro 1(1)) auto
    then show ?thesis unfolding c using False 1(2,3) by (simp add: le_div_geq le_mod_geq)
  qed
qed

lemma chunks_nth:
  assumes "idx < length (chunks step xs)" "j < length (chunks step xs ! idx)"
  shows "j < step \<and> idx * step + j < length xs \<and> chunks step xs ! idx ! j = xs ! (idx * step + j)"
  using assms
proof (induction step xs arbitrary: idx rule: chunks.induct)
  case (1 step xs)
  show ?case
  proof (cases "xs = [] \<or> step = 0")
    case True
    with 1(2) show ?thesis by (subst (asm) chunks.simps) auto
  next
    case False
    then have c: "chunks step xs = take step xs # chunks step (drop step xs)" by (simp add: chunks_step)
    show ?thesis
    proof (cases idx)
      case 0
      with 1(3) c show ?thesis by simp
    next
      case (Suc k)
      with 1(1) [of k] 1(2,3) False show ?thesis by (auto simp: c algebra_simps)
    qed
  qed
qed

lemma in_chunk_index:
  assumes "idx < length (chunks step xs)" "x \<in> set (chunks step xs ! idx)"
  obtains i where "i < length xs" "x = xs ! i" "i div step = idx"
proof -
  obtain j where j: "j < length (chunks step xs ! idx)" "x = chunks step xs ! idx ! j"
    using assms(2) by (auto simp: in_set_conv_nth)
  have "(idx * step + j) div step = idx" if "j < step" using that by simp
  with chunks_nth [OF assms(1) j(1)] j(2) that show thesis by blast
qed

text \<open>Errors do not come from nowhere: each was in some response of the same call.\<close>

definition reported :: "reply list \<Rightarrow> string \<Rightarrow> bool" where
  "reported reps msg \<longleftrightarrow>
     (\<exists>err ws w. Reply err (Some ws) \<in> set reps \<and> w \<in> set ws \<and> w_error w = ErrorObject (Some msg))"

definition errors_reported :: "reply list \<Rightarrow> JSONRPCResponse list \<Rightarrow> bool" where
  "errors_reported reps buf \<longleftrightarrow>
     (\<forall>r \<in> set buf. \<forall>msg. rs_Error r = Some msg \<longrightarrow> msg = [] \<or> reported reps msg)"

lemma errors_reported_simps [simp]:
  "errors_reported reps []"
  "errors_reported reps (xs @ ys) \<longleftrightarrow> errors_reported reps xs \<and> errors_reported reps ys"
  "errors_reported reps (r # xs) \<longleftrightarrow>
    (\<forall>msg. rs_Error r = Some msg \<longrightarrow> msg = [] \<or> reported reps msg) \<and> errors_reported reps xs"
  by (auto simp: errors_reported_def)

lemma errors_reported_drop: "errors_reported reps buf \<Longrightarrow> errors_reported reps (drop n buf)"
  by (auto simp: errors_reported_def dest: in_set_dropD)

lemma decode_element_reported:
  assumes "Reply err (Some ws) \<in> set reps" "w \<in> set ws"
    and "\<And>msg. rs_Error old = Some msg \<Longrightarrow> msg = [] \<or> reported reps msg"
    and "rs_Error (decode_element w old) = Some msg"
  shows "msg = [] \<or> reported reps msg"
  using assms(4,3) assms(1,2)
  by (auto simp: decode_element_def reported_def split: wire_error.splits option.splits)

lemma decode_elements_reported:
  assumes "Reply err (Some ws) \<in> set reps" "set vs \<subseteq> set ws" "errors_reported reps buf"
  shows "errors_reported reps (decode_elements vs buf)"
  using assms(2,3)
proof (induction vs buf rule: decode_elements.induct)
  case (2 w vs)
  then show ?case
    using decode_element_reported [OF assms(1), of w zero_response] by (auto simp: zero_response_def)
next
  case (3 w vs old buf)
  then show ?case using decode_element_reported [OF assms(1), of w old] by auto
qed simp

lemma decode_slice_reported:
  assumes "Reply err (Some ws) \<in> set reps" "errors_reported reps buf"
  shows "errors_reported reps (fst (decode_slice ws buf))" "errors_reported reps (snd (decode_slice ws buf))"
  using decode_elements_reported [OF assms(1) subset_refl assms(2)] errors_reported_drop [OF assms(2)]
  by (simp_all add: decode_slice_def Let_def)

context slice_sort
begin

lemma srt_reported [simp]: "errors_reported reps (srt xs) = errors_reported reps xs"
  by (simp add: errors_reported_def)

lemma debug_attempt_reported:
  assumes "rep \<in> set reps" "errors_reported reps buf" "debug_attempt srt requests rep buf = (v, rs, buf')"
  shows "errors_reported reps rs \<and> errors_reported reps buf'"
proof (cases rep)
  case (Reply err body)
  show ?thesis
  proof (cases body)
    case None
    then show ?thesis using assms Reply
      by (auto simp: debug_attempt_def decode_slice_def Let_def errors_reported_drop
          split: option.splits if_splits)
  next
    case (Some ws)
    with Reply assms(1) have "Reply err (Some ws) \<in> set reps" by simp
    from decode_slice_reported [OF this assms(2)] assms(3) Reply Some show ?thesis
      by (auto simp: debug_attempt_def Let_def errors_reported_drop split: option.splits if_splits prod.splits)
  qed
qed (use assms in \<open>auto simp: debug_attempt_def\<close>)

lemma batchRpcCallDebug_reported:
  assumes "batchRpcCallDebug f srt requests replies = Inr responses" "r \<in> set responses" "rs_Error r = Some msg"
  shows "msg = [] \<or> reported (attempts f replies) msg"
proof -
  let ?reps = "attempts f replies"
  have loop: "retry_loop (debug_attempt srt requests) ''debug batch request failed after retries'' []
      (Fail '''') ?reps = Inr responses"
    using assms(1,2) by (auto simp: batchRpcCallDebug_def split: if_splits)
  obtain rep buf1 buf2 where "rep \<in> set ?reps" "errors_reported ?reps buf1"
      "debug_attempt srt requests rep buf1 = (Accepted, responses, buf2)"
  proof (rule retry_loop_Inr [OF loop, of "errors_reported ?reps"])
    show "errors_reported ?reps buf'"
      if "rep \<in> set ?reps" "errors_reported ?reps buf" "debug_attempt srt requests rep buf = (v, rs, buf')"
      for rep buf v rs buf'
      using debug_attempt_reported [OF that] by simp
  qed simp_all
  from debug_attempt_reported [OF this] assms(2,3) show ?thesis by (auto simp: errors_reported_def)
qed

end

subsection \<open>The properties\<close>

text \<open>C10: A successful batch call answers the requests one by one: its responses have the identifiers
  of the requests in their order, none carries an error, none is empty; and if the node sends
  well-formed response objects, each result is one the node sent for that very identifier,
  whatever was retried.\<close>

theorem batch_answers_its_requests:
  assumes "slice_sort srt"
    and "batchRpcCall f srt requests replies = Inr responses"
    and "list_all wellformed_reply (attempts f replies)"
  shows "map rs_ID responses = map rq_ID requests \<and>
    (\<forall>r \<in> set responses. rs_Error r = None \<and> rs_Result r \<noteq> [] \<and>
       answered (attempts f replies) (rs_ID r) (rs_Result r))"
proof -
  from slice_sort.batchRpcCall_ids [OF assms(1,2)] slice_sort.batchRpcCall_answered [OF assms(1,2,3)]
  show ?thesis by simp
qed

definition demo_controller_state :: Controller where
  "demo_controller_state = \<lparr>max_parallelism = 50, min_parallelism = 5, target_latency = 500 * Millisecond,
     max_latency = 1000 * Millisecond, max_errors = 10, current_parallel = 5, semaphore = 5, metrics = [],
     ctl_url = ''http://node/rpc'', ctl_stopped = False\<rparr>"

definition demo_requests :: "JSONRPCRequest list" where
  "demo_requests = map (\<lambda>i. \<lparr>rq_Method = ''eth_getTransactionReceipt'', rq_Params = [PString ''0xab''],
     rq_ID = i\<rparr>) [0, 1]"

definition demo_answers :: "wire_response list" where
  "demo_answers = [\<lparr>w_id = Some 1, w_result = Some ''B'', w_error = NullError\<rparr>,
     \<lparr>w_id = Some 0, w_result = Some ''A'', w_error = NoError\<rparr>]"

lemma maxRetries_NewFetcher [simp]: "maxRetries (NewFetcher c) = 20" "batchSize (NewFetcher c) = 50"
  "retryDelay (NewFetcher c) = 500000000"
  by (simp_all add: NewFetcher_def Let_def FetcherMaxRetries_def FetcherBatchSize_def duration_defs)

lemma attempts_NewFetcher: "attempts (NewFetcher c) replies = map replies [0..<21]"
  by (simp add: attempts_def)

theorem batch_answers_its_requests_witness:
  "answered (attempts (NewFetcher demo_controller_state) (\<lambda>k. Reply None (Some demo_answers))) 1 ''B''"
proof -
  let ?run = "batchRpcCall (NewFetcher demo_controller_state) (sort_key rs_ID) demo_requests
    (\<lambda>k. Reply None (Some demo_answers))"
  have "?run = Inr [\<lparr>rs_ID = 0, rs_Result = ''A'', rs_Error = None\<rparr>, \<lparr>rs_ID = 1, rs_Result = ''B'', rs_Error = None\<rparr>]"
    by code_simp
  moreover have "list_all wellformed_reply (attempts (NewFetcher demo_controller_state) (\<lambda>k. Reply None (Some demo_answers)))"
    by code_simp
  ultimately show ?thesis
    using batch_answers_its_requests [OF sort_by_id.slice_sort_axioms] by fastforce
qed

text \<open>Outages are retried: if the node answers every request after at most \<open>maxRetries\<close> attempts
  that brought no response, in whatever order, the call returns exactly the answers, in the order
  of the requests.\<close>

lemma outages_are_retried:
  assumes "slice_sort srt" "ordered_requests requests" "\<And>q. q \<in> set requests \<Longrightarrow> ans q \<noteq> []"
    and "answers_after f ans requests replies"
  shows "batchRpcCall f srt requests replies = Inr (map (answer_response ans) requests)"
  using slice_sort.calls_answer(1) [OF assms(1,4,2,3)] by simp

text \<open>The retry delays of the configured fetcher: half a second, doubled up to ten seconds, never
  wrapping around; a call that fails for good has waited 165.5 seconds, holding its slot of the
  rate controller.\<close>

lemma retry_delays:
  "map (retry_wait (NewFetcher c)) [1..<21] =
     map (\<lambda>k. min (10 * Second) (500 * Millisecond * 2 ^ k)) [0..<20] \<and>
   sum_list (map (retry_wait (NewFetcher c)) [1..<21]) = 165500 * Millisecond"
proof -
  have "map (retry_wait (NewFetcher c)) [1..<21] =
    [500 * Millisecond, Second, 2 * Second, 4 * Second, 8 * Second] @ replicate 15 (10 * Second)"
    by (simp add: retry_wait_def duration_defs to_int64_def upt_conv_Cons eval_nat_numeral
        signed_of_int signed_take_bit_int_eq_self Let_def)
  then show ?thesis by (simp add: duration_defs upt_conv_Cons eval_nat_numeral min_def)
qed

subsection \<open>Errors that are over\<close>

text \<open>The response without its error.\<close>

definition no_error :: "JSONRPCResponse \<Rightarrow> JSONRPCResponse" where
  "no_error r = r\<lparr>rs_Error := None\<rparr>"

lemma no_error_simps [simp]:
  "rs_ID (no_error r) = rs_ID r" "rs_Result (no_error r) = rs_Result r"
  by (simp_all add: no_error_def)

lemma decode_stale:
  assumes "w \<in> set (map (answer_wire ans) requests)"
  shows "no_error (decode_element w old) = decode_element w zero_response"
    "rs_Error (decode_element w old) = rs_Error old"
  using assms by (auto simp: no_error_def answer_wire_def decode_element_def zero_response_def)

text \<open>Decoded over old responses that all carry \<open>msg\<close>, answers without an error keep that of the old.\<close>

lemma decode_elements_stale:
  assumes "set ws \<subseteq> set (map (answer_wire ans) requests)" "\<forall>r \<in> set buf. rs_Error r = Some msg"
  shows "map no_error (decode_elements ws buf) = decode_elements ws []"
    "\<forall>r \<in> set (decode_elements ws buf). rs_Error r \<in> {None, Some msg}"
proof -
  have "map no_error (decode_elements ws buf) = decode_elements ws [] \<and>
    (\<forall>r \<in> set (decode_elements ws buf). rs_Error r \<in> {None, Some msg})"
    using assms
  proof (induction ws buf rule: decode_elements.induct)
    case (2 w ws)
    then show ?case using decode_stale [of w ans requests zero_response] by (simp add: zero_response_def)
  next
    case (3 w ws old buf)
    then show ?case using decode_stale [of w ans requests old] by simp
  qed simp
  then show "map no_error (decode_elements ws buf) = decode_elements ws []"
    "\<forall>r \<in> set (decode_elements ws buf). rs_Error r \<in> {None, Some msg}" by blast+
qed

lemma validate_stale:
  assumes "map rs_ID rs = map rq_ID qs" "\<forall>r \<in> set rs. rs_Error r \<in> {None, Some msg} \<and> rs_Result r \<noteq> []"
    and "\<exists>r \<in> set rs. rs_Error r = Some msg"
  shows "validate_responses rs qs = Fatal (Wrap ''RPC error in batch'' (Fail msg))"
  using assms by (induction rs qs rule: validate_responses.induct) (auto split: option.splits)

context slice_sort
begin

text \<open>The memory after a first attempt that brought only errors, and too few or too many.\<close>

lemma first_attempt_errors:
  assumes "es \<noteq> []" "length es \<noteq> length requests" "\<forall>w \<in> set es. w_error w = ErrorObject (Some msg)"
  shows "\<exists>e rs buf. call_attempt srt requests (Reply None (Some es)) [] = (Again e, rs, buf) \<and>
      buf \<noteq> [] \<and> (\<forall>r \<in> set buf. rs_Error r = Some msg)"
    "\<exists>e rs buf. debug_attempt srt requests (Reply None (Some es)) [] = (Again e, rs, buf) \<and>
      buf \<noteq> [] \<and> (\<forall>r \<in> set buf. rs_Error r = Some msg)"
proof -
  have "\<forall>r \<in> set (decode_elements es []). rs_Error r = Some msg"
    using decode_elements_origin [of _ es "[]"] assms(3) by (force simp: decode_element_def)
  moreover have "decode_elements es [] \<noteq> []" "srt (decode_elements es []) \<noteq> []"
    using assms(1) by (metis length_decode_elements length_0_conv, metis length_decode_elements length_0_conv srt_props(2))
  ultimately show "\<exists>e rs buf. call_attempt srt requests (Reply None (Some es)) [] = (Again e, rs, buf) \<and>
      buf \<noteq> [] \<and> (\<forall>r \<in> set buf. rs_Error r = Some msg)"
    "\<exists>e rs buf. debug_attempt srt requests (Reply None (Some es)) [] = (Again e, rs, buf) \<and>
      buf \<noteq> [] \<and> (\<forall>r \<in> set buf. rs_Error r = Some msg)"
    using assms(1,2) by (simp_all add: call_attempt_def debug_attempt_def decode_slice_def Let_def)
qed

lemma second_attempt_stale:
  assumes "ordered_requests requests" "requests \<noteq> []" "mset ws = mset (map (answer_wire ans) requests)"
    and "buf \<noteq> []" "\<forall>r \<in> set buf. rs_Error r = Some msg"
  defines "rs \<equiv> srt (decode_elements ws buf)"
  shows "map no_error rs = map (answer_response ans) requests" "\<exists>r \<in> set rs. rs_Error r = Some msg"
    "(\<And>q. q \<in> set requests \<Longrightarrow> ans q \<noteq> []) \<Longrightarrow> \<exists>buf'. call_attempt srt requests (Reply None (Some ws)) buf =
      (Fatal (Wrap ''RPC error in batch'' (Fail msg)), rs, buf')"
    "\<exists>buf'. debug_attempt srt requests (Reply None (Some ws)) buf = (Accepted, rs, buf')"
proof -
  have len: "length ws = length requests" using assms(3) by (metis length_map size_mset)
  have sub: "set ws \<subseteq> set (map (answer_wire ans) requests)" using assms(3) by (metis mset_eq_setD subset_refl)
  note D = decode_elements_stale [OF sub assms(5)]
  have "mset (map no_error rs) = mset (map (answer_response ans) requests)"
    using arg_cong [OF srt_mset [of "decode_elements ws buf"], of "image_mset no_error"] D(1)
      mset_decoded_answers [OF assms(3)] by (simp add: rs_def flip: mset_map)
  moreover have "sorted (map rs_ID (map no_error rs))"
    using srt_sorted [of "decode_elements ws buf"] by (simp add: rs_def comp_def)
  ultimately show r: "map no_error rs = map (answer_response ans) requests"
    by (rule sorted_answers [OF assms(1)])
  have "ws \<noteq> []" using assms(2) len by auto
  with assms(4) obtain w ws' old buf' where "ws = w # ws'" "buf = old # buf'" by (meson neq_Nil_conv)
  with sub assms(5) have "decode_element w old \<in> set rs" "rs_Error (decode_element w old) = Some msg"
    using decode_stale(2) [of w ans requests old] by (simp_all add: rs_def)
  then show e: "\<exists>r \<in> set rs. rs_Error r = Some msg" by blast
  have ids: "map rs_ID rs = map rq_ID requests"
    using arg_cong [OF r, of "map rs_ID"] by (simp add: comp_def answer_response_def)
  have "rs_Result x \<in> ans ` set requests" if "x \<in> set rs" for x
  proof -
    have "no_error x \<in> answer_response ans ` set requests" using that r by (metis image_eqI list.set_map)
    then obtain q where q: "q \<in> set requests" "no_error x = answer_response ans q" by blast
    then have "rs_Result x = ans q" using no_error_simps(2) [of x] by (simp add: answer_response_def)
    with q(1) show ?thesis by simp
  qed
  then have v: "validate_responses rs requests = Fatal (Wrap ''RPC error in batch'' (Fail msg))"
    if "\<And>q. q \<in> set requests \<Longrightarrow> ans q \<noteq> []"
    using D(2) e that by (intro validate_stale [OF ids]) (fastforce simp: rs_def)+
  show "\<exists>buf'. call_attempt srt requests (Reply None (Some ws)) buf =
      (Fatal (Wrap ''RPC error in batch'' (Fail msg)), rs, buf')" if "\<And>q. q \<in> set requests \<Longrightarrow> ans q \<noteq> []"
    using v [OF that] len by (auto simp: call_attempt_def decode_slice_def Let_def rs_def)
  show "\<exists>buf'. debug_attempt srt requests (Reply None (Some ws)) buf = (Accepted, rs, buf')"
    using ids len validate_debug_Accepted [of rs requests]
    by (auto simp: debug_attempt_def decode_slice_def Let_def rs_def)
qed

end

text \<open>C25: A retried batch may inherit an error that is over: the responses are decoded into the slice of
  the failed attempt, and an error that the new response object does not mention stays.  For any
  batch of requests: let the first attempt bring error objects with a message, too few or too many
  of them (a count mismatch, to be retried), and the second attempt the result of every request, in
  any order and without an error member (an \<open>"error": null\<close> would clear it).  Then
  \<open>batchRpcCall\<close> fails at once with the old message, and \<open>batchRpcCallDebug\<close> returns the new results,
  one of them with the old error beside it.\<close>

theorem stale_error_survives_retry:
  assumes "slice_sort srt" "0 < maxRetries f" "ordered_requests requests" "requests \<noteq> []"
    and "replies 0 = Reply None (Some es)" "es \<noteq> []" "length es \<noteq> length requests"
    and "\<forall>w \<in> set es. w_error w = ErrorObject (Some msg)"
    and "replies 1 = Reply None (Some ws)" "mset ws = mset (map (answer_wire ans) requests)"
    and "\<And>q. q \<in> set requests \<Longrightarrow> ans q \<noteq> []"
  shows "batchRpcCall f srt requests replies = Inl (Wrap ''RPC error in batch'' (Fail msg)) \<and>
    (\<exists>responses. batchRpcCallDebug f srt requests replies = Inr responses \<and>
      map no_error responses = map (answer_response ans) requests \<and>
      (\<exists>r \<in> set responses. rs_Error r = Some msg))"
proof -
  obtain post where post: "attempts f replies = replies 0 # replies 1 # post"
    using attempts_split [of 1 f replies] assms(2) by auto
  note first = slice_sort.first_attempt_errors [OF assms(1,6-8)]
  note second = slice_sort.second_attempt_stale [OF assms(1,3,4,10)]
  obtain e0 rs0 buf0 where c: "call_attempt srt requests (Reply None (Some es)) [] = (Again e0, rs0, buf0)"
    "buf0 \<noteq> []" "\<forall>r \<in> set buf0. rs_Error r = Some msg" using first(1) by blast
  have "\<exists>buf'. call_attempt srt requests (Reply None (Some ws)) buf0 =
      (Fatal (Wrap ''RPC error in batch'' (Fail msg)), srt (decode_elements ws buf0), buf')"
    by (rule second(3) [OF c(2,3) assms(11)])
  with c(1) have "batchRpcCall f srt requests replies = Inl (Wrap ''RPC error in batch'' (Fail msg))"
    using assms(4) by (auto simp: batchRpcCall_def post assms(5) assms(9) [unfolded One_nat_def])
  moreover obtain e rs buf where f: "debug_attempt srt requests (Reply None (Some es)) [] = (Again e, rs, buf)"
    "buf \<noteq> []" "\<forall>r \<in> set buf. rs_Error r = Some msg" using first(2) by blast
  then have "batchRpcCallDebug f srt requests replies = Inr (srt (decode_elements ws buf))"
    using second(4) [OF f(2,3)] assms(4) by (auto simp: batchRpcCallDebug_def post assms(5) assms(9) [unfolded One_nat_def])
  ultimately show ?thesis using second(1,2) [OF f(2,3)] by simp
qed

definition stale_replies :: "string \<Rightarrow> (JSONRPCRequest \<Rightarrow> bytes) \<Rightarrow> nat \<Rightarrow> reply" where
  "stale_replies msg ans k =
     (if k = 0 then Reply None (Some [\<lparr>w_id = Some 0, w_result = None, w_error = ErrorObject (Some msg)\<rparr>])
      else Reply None (Some (map (answer_wire ans) demo_requests)))"

theorem stale_error_survives_retry_witness:
  "batchRpcCall (NewFetcher demo_controller_state) (sort_key rs_ID) demo_requests
      (stale_replies ''busy'' (\<lambda>q. ''0x1'')) = Inl (Wrap ''RPC error in batch'' (Fail ''busy''))"
  using stale_error_survives_retry [OF sort_by_id.slice_sort_axioms, of "NewFetcher demo_controller_state"
      demo_requests "stale_replies ''busy'' (\<lambda>q. ''0x1'')"]
  by (simp add: stale_replies_def demo_requests_def ordered_requests_def)

end
