(* ===== verification/Fetch.thy ===== *)
theory Fetch
  imports Rpc Types
begin

section \<open>Fetching one block with its receipts and traces\<close>

text \<open>
  \<open>evm-ingestion/rpc/fetcher.go\<close>: \<open>fetchSingleBlock\<close> and the three functions that spread its
  requests over batches.  The batches of one function run in goroutines of their own, each under a
  slot of the rate controller; a \<open>stage\<close> says in which order they enter their critical sections
  and what each call meets.  \<open>jt\<close> is how \<open>encoding/json\<close> reads text.
\<close>

subsection \<open>The data\<close>

record txInfo =
  ti_hash :: string
  ti_blockNum :: u64
  ti_blockIdx :: nat
  ti_txIdx :: nat

text \<open>
  What one \<open>controller.Execute\<close> meets: waiting for a slot may end with the error of the context;
  otherwise the HTTP attempts for a batch of requests bring \<open>replies\<close>: they depend on what is asked.
\<close>

record call =
  acquire_err :: "error option"
  replies :: "JSONRPCRequest list \<Rightarrow> nat \<Rightarrow> reply"

definition Execute :: "call \<Rightarrow> ((JSONRPCRequest list \<Rightarrow> nat \<Rightarrow> reply) \<Rightarrow> 'a result) \<Rightarrow> 'a result" where
  "Execute c fn = (case acquire_err c of Some err \<Rightarrow> Inl err | None \<Rightarrow> fn (replies c))"

record 'c stage =
  order :: "nat \<Rightarrow> nat list"
  calls :: "nat \<Rightarrow> 'c"

record net =
  net_blocks :: "call stage"
  net_receipts :: "call stage"
  net_block_traces :: "call stage"
  net_tx_traces :: "(nat \<Rightarrow> call) stage"

subsection \<open>Goroutines over batches\<close>

text \<open>The first error is kept; what the others write stays written.\<close>

fun run_batches ::
  "('q \<Rightarrow> 's \<Rightarrow> error option \<times> 's) \<Rightarrow> 'q list \<Rightarrow> error option \<times> 's \<Rightarrow> error option \<times> 's" where
  "run_batches worker [] st = st"
| "run_batches worker (b # bs) (batchErr, s) =
     (case worker b s of
        (err, s') \<Rightarrow> run_batches worker bs (case batchErr of None \<Rightarrow> err | Some e \<Rightarrow> Some e, s'))"

definition scheduled :: "'c stage \<Rightarrow> 'q list \<Rightarrow> (nat \<times> 'q) list" where
  "scheduled st batches = map (\<lambda>i. (i, batches ! i)) (filter (\<lambda>i. i < length batches) (order st (length batches)))"

subsection \<open>Blocks\<close>

text \<open>The state is the slice \<open>blocks\<close>; \<open>None\<close> is the panic of an index out of range.\<close>

fun store_blocks ::
  "json_text \<Rightarrow> JSONRPCResponse list \<Rightarrow> RpcBlock list option \<Rightarrow> error option \<times> RpcBlock list option" where
  "store_blocks jt rs None = (None, None)"
| "store_blocks jt [] (Some blocks) = (None, Some blocks)"
| "store_blocks jt (resp # rs) (Some blocks) =
     (case unm_block jt (rs_Result resp) of
        Inl err \<Rightarrow> (Some (Wrap ''failed to unmarshal block'' err), Some blocks)
      | Inr block \<Rightarrow>
          store_blocks jt rs
            (if 0 \<le> rs_ID resp \<and> nat (rs_ID resp) < length blocks
             then Some (blocks[nat (rs_ID resp) := block]) else None))"

definition block_requests :: "u64 \<Rightarrow> nat \<Rightarrow> JSONRPCRequest list" where
  "block_requests start numBlocks =
     map (\<lambda>i. \<lparr>rq_Method = ''eth_getBlockByNumber'',
                rq_Params = [PString (''0x'' @ hex (unat (start + of_nat i))), PBool True],
                rq_ID = int i\<rparr>) [0..<numBlocks]"

definition block_worker ::
  "Fetcher \<Rightarrow> (JSONRPCResponse list \<Rightarrow> JSONRPCResponse list) \<Rightarrow> json_text \<Rightarrow>
    call stage \<Rightarrow> nat \<times> JSONRPCRequest list \<Rightarrow> RpcBlock list option \<Rightarrow>
    error option \<times> RpcBlock list option" where
  "block_worker f srt jt st batch blocks =
     (case batch of (idx, requests) \<Rightarrow>
        case Execute (calls st idx) (\<lambda>node. batchRpcCall f srt requests (node requests)) of
          Inl err \<Rightarrow> (Some (Wrap ''batch failed'' err), blocks)
        | Inr responses \<Rightarrow> store_blocks jt responses blocks)"

text \<open>\<open>None\<close> is a panic: \<open>make\<close> with a negative length, \<open>chunksOf\<close>, or an index out of range.\<close>

definition fetchBlocksBatch ::
  "Fetcher \<Rightarrow> (JSONRPCResponse list \<Rightarrow> JSONRPCResponse list) \<Rightarrow> json_text \<Rightarrow>
    call stage \<Rightarrow> u64 \<Rightarrow> u64 \<Rightarrow> RpcBlock list result option" where
  "fetchBlocksBatch f srt jt st start to =
     (let numBlocks = sint (to - start + 1) in
      if numBlocks < 0 then None
      else case chunksOf (block_requests start (nat numBlocks)) (batchSize f) of
        None \<Rightarrow> None
      | Some batches \<Rightarrow>
          (case run_batches (block_worker f srt jt st) (scheduled st batches)
                  (None, Some (replicate (nat numBlocks) zero_Block)) of
             (batchErr, None) \<Rightarrow> None
           | (Some batchErr, Some blocks) \<Rightarrow> Some (Inl batchErr)
           | (None, Some blocks) \<Rightarrow> Some (Inr blocks)))"

subsection \<open>Receipts\<close>

text \<open>\<open>txHashToIdx\<close>, a map from request identifiers to hashes; a missing key reads as "".\<close>

definition hash_at :: "txInfo list \<Rightarrow> int \<Rightarrow> string" where
  "hash_at txInfos i = (if 0 \<le> i \<and> nat i < length txInfos then ti_hash (txInfos ! nat i) else '''')"

definition tx_requests :: "string \<Rightarrow> param list \<Rightarrow> txInfo list \<Rightarrow> JSONRPCRequest list" where
  "tx_requests meth extra txInfos =
     map (\<lambda>(i, tx). \<lparr>rq_Method = meth, rq_Params = PString (ti_hash tx) # extra, rq_ID = int i\<rparr>)
       (enumerate 0 txInfos)"

fun store_receipts ::
  "json_text \<Rightarrow> txInfo list \<Rightarrow> JSONRPCResponse list \<Rightarrow> (string \<rightharpoonup> Receipt) \<Rightarrow>
    error option \<times> (string \<rightharpoonup> Receipt)" where
  "store_receipts jt txInfos [] receiptsMap = (None, receiptsMap)"
| "store_receipts jt txInfos (resp # rs) receiptsMap =
     (let txHash = hash_at txInfos (rs_ID resp) in
      case unm_receipt jt (rs_Result resp) of
        Inl err \<Rightarrow> (Some (Wrap ''failed to unmarshal receipt'' err), receiptsMap)
      | Inr receipt \<Rightarrow> store_receipts jt txInfos rs (receiptsMap(txHash \<mapsto> receipt)))"

definition receipt_worker ::
  "Fetcher \<Rightarrow> (JSONRPCResponse list \<Rightarrow> JSONRPCResponse list) \<Rightarrow> json_text \<Rightarrow>
    call stage \<Rightarrow> txInfo list \<Rightarrow> nat \<times> JSONRPCRequest list \<Rightarrow> (string \<rightharpoonup> Receipt) \<Rightarrow>
    error option \<times> (string \<rightharpoonup> Receipt)" where
  "receipt_worker f srt jt st txInfos batch receiptsMap =
     (case batch of (idx, requests) \<Rightarrow>
        case Execute (calls st idx) (\<lambda>node. batchRpcCall f srt requests (node requests)) of
          Inl err \<Rightarrow> (Some (Wrap ''receipt batch failed'' err), receiptsMap)
        | Inr responses \<Rightarrow> store_receipts jt txInfos responses receiptsMap)"

definition fetchReceiptsBatch ::
  "Fetcher \<Rightarrow> (JSONRPCResponse list \<Rightarrow> JSONRPCResponse list) \<Rightarrow> json_text \<Rightarrow>
    call stage \<Rightarrow> txInfo list \<Rightarrow> (string \<rightharpoonup> Receipt) result option" where
  "fetchReceiptsBatch f srt jt st txInfos =
     (case chunksOf (tx_requests ''eth_getTransactionReceipt'' [] txInfos) (batchSize f) of
        None \<Rightarrow> None
      | Some batches \<Rightarrow>
          Some (case run_batches (receipt_worker f srt jt st txInfos) (scheduled st batches)
                       (None, Map.empty) of
                (Some batchErr, receiptsMap) \<Rightarrow> Inl batchErr
              | (None, receiptsMap) \<Rightarrow> Inr receiptsMap))"

subsection \<open>Traces\<close>

definition callTracer :: param where "callTracer = PMap [(''tracer'', ''callTracer'')]"

definition block_trace_requests :: "u64 \<Rightarrow> nat \<Rightarrow> JSONRPCRequest list" where
  "block_trace_requests start numBlocks =
     map (\<lambda>i. \<lparr>rq_Method = ''debug_traceBlockByNumber'',
                rq_Params = [PString (''0x'' @ hex (unat (start + of_nat i))), callTracer],
                rq_ID = int i\<rparr>) [0..<numBlocks]"

text \<open>The state of the first attempt is \<open>blockTraceSuccess\<close> and \<open>blockTraces\<close>.\<close>

fun store_block_traces ::
  "json_text \<Rightarrow> u64 \<Rightarrow> JSONRPCResponse list \<Rightarrow>
    bool \<times> (u64 \<rightharpoonup> TraceResultOptional list) \<Rightarrow> bool \<times> (u64 \<rightharpoonup> TraceResultOptional list)" where
  "store_block_traces jt start [] st = st"
| "store_block_traces jt start (resp # rs) (success, blockTraces) =
     (case rs_Error resp of
        Some msg \<Rightarrow> (False, blockTraces)
      | None \<Rightarrow>
          (case unm_traces jt (rs_Result resp) of
             Inl err \<Rightarrow> (False, blockTraces)
           | Inr traces \<Rightarrow>
               store_block_traces jt start rs
                 (success, blockTraces(start + of_int (rs_ID resp) \<mapsto> traces))))"

fun collect_traces ::
  "(u64 \<rightharpoonup> TraceResultOptional list) \<Rightarrow> txInfo list \<Rightarrow> (string \<rightharpoonup> TraceResultOptional) \<Rightarrow>
    (string \<rightharpoonup> TraceResultOptional) result" where
  "collect_traces blockTraces [] tracesMap = Inr tracesMap"
| "collect_traces blockTraces (ti # tis) tracesMap =
     (case blockTraces (ti_blockNum ti) of
        None \<Rightarrow> Inl (Fail ''block traces missing from response'')
      | Some traces \<Rightarrow>
          if ti_txIdx ti \<ge> length traces then Inl (Fail ''block has fewer traces than its tx index'')
          else collect_traces blockTraces tis (tracesMap(ti_hash ti \<mapsto> traces ! ti_txIdx ti)))"

definition isPrecompileError :: "string \<Rightarrow> bool" where
  "isPrecompileError msg = Contains msg ''incorrect number of top-level calls''"

text \<open>
  The retry loop around the traces of one batch of transactions: \<open>cs\<close> are the calls of its
  attempts and \<open>lastResult\<close> is what \<open>responses\<close> and \<open>err\<close> hold.
\<close>

fun trace_attempts ::
  "Fetcher \<Rightarrow> (JSONRPCResponse list \<Rightarrow> JSONRPCResponse list) \<Rightarrow> JSONRPCRequest list \<Rightarrow> call list \<Rightarrow>
    JSONRPCResponse list result \<Rightarrow> JSONRPCResponse list result" where
  "trace_attempts f srt requests [] lastResult = lastResult"
| "trace_attempts f srt requests (c # cs) lastResult =
     (case Execute c (\<lambda>node. batchRpcCallDebug f srt requests (node requests)) of
        Inl err \<Rightarrow> trace_attempts f srt requests cs (Inl err)
      | Inr responses \<Rightarrow>
          if list_ex (\<lambda>resp. case rs_Error resp of None \<Rightarrow> False
                              | Some msg \<Rightarrow> \<not> isPrecompileError msg) responses
          then trace_attempts f srt requests cs (Inr responses)
          else Inr responses)"

fun store_tx_traces ::
  "json_text \<Rightarrow> txInfo list \<Rightarrow> JSONRPCResponse list \<Rightarrow>
    (string \<rightharpoonup> TraceResultOptional) \<Rightarrow> error option \<times> (string \<rightharpoonup> TraceResultOptional)" where
  "store_tx_traces jt txInfos [] tracesMap = (None, tracesMap)"
| "store_tx_traces jt txInfos (resp # rs) tracesMap =
     (let txHash = hash_at txInfos (rs_ID resp) in
      case rs_Error resp of
        Some msg \<Rightarrow>
          if isPrecompileError msg
          then store_tx_traces jt txInfos rs (tracesMap(txHash \<mapsto> \<lparr>TxHash = txHash, trc_Result = None\<rparr>))
          else (Some (Wrap ''trace failed'' (Fail msg)), tracesMap)
      | None \<Rightarrow>
          (case unm_trace jt (rs_Result resp) of
             Inl err \<Rightarrow> (Some (Wrap ''failed to parse trace'' err), tracesMap)
           | Inr trace \<Rightarrow>
               store_tx_traces jt txInfos rs
                 (tracesMap(txHash \<mapsto> \<lparr>TxHash = txHash, trc_Result = Some trace\<rparr>))))"

definition block_trace_worker ::
  "Fetcher \<Rightarrow> (JSONRPCResponse list \<Rightarrow> JSONRPCResponse list) \<Rightarrow> json_text \<Rightarrow>
    call stage \<Rightarrow> u64 \<Rightarrow> nat \<times> JSONRPCRequest list \<Rightarrow>
    bool \<times> (u64 \<rightharpoonup> TraceResultOptional list) \<Rightarrow>
    error option \<times> bool \<times> (u64 \<rightharpoonup> TraceResultOptional list)" where
  "block_trace_worker f srt jt st start batch s =
     (case batch of (idx, requests) \<Rightarrow>
        case Execute (calls st idx) (\<lambda>node. batchRpcCallDebug f srt requests (node requests)) of
          Inl err \<Rightarrow> (Some (Wrap ''debug batch failed'' err), False, snd s)
        | Inr responses \<Rightarrow> (None, store_block_traces jt start responses s))"

definition tx_trace_worker ::
  "Fetcher \<Rightarrow> (JSONRPCResponse list \<Rightarrow> JSONRPCResponse list) \<Rightarrow> json_text \<Rightarrow>
    (nat \<Rightarrow> call) stage \<Rightarrow> txInfo list \<Rightarrow> nat \<times> JSONRPCRequest list \<Rightarrow>
    (string \<rightharpoonup> TraceResultOptional) \<Rightarrow> error option \<times> (string \<rightharpoonup> TraceResultOptional)" where
  "tx_trace_worker f srt jt st txInfos batch tracesMap =
     (case batch of (idx, requests) \<Rightarrow>
        case trace_attempts f srt requests (map (calls st idx) [0..<nat (maxRetries f + 1)]) (Inr []) of
          Inl err \<Rightarrow> (Some (Wrap ''trace batch failed after retries'' err), tracesMap)
        | Inr responses \<Rightarrow> store_tx_traces jt txInfos responses tracesMap)"

definition fetchTracesBatch ::
  "Fetcher \<Rightarrow> (JSONRPCResponse list \<Rightarrow> JSONRPCResponse list) \<Rightarrow> json_text \<Rightarrow>
    call stage \<Rightarrow> (nat \<Rightarrow> call) stage \<Rightarrow> u64 \<Rightarrow> u64 \<Rightarrow> txInfo list \<Rightarrow>
    (string \<rightharpoonup> TraceResultOptional) result option" where
  "fetchTracesBatch f srt jt bst tst start to txInfos =
     (case chunksOf (block_trace_requests start (nat (sint (to - start + 1)))) (debugBatchSize f) of
        None \<Rightarrow> None
      | Some blockBatches \<Rightarrow>
          (case run_batches (block_trace_worker f srt jt bst start) (scheduled bst blockBatches)
                  (None, True, Map.empty) of
             (blockErr, success, blockTraces) \<Rightarrow>
               if success \<and> blockErr = None then Some (collect_traces blockTraces txInfos Map.empty)
               else
                 (case chunksOf (tx_requests ''debug_traceTransaction'' [callTracer] txInfos)
                         (debugBatchSize f) of
                    None \<Rightarrow> None
                  | Some txBatches \<Rightarrow>
                      Some (case run_batches (tx_trace_worker f srt jt tst txInfos)
                                   (scheduled tst txBatches) (None, Map.empty) of
                              (Some txBatchErr, tracesMap) \<Rightarrow> Inl txBatchErr
                            | (None, tracesMap) \<Rightarrow> Inr tracesMap))))"

subsection \<open>The block\<close>

definition tx_infos :: "u64 \<Rightarrow> Transaction list \<Rightarrow> txInfo list" where
  "tx_infos blockNum txs =
     map (\<lambda>(txIdx, tx). \<lparr>ti_hash = tx_Hash tx, ti_blockNum = blockNum, ti_blockIdx = 0, ti_txIdx = txIdx\<rparr>)
       (enumerate 0 txs)"

fun assemble ::
  "(string \<rightharpoonup> Receipt) \<Rightarrow> (string \<rightharpoonup> TraceResultOptional) \<Rightarrow> Transaction list \<Rightarrow>
    (Receipt list \<times> TraceResultOptional list) result" where
  "assemble receiptsMap tracesMap [] = Inr ([], [])"
| "assemble receiptsMap tracesMap (tx # txs) =
     (case receiptsMap (tx_Hash tx) of
        None \<Rightarrow> Inl (Fail ''missing receipt'')
      | Some receipt \<Rightarrow>
          let trace = (case tracesMap (tx_Hash tx) of
                         Some trace \<Rightarrow> trace
                       | None \<Rightarrow> \<lparr>TxHash = tx_Hash tx, trc_Result = None\<rparr>) in
          (case assemble receiptsMap tracesMap txs of
             Inl err \<Rightarrow> Inl err
           | Inr (receipts, traces) \<Rightarrow> Inr (receipt # receipts, trace # traces)))"

definition fetchSingleBlock ::
  "Fetcher \<Rightarrow> (JSONRPCResponse list \<Rightarrow> JSONRPCResponse list) \<Rightarrow> json_text \<Rightarrow>
    net \<Rightarrow> u64 \<Rightarrow> NormalizedBlock result option" where
  "fetchSingleBlock f srt jt net blockNum =
     (case fetchBlocksBatch f srt jt (net_blocks net) blockNum blockNum of
        None \<Rightarrow> None
      | Some (Inl err) \<Rightarrow> Some (Inl (Wrap ''failed to fetch block'' err))
      | Some (Inr []) \<Rightarrow> Some (Inl (Fail ''no block returned''))
      | Some (Inr (block # blocks)) \<Rightarrow>
          let txInfos = tx_infos blockNum (block_txs block) in
          (case if txInfos \<noteq> [] then fetchReceiptsBatch f srt jt (net_receipts net) txInfos
                else Some (Inr Map.empty) of
             None \<Rightarrow> None
           | Some (Inl err) \<Rightarrow> Some (Inl (Wrap ''failed to fetch receipts'' err))
           | Some (Inr receiptsMap) \<Rightarrow>
               (case if txInfos \<noteq> []
                     then fetchTracesBatch f srt jt (net_block_traces net) (net_tx_traces net)
                            blockNum blockNum txInfos
                     else Some (Inr Map.empty) of
                  None \<Rightarrow> None
                | Some (Inl err) \<Rightarrow> Some (Inl (Wrap ''failed to fetch traces'' err))
                | Some (Inr tracesMap) \<Rightarrow>
                    Some (case assemble receiptsMap tracesMap (block_txs block) of
                            Inl err \<Rightarrow> Inl err
                          | Inr (receipts, traces) \<Rightarrow>
                              Inr \<lparr>nb_Block = block, nb_Traces = Some traces, nb_Receipts = Some receipts\<rparr>))))"

subsection \<open>What batches in any order leave behind\<close>

definition every_batch :: "'c stage \<Rightarrow> bool" where
  "every_batch st \<longleftrightarrow> (\<forall>n. mset (order st n) = mset [0..<n])"

lemma in_scheduled:
  "(idx, b) \<in> set (scheduled st batches) \<Longrightarrow> idx < length batches \<and> b = batches ! idx"
  by (auto simp: scheduled_def)

lemma scheduled_all:
  assumes "every_batch st" "idx < length batches"
  shows "(idx, batches ! idx) \<in> set (scheduled st batches)"
proof -
  have "set (order st (length batches)) = {0..<length batches}"
    using assms(1) by (metis every_batch_def mset_eq_setD set_upt)
  with assms(2) show ?thesis by (auto simp: scheduled_def)
qed

lemma run_batches_sticky: "fst (run_batches worker bs (Some e, s)) = Some e"
  by (induction worker bs "(Some e, s)" arbitrary: s rule: run_batches.induct) (auto split: prod.splits)

lemma run_batches_Cons_None:
  assumes "run_batches worker (b # bs) (None, s) = (None, s')"
  obtains s1 where "worker b s = (None, s1)" "run_batches worker bs (None, s1) = (None, s')"
proof -
  obtain err s1 where w: "worker b s = (err, s1)" by fastforce
  with assms have r: "run_batches worker bs (err, s1) = (None, s')" by simp
  with run_batches_sticky [of worker bs _ s1] have "err = None" by (cases err) (metis fst_conv option.distinct(1))+
  with w r that show thesis by simp
qed

lemma run_batches_inv:
  assumes "run_batches worker bs (None, s) = (None, s')" "I s"
    and "\<And>b s s1. b \<in> set bs \<Longrightarrow> I s \<Longrightarrow> worker b s = (None, s1) \<Longrightarrow> I s1"
  shows "I s'"
  using assms
proof (induction bs arbitrary: s)
  case (Cons b bs)
  from Cons.prems(1) obtain s1 where s1: "worker b s = (None, s1)"
    "run_batches worker bs (None, s1) = (None, s')" by (rule run_batches_Cons_None)
  from Cons.prems(2,3) s1(1) have "I s1" by (metis list.set_intros(1))
  with s1(2) Cons.prems(3) show ?case by (intro Cons.IH [of s1]) (simp_all, metis)
qed simp

lemma run_batches_each:
  assumes "run_batches worker bs (None, s) = (None, s')" "b \<in> set bs"
    and own: "\<And>s s1. worker b s = (None, s1) \<Longrightarrow> J s1"
    and others: "\<And>c s s1. c \<in> set bs \<Longrightarrow> J s \<Longrightarrow> worker c s = (None, s1) \<Longrightarrow> J s1"
  shows "J s'"
  using assms
proof (induction bs arbitrary: s)
  case (Cons c bs)
  from Cons.prems(1) obtain s1 where s1: "worker c s = (None, s1)"
    "run_batches worker bs (None, s1) = (None, s')" by (rule run_batches_Cons_None)
  show ?case
  proof (cases "b \<in> set bs")
    case True
    show ?thesis by (rule Cons.IH [OF s1(2) True]) (rule Cons.prems(3), assumption, rule Cons.prems(4), auto)
  next
    case False
    with Cons.prems(2) have "b = c" by simp
    with Cons.prems(3) s1(1) have "J s1" by blast
    show ?thesis
      by (rule run_batches_inv [OF s1(2), of J, OF \<open>J s1\<close>]) (rule Cons.prems(4), auto)
  qed
qed simp

lemma run_batches_ok:
  "(\<And>b s. b \<in> set bs \<Longrightarrow> fst (worker b s) = None) \<Longrightarrow> fst (run_batches worker bs (None, s)) = None"
proof (induction bs arbitrary: s)
  case (Cons b bs)
  from Cons.prems [of b s] obtain s1 where "worker b s = (None, s1)" by (metis list.set_intros(1) prod.collapse)
  with Cons show ?case by simp
qed simp

subsection \<open>Requests and identifiers\<close>

lemma tx_requests_nth:
  "i < length tis \<Longrightarrow> tx_requests meth extra tis ! i =
    \<lparr>rq_Method = meth, rq_Params = PString (ti_hash (tis ! i)) # extra, rq_ID = int i\<rparr>"
  by (simp add: tx_requests_def nth_enumerate_eq)

lemma length_tx_requests [simp]: "length (tx_requests meth extra tis) = length tis"
  by (simp add: tx_requests_def)

lemma ordered_tx_requests: "ordered_requests (tx_requests meth extra tis)"
proof -
  have "map rq_ID (tx_requests meth extra tis) = map int [0..<length tis]"
    by (rule nth_equalityI) (simp_all add: tx_requests_nth)
  then show ?thesis by (simp add: ordered_requests_def sorted_wrt_map)
qed

lemma tx_infos_simps [simp]:
  "length (tx_infos n txs) = length txs"
  "tx_infos n txs = [] \<longleftrightarrow> txs = []"
  "i < length txs \<Longrightarrow> tx_infos n txs ! i =
    \<lparr>ti_hash = tx_Hash (txs ! i), ti_blockNum = n, ti_blockIdx = 0, ti_txIdx = i\<rparr>"
  by (simp_all add: tx_infos_def nth_enumerate_eq flip: length_0_conv)

lemma map_hash_tx_infos [simp]: "map ti_hash (tx_infos n txs) = map tx_Hash txs"
  by (rule nth_equalityI) simp_all

text \<open>The request and the response with identifier \<open>i\<close> belong to batch \<open>i div step\<close>.\<close>

lemma response_index:
  assumes "idx < length (chunks step (tx_requests meth extra tis))"
    and "map rs_ID responses = map rq_ID (chunks step (tx_requests meth extra tis) ! idx)"
    and "r \<in> set responses"
  obtains i where "i < length tis" "rs_ID r = int i" "i div step = idx" "hash_at tis (rs_ID r) = ti_hash (tis ! i)"
proof -
  have "rs_ID r \<in> set (map rq_ID (chunks step (tx_requests meth extra tis) ! idx))"
    using assms(3) by (metis assms(2) image_eqI list.set_map)
  then obtain q where q: "q \<in> set (chunks step (tx_requests meth extra tis) ! idx)" "rs_ID r = rq_ID q"
    by auto
  from in_chunk_index [OF assms(1) q(1)] obtain i
    where "i < length tis" "q = tx_requests meth extra tis ! i" "i div step = idx" by auto
  with q(2) that show thesis by (simp add: tx_requests_nth hash_at_def)
qed

lemma index_response:
  assumes "i < length tis" "0 < step" "idx = i div step"
    and "map rs_ID responses = map rq_ID (chunks step (tx_requests meth extra tis) ! idx)"
  obtains r where "r \<in> set responses" "hash_at tis (rs_ID r) = ti_hash (tis ! i)"
proof -
  have "i mod step < length (chunks step (tx_requests meth extra tis) ! idx)"
    "chunks step (tx_requests meth extra tis) ! idx ! (i mod step) = tx_requests meth extra tis ! i"
    using nth_chunks [of step i "tx_requests meth extra tis"] assms(1-3) by simp_all
  moreover from assms(4) have "length responses = length (chunks step (tx_requests meth extra tis) ! idx)"
    by (metis length_map)
  ultimately have r: "i mod step < length responses" "rs_ID (responses ! (i mod step)) = int i"
    using assms(1) arg_cong [OF assms(4), of "\<lambda>xs. xs ! (i mod step)"] by (simp_all add: tx_requests_nth)
  then show thesis using that [OF nth_mem [OF r(1)]] assms(1) by (simp add: hash_at_def)
qed

subsection \<open>Receipts\<close>

lemma store_receipts_entries:
  "store_receipts jt tis rs m = (None, m') \<Longrightarrow> m' k = Some v \<Longrightarrow>
    m k = Some v \<or> (\<exists>r \<in> set rs. k = hash_at tis (rs_ID r) \<and> unm_receipt jt (rs_Result r) = Inr v)"
  by (induction jt tis rs m rule: store_receipts.induct) (force simp: Let_def split: sum.splits if_splits)+

lemma store_receipts_dom:
  "store_receipts jt tis rs m = (None, m') \<Longrightarrow> dom m' = dom m \<union> (\<lambda>r. hash_at tis (rs_ID r)) ` set rs"
  by (induction jt tis rs m rule: store_receipts.induct) (auto simp: Let_def split: sum.splits)

lemma Execute_Inr: "Execute c fn = Inr x \<longleftrightarrow> acquire_err c = None \<and> fn (replies c) = Inr x"
  by (auto simp: Execute_def split: option.splits)

lemma receipt_worker_None:
  assumes "receipt_worker f srt jt st tis (idx, requests) m = (None, m')"
  obtains rs where "batchRpcCall f srt requests (replies (calls st idx) requests) = Inr rs"
    "store_receipts jt tis rs m = (None, m')"
  using assms by (auto simp: receipt_worker_def Execute_Inr split: sum.splits)

text \<open>All replies of a stage are well-formed.\<close>

definition wellformed_call :: "Fetcher \<Rightarrow> call \<Rightarrow> bool" where
  "wellformed_call f c \<longleftrightarrow> (\<forall>requests. list_all wellformed_reply (attempts f (replies c requests)))"

text \<open>
  What is to be asked for the transactions with these hashes: the request for the receipt and for the
  trace of the transaction with hash \<open>h\<close> and index \<open>i\<close>, and the batch number \<open>idx\<close> of such requests.
\<close>

definition receipt_request :: "string \<Rightarrow> nat \<Rightarrow> JSONRPCRequest" where
  "receipt_request h i =
     \<lparr>rq_Method = ''eth_getTransactionReceipt'', rq_Params = [PString h], rq_ID = int i\<rparr>"

definition trace_request :: "string \<Rightarrow> nat \<Rightarrow> JSONRPCRequest" where
  "trace_request h i = \<lparr>rq_Method = ''debug_traceTransaction'',
     rq_Params = [PString h, PMap [(''tracer'', ''callTracer'')]], rq_ID = int i\<rparr>"

definition batch_of :: "(string \<Rightarrow> nat \<Rightarrow> JSONRPCRequest) \<Rightarrow> nat \<Rightarrow> string list \<Rightarrow> nat \<Rightarrow> JSONRPCRequest list" where
  "batch_of request step hashes idx =
     map (\<lambda>j. request (hashes ! j) j) [idx * step..<min (length hashes) (idx * step + step)]"

text \<open>The transaction with index \<open>i\<close> has the receipt \<open>v\<close>: so the node answered the request for it,
  sent in the batch it belongs to.\<close>

definition receipt_answered ::
  "Fetcher \<Rightarrow> json_text \<Rightarrow> call stage \<Rightarrow> string list \<Rightarrow> nat \<Rightarrow> Receipt \<Rightarrow> bool" where
  "receipt_answered f jt st hashes i v \<longleftrightarrow>
     (let idx = i div nat (batchSize f);
          requests = batch_of receipt_request (nat (batchSize f)) hashes idx in
      \<exists>res. answered (attempts f (replies (calls st idx) requests)) (int i) res \<and>
        unm_receipt jt res = Inr v)"

lemma chunks_slice: "idx < length (chunks step xs) \<Longrightarrow> chunks step xs ! idx = take step (drop (idx * step) xs)"
proof (induction step xs arbitrary: idx rule: chunks.induct)
  case (1 step xs)
  show ?case
  proof (cases "xs = [] \<or> step = 0")
    case True
    with "1.prems" show ?thesis by (subst (asm) chunks.simps) auto
  next
    case False
    then have c: "chunks step xs = take step xs # chunks step (drop step xs)" by (subst chunks.simps) simp
    with "1.prems" "1.IH" [OF False] show ?thesis by (cases idx) (auto simp: add.commute)
  qed
qed

lemma tx_requests_batch:
  assumes "idx < length (chunks step (tx_requests meth extra tis))"
    and "\<And>h i. request h i = \<lparr>rq_Method = meth, rq_Params = PString h # extra, rq_ID = int i\<rparr>"
  shows "chunks step (tx_requests meth extra tis) ! idx = batch_of request step (map ti_hash tis) idx"
  unfolding chunks_slice [OF assms(1)] batch_of_def
proof (rule nth_equalityI)
  fix i assume "i < length (take step (drop (idx * step) (tx_requests meth extra tis)))"
  then have "idx * step + i < length tis" "i < step" by auto
  then show "take step (drop (idx * step) (tx_requests meth extra tis)) ! i =
      map (\<lambda>j. request (map ti_hash tis ! j) j) [idx * step..<min (length (map ti_hash tis)) (idx * step + step)] ! i"
    using nth_upt [of "idx * step" i "min (length tis) (idx * step + step)"]
    by (simp add: tx_requests_nth assms(2))
qed auto

lemmas receipt_batch = tx_requests_batch [of _ _ "''eth_getTransactionReceipt''" "[]" _ receipt_request]
lemmas trace_batch = tx_requests_batch [of _ _ "''debug_traceTransaction''" "[callTracer]" _ trace_request]

lemma distinct_hash_index:
  assumes "distinct (map ti_hash tis)" "i < length tis" "j < length tis" "ti_hash (tis ! i) = ti_hash (tis ! j)"
  shows "i = j"
  using assms nth_eq_iff_index_eq [OF assms(1), of i j] by simp

context slice_sort
begin

text \<open>Every transaction gets an entry, and it comes from the batch of its index.\<close>

lemma receipts_map:
  assumes run: "run_batches (receipt_worker f srt jt st tis)
      (scheduled st (chunks step (tx_requests ''eth_getTransactionReceipt'' [] tis))) (None, Map.empty) = (None, m)"
    and st: "every_batch st" and step: "0 < step" and d: "distinct (map ti_hash tis)" and i: "i < length tis"
    and src: "\<And>idx rs r j v. idx < length (chunks step (tx_requests ''eth_getTransactionReceipt'' [] tis)) \<Longrightarrow>
      batchRpcCall f srt (chunks step (tx_requests ''eth_getTransactionReceipt'' [] tis) ! idx)
        (replies (calls st idx) (chunks step (tx_requests ''eth_getTransactionReceipt'' [] tis) ! idx)) = Inr rs \<Longrightarrow> r \<in> set rs \<Longrightarrow> rs_ID r = int j \<Longrightarrow> j < length tis \<Longrightarrow>
      j div step = idx \<Longrightarrow> unm_receipt jt (rs_Result r) = Inr v \<Longrightarrow> Q j v"
  obtains v where "m (ti_hash (tis ! i)) = Some v" "Q i v"
proof -
  let ?qs = "tx_requests ''eth_getTransactionReceipt'' [] tis"
  let ?P = "\<lambda>k v. \<exists>i < length tis. k = ti_hash (tis ! i) \<and> Q i v"
  have "\<forall>k v. m k = Some v \<longrightarrow> ?P k v"
  proof (rule run_batches_inv [OF run, of "\<lambda>m. \<forall>k v. m k = Some v \<longrightarrow> ?P k v"]; clarify?)
    fix idx requests m1 m2 k v
    assume b: "(idx, requests) \<in> set (scheduled st (chunks step ?qs))" and m1: "\<forall>k v. m1 k = Some v \<longrightarrow> ?P k v"
      and w: "receipt_worker f srt jt st tis (idx, requests) m1 = (None, m2)" and v: "m2 k = Some v"
    obtain rs where rs: "batchRpcCall f srt requests (replies (calls st idx) requests) = Inr rs"
      "store_receipts jt tis rs m1 = (None, m2)" by (rule receipt_worker_None [OF w])
    show "?P k v"
    proof (cases "m1 k = Some v")
      case False
      with store_receipts_entries [OF rs(2) v] obtain r
        where r: "r \<in> set rs" "k = hash_at tis (rs_ID r)" "unm_receipt jt (rs_Result r) = Inr v" by blast
      have q: "idx < length (chunks step ?qs)" "requests = chunks step ?qs ! idx"
        using in_scheduled [OF b] by simp_all
      obtain j where j: "j < length tis" "rs_ID r = int j" "j div step = idx"
          "hash_at tis (rs_ID r) = ti_hash (tis ! j)"
        by (rule response_index [OF q(1) _ r(1)]) (use batchRpcCall_ids(1) [OF rs(1)] q(2) in simp_all)
      have "Q j v" using src [OF q(1) _ r(1) j(2,1,3) r(3)] rs(1) q(2) by simp
      with j r(2) show ?thesis by auto
    qed (use m1 in blast)
  qed
  moreover have "ti_hash (tis ! i) \<in> dom m"
  proof (rule run_batches_each [OF run scheduled_all [OF st]])
    show "i div step < length (chunks step ?qs)" using nth_chunks [OF step, of i ?qs] i by simp
    fix m1 m2 assume w: "receipt_worker f srt jt st tis (i div step, chunks step ?qs ! (i div step)) m1 = (None, m2)"
    obtain rs where rs: "batchRpcCall f srt (chunks step ?qs ! (i div step))
        (replies (calls st (i div step)) (chunks step ?qs ! (i div step))) = Inr rs"
      "store_receipts jt tis rs m1 = (None, m2)" by (rule receipt_worker_None [OF w])
    obtain r where "r \<in> set rs" "hash_at tis (rs_ID r) = ti_hash (tis ! i)"
      by (rule index_response [OF i step refl batchRpcCall_ids(1) [OF rs(1)]])
    then show "ti_hash (tis ! i) \<in> dom m2" unfolding store_receipts_dom [OF rs(2)] by force
  next
    fix b m1 m2 assume "ti_hash (tis ! i) \<in> dom m1" "receipt_worker f srt jt st tis b m1 = (None, m2)"
    then show "ti_hash (tis ! i) \<in> dom m2"
      by (cases b) (auto elim!: receipt_worker_None dest!: store_receipts_dom)
  qed
  ultimately obtain v j where "m (ti_hash (tis ! i)) = Some v" "j < length tis"
    "ti_hash (tis ! i) = ti_hash (tis ! j)" "Q j v" by blast
  with that distinct_hash_index [OF d i] show thesis by blast
qed

lemma fetchReceiptsBatch_sound:
  assumes fetch: "fetchReceiptsBatch f srt jt st tis = Some (Inr m)" and st: "every_batch st"
    and wf: "\<And>idx. wellformed_call f (calls st idx)" and d: "distinct (map ti_hash tis)" and i: "i < length tis"
  obtains v where "m (ti_hash (tis ! i)) = Some v" "receipt_answered f jt st (map ti_hash tis) i v"
proof -
  let ?step = "nat (batchSize f)" and ?qs = "tx_requests ''eth_getTransactionReceipt'' [] tis"
  have step: "0 < ?step" and run: "run_batches (receipt_worker f srt jt st tis)
      (scheduled st (chunks ?step (tx_requests ''eth_getTransactionReceipt'' [] tis))) (None, Map.empty) = (None, m)"
    using fetch by (auto simp: fetchReceiptsBatch_def chunksOf_def split: if_splits prod.splits option.splits)
  show thesis
  proof (rule receipts_map [OF run st step d i, of "receipt_answered f jt st (map ti_hash tis)"])
    fix idx rs r j v
    assume q: "idx < length (chunks ?step ?qs)"
      and rs: "batchRpcCall f srt (chunks ?step ?qs ! idx) (replies (calls st idx) (chunks ?step ?qs ! idx)) = Inr rs"
      and r: "r \<in> set rs" "rs_ID r = int j" "j div ?step = idx" "unm_receipt jt (rs_Result r) = Inr v"
    have "answered (attempts f (replies (calls st idx) (chunks ?step ?qs ! idx))) (rs_ID r) (rs_Result r)"
      using batchRpcCall_answered [OF rs _ r(1)] wf [of idx] by (simp add: wellformed_call_def)
    then show "receipt_answered f jt st (map ti_hash tis) j v"
      using r receipt_batch [OF q receipt_request_def] by (auto simp: receipt_answered_def Let_def)
  qed (rule that)
qed

end

subsection \<open>Traces\<close>

definition tx_trace_from ::
  "json_text \<Rightarrow> string \<Rightarrow> JSONRPCResponse \<Rightarrow> TraceResultOptional \<Rightarrow> bool" where
  "tx_trace_from jt h r v \<longleftrightarrow>
     (case rs_Error r of
        Some msg \<Rightarrow> isPrecompileError msg \<and> v = \<lparr>TxHash = h, trc_Result = None\<rparr>
      | None \<Rightarrow> (\<exists>tr. unm_trace jt (rs_Result r) = Inr tr \<and> v = \<lparr>TxHash = h, trc_Result = Some tr\<rparr>))"

lemma store_tx_traces_Cons:
  assumes "store_tx_traces jt tis (r # rs) m = (None, m')"
  obtains v where "tx_trace_from jt (hash_at tis (rs_ID r)) r v"
    "store_tx_traces jt tis rs (m(hash_at tis (rs_ID r) \<mapsto> v)) = (None, m')"
  using assms by (auto simp: tx_trace_from_def Let_def split: option.splits sum.splits if_splits)

lemma store_tx_traces_entries:
  "store_tx_traces jt tis rs m = (None, m') \<Longrightarrow> m' k = Some v \<Longrightarrow>
    m k = Some v \<or> (\<exists>r \<in> set rs. k = hash_at tis (rs_ID r) \<and> tx_trace_from jt k r v)"
proof (induction rs arbitrary: m)
  case (Cons r rs)
  from Cons.prems(1) obtain v1 where v1: "tx_trace_from jt (hash_at tis (rs_ID r)) r v1"
    "store_tx_traces jt tis rs (m(hash_at tis (rs_ID r) \<mapsto> v1)) = (None, m')"
    by (rule store_tx_traces_Cons)
  from Cons.IH [OF v1(2) Cons.prems(2)] v1(1) show ?case by (auto split: if_splits)
qed simp

lemma store_tx_traces_dom:
  "store_tx_traces jt tis rs m = (None, m') \<Longrightarrow> dom m' = dom m \<union> (\<lambda>r. hash_at tis (rs_ID r)) ` set rs"
proof (induction rs arbitrary: m)
  case (Cons r rs)
  from Cons.prems obtain v where "store_tx_traces jt tis rs (m(hash_at tis (rs_ID r) \<mapsto> v)) = (None, m')"
    by (rule store_tx_traces_Cons)
  from Cons.IH [OF this] show ?case by auto
qed simp

lemma trace_attempts_Inr:
  assumes "trace_attempts f srt requests cs r0 = Inr rs" "cs \<noteq> []"
  obtains c where "c \<in> set cs" "batchRpcCallDebug f srt requests (replies c requests) = Inr rs"
proof -
  have gen: "x = Inr rs \<or> (\<exists>c \<in> set ds. batchRpcCallDebug f srt requests (replies c requests) = Inr rs)"
    if "trace_attempts f srt requests ds x = Inr rs" for ds x
    using that
  proof (induction ds arbitrary: x)
    case (Cons c ds)
    obtain y where y: "Execute c (\<lambda>node. batchRpcCallDebug f srt requests (node requests)) = y" by blast
    show ?case
      using Cons.prems Cons.IH [of y] y
      by (cases y) (auto simp: Execute_Inr split: if_splits)
  qed simp
  obtain c ds where cs: "cs = c # ds" using assms(2) by (cases cs) auto
  obtain y where y: "Execute c (\<lambda>node. batchRpcCallDebug f srt requests (node requests)) = y" by blast
  have "y = Inr rs \<or> trace_attempts f srt requests ds y = Inr rs"
    using assms(1) y unfolding cs by (cases y) (auto split: if_splits)
  with gen [of ds y] y cs have "\<exists>c \<in> set cs. batchRpcCallDebug f srt requests (replies c requests) = Inr rs"
    by (auto simp: Execute_Inr)
  then show thesis using that by blast
qed

lemma tx_trace_worker_None:
  assumes "tx_trace_worker f srt jt st tis (idx, requests) m = (None, m')" "0 \<le> maxRetries f"
  obtains k rs where "batchRpcCallDebug f srt requests (replies (calls st idx k) requests) = Inr rs"
    "store_tx_traces jt tis rs m = (None, m')"
proof -
  obtain rs where "trace_attempts f srt requests (map (calls st idx) [0..<nat (maxRetries f + 1)]) (Inr []) = Inr rs"
    "store_tx_traces jt tis rs m = (None, m')"
    using assms(1) by (auto simp: tx_trace_worker_def split: sum.splits)
  then show thesis using that assms(2) by (auto elim!: trace_attempts_Inr)
qed

lemma collect_traces_entries:
  "collect_traces bt tis m = Inr m' \<Longrightarrow> m' k = Some v \<Longrightarrow>
    m k = Some v \<or> (\<exists>ti \<in> set tis. \<exists>ts. k = ti_hash ti \<and> bt (ti_blockNum ti) = Some ts \<and>
      ti_txIdx ti < length ts \<and> v = ts ! ti_txIdx ti)"
  by (induction bt tis m rule: collect_traces.induct) (force split: option.splits if_splits)+

lemma collect_traces_dom:
  "collect_traces bt tis m = Inr m' \<Longrightarrow> dom m' = dom m \<union> ti_hash ` set tis"
  by (induction bt tis m rule: collect_traces.induct) (auto split: option.splits if_splits)

text \<open>The request for a block and the one for its traces.\<close>

definition block_request :: "u64 \<Rightarrow> JSONRPCRequest" where
  "block_request n = \<lparr>rq_Method = ''eth_getBlockByNumber'',
     rq_Params = [PString (''0x'' @ hex (unat n)), PBool True], rq_ID = 0\<rparr>"

definition block_trace_request :: "u64 \<Rightarrow> JSONRPCRequest" where
  "block_trace_request n = \<lparr>rq_Method = ''debug_traceBlockByNumber'',
     rq_Params = [PString (''0x'' @ hex (unat n)), PMap [(''tracer'', ''callTracer'')]], rq_ID = 0\<rparr>"

text \<open>
  Where the trace \<open>v\<close> of the transaction \<open>i\<close> comes from: from the trace of the
  whole block, from the trace of that transaction, or it is empty because the node reported the
  error of a precompiled contract.
\<close>

definition trace_answered ::
  "Fetcher \<Rightarrow> json_text \<Rightarrow> call stage \<Rightarrow> (nat \<Rightarrow> call) stage \<Rightarrow> u64 \<Rightarrow> string list \<Rightarrow> nat \<Rightarrow>
    TraceResultOptional \<Rightarrow> bool" where
  "trace_answered f jt bst tst n hashes i v \<longleftrightarrow>
     (let idx = i div nat (debugBatchSize f);
          requests = batch_of trace_request (nat (debugBatchSize f)) hashes idx in
      (\<exists>res ts. answered (attempts f (replies (calls bst 0) [block_trace_request n])) 0 res \<and>
         unm_traces jt res = Inr ts \<and> i < length ts \<and> v = ts ! i) \<or>
      (\<exists>k res tr. answered (attempts f (replies (calls tst idx k) requests)) (int i) res \<and>
         unm_trace jt res = Inr tr \<and> v = \<lparr>TxHash = hashes ! i, trc_Result = Some tr\<rparr>) \<or>
      (\<exists>k msg. reported (attempts f (replies (calls tst idx k) requests)) msg \<and>
         isPrecompileError msg \<and> v = \<lparr>TxHash = hashes ! i, trc_Result = None\<rparr>))"

context slice_sort
begin

text \<open>What one response of a transaction batch gives is the answer for that transaction.\<close>

lemma tx_trace_of_response:
  assumes rs: "batchRpcCallDebug f srt (chunks step (tx_requests ''debug_traceTransaction'' [callTracer] tis) ! idx)
      (replies (calls st idx k) (chunks step (tx_requests ''debug_traceTransaction'' [callTracer] tis) ! idx)) = Inr rs"
    and q: "idx < length (chunks step (tx_requests ''debug_traceTransaction'' [callTracer] tis))"
    and step: "step = nat (debugBatchSize f)" and wf: "wellformed_call f (calls st idx k)"
    and r: "r \<in> set rs" "h = hash_at tis (rs_ID r)" and src: "tx_trace_from jt h r v"
  shows "\<exists>j < length tis. h = ti_hash (tis ! j) \<and> trace_answered f jt bst st n (map ti_hash tis) j v"
proof -
  let ?reqs = "chunks step (tx_requests ''debug_traceTransaction'' [callTracer] tis) ! idx"
  have batch: "batch_of trace_request step (map ti_hash tis) idx = ?reqs"
    by (rule trace_batch [OF q, symmetric]) (simp add: trace_request_def callTracer_def)
  obtain j where j: "j < length tis" "rs_ID r = int j" "j div step = idx"
      "hash_at tis (rs_ID r) = ti_hash (tis ! j)"
    by (rule response_index [OF q _ r(1)]) (use batchRpcCallDebug_ids [OF rs] in simp_all)
  have "trace_answered f jt bst st n (map ti_hash tis) j v"
  proof (cases "rs_Error r")
    case (Some msg)
    with src have e: "isPrecompileError msg" "v = \<lparr>TxHash = h, trc_Result = None\<rparr>"
      by (simp_all add: tx_trace_from_def)
    have "\<not> isPrecompileError []" by (simp add: isPrecompileError_def)
    with batchRpcCallDebug_reported [OF rs r(1) Some] e(1)
    have "reported (attempts f (replies (calls st idx k) ?reqs)) msg" by metis
    with e j r(2) step batch show ?thesis by (auto simp: trace_answered_def Let_def)
  next
    case None
    with src obtain tr where e: "unm_trace jt (rs_Result r) = Inr tr"
      "v = \<lparr>TxHash = h, trc_Result = Some tr\<rparr>" by (auto simp: tx_trace_from_def)
    from batchRpcCallDebug_answered [OF rs _ r(1) None] wf
    have "answered (attempts f (replies (calls st idx k) ?reqs)) (rs_ID r) (rs_Result r)"
      by (simp add: wellformed_call_def)
    with e j r(2) step batch show ?thesis by (auto simp: trace_answered_def Let_def)
  qed
  with j r(2) show ?thesis by auto
qed

lemma tx_traces_sound:
  assumes run: "run_batches (tx_trace_worker f srt jt st tis)
      (scheduled st (chunks step (tx_requests ''debug_traceTransaction'' [callTracer] tis))) (None, Map.empty) = (None, m)"
    and st: "every_batch st" and step: "step = nat (debugBatchSize f)" "0 < step" and f: "0 \<le> maxRetries f"
    and wf: "\<And>idx k. wellformed_call f (calls st idx k)" and d: "distinct (map ti_hash tis)" and i: "i < length tis"
  obtains v where "m (ti_hash (tis ! i)) = Some v" "trace_answered f jt bst st n (map ti_hash tis) i v"
proof -
  let ?qs = "tx_requests ''debug_traceTransaction'' [callTracer] tis"
  let ?P = "\<lambda>k v. \<exists>i < length tis. k = ti_hash (tis ! i) \<and> trace_answered f jt bst st n (map ti_hash tis) i v"
  have "\<forall>k v. m k = Some v \<longrightarrow> ?P k v"
  proof (rule run_batches_inv [OF run, of "\<lambda>m. \<forall>k v. m k = Some v \<longrightarrow> ?P k v"]; clarify?)
    fix idx requests m1 m2 h v
    assume b: "(idx, requests) \<in> set (scheduled st (chunks step ?qs))" and m1: "\<forall>k v. m1 k = Some v \<longrightarrow> ?P k v"
      and w: "tx_trace_worker f srt jt st tis (idx, requests) m1 = (None, m2)" and v: "m2 h = Some v"
    obtain k rs where rs: "batchRpcCallDebug f srt requests (replies (calls st idx k) requests) = Inr rs"
      "store_tx_traces jt tis rs m1 = (None, m2)" by (rule tx_trace_worker_None [OF w f])
    show "?P h v"
    proof (cases "m1 h = Some v")
      case False
      with store_tx_traces_entries [OF rs(2) v] obtain r where r: "r \<in> set rs" "h = hash_at tis (rs_ID r)"
        and src: "tx_trace_from jt h r v" by blast
      have q: "idx < length (chunks step ?qs)" "requests = chunks step ?qs ! idx"
        using in_scheduled [OF b] by simp_all
      show ?thesis
        by (rule tx_trace_of_response [OF rs(1) [unfolded q(2)] q(1) step(1) wf r src])
    qed (use m1 in blast)
  qed
  moreover have "ti_hash (tis ! i) \<in> dom m"
  proof (rule run_batches_each [OF run scheduled_all [OF st]])
    show "i div step < length (chunks step ?qs)" using nth_chunks [OF step(2), of i ?qs] i by simp
    fix m1 m2 assume w: "tx_trace_worker f srt jt st tis (i div step, chunks step ?qs ! (i div step)) m1 = (None, m2)"
    obtain k rs where rs: "batchRpcCallDebug f srt (chunks step ?qs ! (i div step))
        (replies (calls st (i div step) k) (chunks step ?qs ! (i div step))) = Inr rs"
      "store_tx_traces jt tis rs m1 = (None, m2)" by (rule tx_trace_worker_None [OF w f])
    obtain r where "r \<in> set rs" "hash_at tis (rs_ID r) = ti_hash (tis ! i)"
      by (rule index_response [OF i step(2) refl batchRpcCallDebug_ids [OF rs(1)]])
    then show "ti_hash (tis ! i) \<in> dom m2" unfolding store_tx_traces_dom [OF rs(2)] by force
  next
    fix b m1 m2 assume "ti_hash (tis ! i) \<in> dom m1" "tx_trace_worker f srt jt st tis b m1 = (None, m2)"
    then show "ti_hash (tis ! i) \<in> dom m2"
      by (cases b) (auto elim!: tx_trace_worker_None [OF _ f] dest!: store_tx_traces_dom)
  qed
  ultimately obtain v j where "m (ti_hash (tis ! i)) = Some v" "j < length tis"
    "ti_hash (tis ! i) = ti_hash (tis ! j)" "trace_answered f jt bst st n (map ti_hash tis) j v" by blast
  with that distinct_hash_index [OF d i] show thesis by blast
qed

end

subsection \<open>One block\<close>

lemma chunks_single [simp]: "0 < step \<Longrightarrow> chunks step [x] = [[x]]"
  using chunks_step [of "[x]" step] by simp

lemma scheduled_single: "every_batch st \<Longrightarrow> scheduled st [b] = [(0, b)]"
proof -
  assume "every_batch st"
  then have "mset (order st 1) = {#0#}" by (simp add: every_batch_def)
  then have "order st 1 = [0]" by simp
  then show ?thesis by (simp add: scheduled_def)
qed

lemma one_request [simp]:
  "block_requests n (Suc 0) = [block_request n]" "block_trace_requests n (Suc 0) = [block_trace_request n]"
  by (simp_all add: block_requests_def block_trace_requests_def block_request_def block_trace_request_def callTracer_def)

lemma single_id [simp]: "rq_ID (block_request n) = 0" "rq_ID (block_trace_request n) = 0"
  by (simp_all add: block_request_def block_trace_request_def)

lemma fetchBlocksBatch_one:
  assumes "0 < batchSize f" "every_batch st"
  shows "fetchBlocksBatch f srt jt st n n =
    (case block_worker f srt jt st (0, [block_request n]) (Some [zero_Block]) of
       (err, None) \<Rightarrow> None
     | (Some err, Some blocks) \<Rightarrow> Some (Inl err)
     | (None, Some blocks) \<Rightarrow> Some (Inr blocks))"
  using assms
  by (cases "block_worker f srt jt st (0, [block_request n]) (Some [zero_Block])")
    (simp add: fetchBlocksBatch_def chunksOf_def scheduled_single)

context slice_sort
begin

lemma single_response:
  assumes "map rs_ID rs = map rq_ID [q]"
  obtains r where "rs = [r]" "rs_ID r = rq_ID q"
  using assms by (cases rs) auto

lemma fetchBlocksBatch_sound:
  assumes "fetchBlocksBatch f srt jt st n n = Some (Inr blocks)" "0 < batchSize f" "every_batch st"
    and "wellformed_call f (calls st 0)"
  obtains b res where "blocks = [b]" "answered (attempts f (replies (calls st 0) [block_request n])) 0 res" "unm_block jt res = Inr b"
proof -
  have "block_worker f srt jt st (0, [block_request n]) (Some [zero_Block]) = (None, Some blocks)"
    using assms(1) fetchBlocksBatch_one [OF assms(2,3), of srt jt n] by (auto split: prod.splits option.splits)
  then obtain rs where rs: "batchRpcCall f srt [block_request n] (replies (calls st 0) [block_request n]) = Inr rs"
    "store_blocks jt rs (Some [zero_Block]) = (None, Some blocks)"
    by (auto simp: block_worker_def Execute_Inr split: sum.splits)
  obtain r where r: "rs = [r]" "rs_ID r = 0"
    by (rule single_response [OF batchRpcCall_ids(1) [OF rs(1)]]) simp
  with rs(2) obtain b where "unm_block jt (rs_Result r) = Inr b" "blocks = [b]"
    by (auto split: sum.splits)
  moreover have "answered (attempts f (replies (calls st 0) [block_request n])) 0 (rs_Result r)"
    using batchRpcCall_answered [OF rs(1), of r] assms(4) r by (simp add: wellformed_call_def)
  ultimately show thesis using that by blast
qed

lemma fetchTracesBatch_sound:
  assumes fetch: "fetchTracesBatch f srt jt bst tst n n (tx_infos n txs) = Some (Inr m)"
    and st: "every_batch bst" "every_batch tst" and f: "0 \<le> maxRetries f"
    and wf: "wellformed_call f (calls bst 0)" "\<And>idx k. wellformed_call f (calls tst idx k)"
    and d: "distinct (map tx_Hash txs)" and i: "i < length txs"
  obtains v where "m (tx_Hash (txs ! i)) = Some v" "trace_answered f jt bst tst n (map tx_Hash txs) i v"
proof -
  let ?tis = "tx_infos n txs" and ?step = "nat (debugBatchSize f)"
  have step: "0 < debugBatchSize f" using fetch by (auto simp: fetchTracesBatch_def chunksOf_def split: if_splits)
  obtain err success bt where w: "block_trace_worker f srt jt bst n (0, [block_trace_request n]) (True, Map.empty) =
      (err, success, bt)" by (metis prod.exhaust)
  have first: "run_batches (block_trace_worker f srt jt bst n) (scheduled bst (chunks ?step (block_trace_requests n 1)))
      (None, True, Map.empty) = (err, success, bt)"
    using step w by (simp add: scheduled_single st)
  show thesis
  proof (cases "success \<and> err = None")
    case True
    with fetch step first have c: "collect_traces bt ?tis Map.empty = Inr m"
      by (simp add: fetchTracesBatch_def chunksOf_def)
    from True w obtain rs where rs: "batchRpcCallDebug f srt [block_trace_request n]
        (replies (calls bst 0) [block_trace_request n]) = Inr rs"
      "store_block_traces jt n rs (True, Map.empty) = (True, bt)"
      by (auto simp: block_trace_worker_def Execute_Inr split: sum.splits)
    obtain r where r: "rs = [r]" "rs_ID r = 0"
      by (rule single_response [OF batchRpcCallDebug_ids [OF rs(1)]]) simp
    with rs(2) obtain ts where ts: "rs_Error r = None" "unm_traces jt (rs_Result r) = Inr ts" "bt = [n \<mapsto> ts]"
      by (auto split: option.splits sum.splits)
    have ans: "answered (attempts f (replies (calls bst 0) [block_trace_request n])) 0 (rs_Result r)"
      using batchRpcCallDebug_answered [OF rs(1), of r] wf(1) r ts(1) by (simp add: wellformed_call_def)
    have "ti_hash (?tis ! i) \<in> ti_hash ` set ?tis" using i by (intro imageI nth_mem) simp
    then have "tx_Hash (txs ! i) \<in> dom m" using collect_traces_dom [OF c] i by simp
    then obtain v where v: "m (tx_Hash (txs ! i)) = Some v" by blast
    from collect_traces_entries [OF c v] obtain j where j: "j < length txs"
      "tx_Hash (txs ! i) = tx_Hash (txs ! j)" "j < length ts" "v = ts ! j"
      using ts(3) by (auto simp: in_set_conv_nth)
    with distinct_hash_index [of ?tis i j] d i have "i = j" by simp
    with j ans ts(2) have "trace_answered f jt bst tst n (map tx_Hash txs) i v"
      unfolding trace_answered_def Let_def by blast
    with v show thesis by (rule that)
  next
    case False
    with fetch step first have "run_batches (tx_trace_worker f srt jt tst ?tis)
        (scheduled tst (chunks ?step (tx_requests ''debug_traceTransaction'' [callTracer] ?tis))) (None, Map.empty) = (None, m)"
      by (auto simp: fetchTracesBatch_def chunksOf_def split: prod.splits option.splits)
    from tx_traces_sound [OF this st(2) refl _ f wf(2), of i bst n] step d i that show thesis by auto
  qed
qed

end


lemma map_upt_Suc: "map g [0..<Suc n] = g 0 # map (g \<circ> Suc) [0..<n]"
  by (simp add: upt_conv_Cons map_Suc_upt [symmetric] del: upt_Suc)

lemma assemble_ok:
  assumes "\<And>i. i < length txs \<Longrightarrow> rm (tx_Hash (txs ! i)) = Some (rc i)"
    and "\<And>i. i < length txs \<Longrightarrow> tm (tx_Hash (txs ! i)) = Some (tr i)"
  shows "assemble rm tm txs = Inr (map rc [0..<length txs], map tr [0..<length txs])"
  using assms
proof (induction txs arbitrary: rc tr)
  case (Cons tx txs)
  have "assemble rm tm txs = Inr (map (rc \<circ> Suc) [0..<length txs], map (tr \<circ> Suc) [0..<length txs])"
    using Cons.prems [of "Suc _"] by (intro Cons.IH) (auto simp del: upt_Suc)
  then show ?case using Cons.prems [of 0] by (simp add: map_upt_Suc del: upt_Suc)
qed simp

lemma store_receipts_ok:
  "(\<And>r. r \<in> set rs \<Longrightarrow> \<exists>v. unm_receipt jt (rs_Result r) = Inr v) \<Longrightarrow> fst (store_receipts jt tis rs m) = None"
proof (induction rs arbitrary: m)
  case (Cons r rs)
  from Cons.prems [of r] obtain v where "unm_receipt jt (rs_Result r) = Inr v" by auto
  with Cons show ?case by (simp add: Let_def)
qed simp

lemma collect_traces_ok:
  assumes "\<And>ti. ti \<in> set tis \<Longrightarrow> \<exists>ts. bt (ti_blockNum ti) = Some ts \<and> ti_txIdx ti < length ts"
  shows "\<exists>m'. collect_traces bt tis m = Inr m'"
  using assms
proof (induction tis arbitrary: m)
  case (Cons ti tis)
  from Cons.prems [of ti] obtain ts where "bt (ti_blockNum ti) = Some ts" "ti_txIdx ti < length ts" by auto
  with Cons show ?case by simp
qed simp

text \<open>
  A node that answers every call of a stage with \<open>ans\<close>, after outages that the retries bridge.
\<close>

definition serves ::
  "Fetcher \<Rightarrow> (JSONRPCRequest \<Rightarrow> bytes) \<Rightarrow> call stage \<Rightarrow> JSONRPCRequest list list \<Rightarrow> bool" where
  "serves f ans st batches \<longleftrightarrow>
     (\<forall>idx < length batches. acquire_err (calls st idx) = None \<and>
        answers_after f ans (batches ! idx) (replies (calls st idx) (batches ! idx)))"

abbreviation receipt_requests :: "u64 \<Rightarrow> Transaction list \<Rightarrow> JSONRPCRequest list" where
  "receipt_requests n txs \<equiv> tx_requests ''eth_getTransactionReceipt'' [] (tx_infos n txs)"

context slice_sort
begin

lemma served_call:
  assumes "serves f ans st batches" "idx < length batches" "ordered_requests (batches ! idx)"
    and "\<And>q. ans q \<noteq> []"
  shows "Execute (calls st idx) (\<lambda>node. batchRpcCall f srt (batches ! idx) (node (batches ! idx))) =
      Inr (map (answer_response ans) (batches ! idx))"
    "Execute (calls st idx) (\<lambda>node. batchRpcCallDebug f srt (batches ! idx) (node (batches ! idx))) =
      Inr (map (answer_response ans) (batches ! idx))"
  using assms calls_answer [of f ans "batches ! idx" "replies (calls st idx) (batches ! idx)"]
  by (simp_all add: serves_def Execute_Inr)

text \<open>On a node that serves the requests every call of a receipt batch succeeds, with the answers of its
  own transactions.\<close>

lemma receipt_requests_index:
  assumes "idx < length (chunks step (receipt_requests n txs))" "q \<in> set (chunks step (receipt_requests n txs) ! idx)"
  obtains j where "j < length txs" "q = receipt_requests n txs ! j" "rq_ID q = int j" "j div step = idx"
proof -
  from assms obtain j where "j < length (receipt_requests n txs)" "q = receipt_requests n txs ! j" "j div step = idx"
    by (rule in_chunk_index)
  then show thesis using that by (auto simp: tx_requests_nth)
qed

lemma receipt_worker_ok:
  assumes call: "\<And>idx. idx < length (chunks step (receipt_requests n txs)) \<Longrightarrow>
      Execute (calls st idx) (\<lambda>node. batchRpcCall f srt (chunks step (receipt_requests n txs) ! idx)
        (node (chunks step (receipt_requests n txs) ! idx))) =
      Inr (map (answer_response ans) (chunks step (receipt_requests n txs) ! idx))"
    and rc: "\<And>i. i < length txs \<Longrightarrow> unm_receipt jt (ans (receipt_requests n txs ! i)) = Inr (rc i)"
    and b: "b \<in> set (scheduled st (chunks step (receipt_requests n txs)))"
  shows "fst (receipt_worker f srt jt st (tx_infos n txs) b m) = None"
proof -
  obtain idx reqs where br: "b = (idx, reqs)" by fastforce
  with in_scheduled [of idx reqs st] b have q: "idx < length (chunks step (receipt_requests n txs))"
    "reqs = chunks step (receipt_requests n txs) ! idx" by simp_all
  have "fst (store_receipts jt (tx_infos n txs) (map (answer_response ans) reqs) m) = None"
  proof (rule store_receipts_ok)
    fix r assume "r \<in> set (map (answer_response ans) reqs)"
    then obtain x where x: "x \<in> set reqs" "r = answer_response ans x" by auto
    obtain j where "j < length txs" "x = receipt_requests n txs ! j"
      using receipt_requests_index [OF q(1) x(1) [unfolded q(2)]] by blast
    with rc [of j] x(2) show "\<exists>v. unm_receipt jt (rs_Result r) = Inr v"
      by (simp add: answer_response_def)
  qed
  then show ?thesis using call [OF q(1)] q(2) by (simp add: receipt_worker_def br)
qed

lemma fetchReceiptsBatch_ok:
  assumes f: "0 < batchSize f" and st: "every_batch st" and ne: "\<And>q. ans q \<noteq> []"
    and s: "serves f ans st (chunks (nat (batchSize f)) (receipt_requests n txs))"
    and rc: "\<And>i. i < length txs \<Longrightarrow> unm_receipt jt (ans (receipt_requests n txs ! i)) = Inr (rc i)"
    and d: "distinct (map tx_Hash txs)"
  obtains m where "fetchReceiptsBatch f srt jt st (tx_infos n txs) = Some (Inr m)"
    "\<And>i. i < length txs \<Longrightarrow> m (tx_Hash (txs ! i)) = Some (rc i)"
proof -
  let ?qs = "receipt_requests n txs" and ?step = "nat (batchSize f)" and ?tis = "tx_infos n txs"
  have call: "Execute (calls st idx) (\<lambda>node. batchRpcCall f srt (chunks ?step ?qs ! idx) (node (chunks ?step ?qs ! idx))) =
      Inr (map (answer_response ans) (chunks ?step ?qs ! idx))" if "idx < length (chunks ?step ?qs)" for idx
    by (rule served_call(1) [OF s that _ ne])
      (rule chunks_ordered [OF ordered_tx_requests nth_mem [OF that]])
  have "fst (run_batches (receipt_worker f srt jt st ?tis) (scheduled st (chunks ?step ?qs)) (None, Map.empty)) = None"
    by (rule run_batches_ok) (rule receipt_worker_ok [OF call rc])
  then obtain m where run: "run_batches (receipt_worker f srt jt st ?tis) (scheduled st (chunks ?step ?qs))
      (None, Map.empty) = (None, m)" by (metis prod.collapse)
  have "m (tx_Hash (txs ! i)) = Some (rc i)" if i: "i < length txs" for i
  proof -
    obtain v where "m (ti_hash (?tis ! i)) = Some v" "v = rc i"
    proof (rule receipts_map [OF run st _ _ , of i "\<lambda>j v. v = rc j"])
      fix idx rs r j v
      assume a: "idx < length (chunks ?step ?qs)"
        "batchRpcCall f srt (chunks ?step ?qs ! idx) (replies (calls st idx) (chunks ?step ?qs ! idx)) = Inr rs" "r \<in> set rs"
        "rs_ID r = int j" "j < length ?tis" "unm_receipt jt (rs_Result r) = Inr v"
      with call [OF a(1)] have "rs = map (answer_response ans) (chunks ?step ?qs ! idx)"
        by (simp add: Execute_Inr)
      with a(3) obtain q where q: "q \<in> set (chunks ?step ?qs ! idx)" "r = answer_response ans q" by auto
      obtain j' where "q = ?qs ! j'" "rq_ID q = int j'" by (rule receipt_requests_index [OF a(1) q(1)])
      with q(2) a(4) have "q = ?qs ! j" by (simp add: answer_response_def)
      with q(2) a(5,6) rc [of j] show "v = rc j" by (simp add: answer_response_def)
    qed (use f d i in simp_all)
    with i show ?thesis by simp
  qed
  moreover have "fetchReceiptsBatch f srt jt st ?tis = Some (Inr m)"
    using f run by (simp add: fetchReceiptsBatch_def chunksOf_def)
  ultimately show thesis using that by blast
qed

lemma fetchTracesBatch_ok:
  assumes f: "0 < debugBatchSize f" and st: "every_batch bst" and ne: "\<And>q. ans q \<noteq> []"
    and s: "serves f ans bst [[block_trace_request n]]"
    and ts: "unm_traces jt (ans (block_trace_request n)) = Inr ts" "length txs \<le> length ts"
    and d: "distinct (map tx_Hash txs)"
  obtains m where "fetchTracesBatch f srt jt bst tst n n (tx_infos n txs) = Some (Inr m)"
    "\<And>i. i < length txs \<Longrightarrow> m (tx_Hash (txs ! i)) = Some (ts ! i)"
proof -
  let ?tis = "tx_infos n txs"
  have "Execute (calls bst 0) (\<lambda>node. batchRpcCallDebug f srt [block_trace_request n] (node [block_trace_request n])) =
      Inr [answer_response ans (block_trace_request n)]"
    using served_call(2) [OF s, of 0] ne by (simp add: ordered_requests_def)
  then have w: "block_trace_worker f srt jt bst n (0, [block_trace_request n]) (True, Map.empty) =
      (None, True, [n \<mapsto> ts])"
    by (simp add: block_trace_worker_def answer_response_def ts)
  have "\<exists>m. collect_traces [n \<mapsto> ts] ?tis Map.empty = Inr m"
    using ts(2) by (intro collect_traces_ok) (auto simp: in_set_conv_nth)
  then obtain m where c: "collect_traces [n \<mapsto> ts] ?tis Map.empty = Inr m" by blast
  have "m (tx_Hash (txs ! i)) = Some (ts ! i)" if i: "i < length txs" for i
  proof -
    have "ti_hash (?tis ! i) \<in> ti_hash ` set ?tis" using i by (intro imageI nth_mem) simp
    then have "tx_Hash (txs ! i) \<in> dom m" using collect_traces_dom [OF c] i by simp
    then obtain v where v: "m (tx_Hash (txs ! i)) = Some v" by blast
    from collect_traces_entries [OF c v] obtain j where "j < length txs" "tx_Hash (txs ! i) = tx_Hash (txs ! j)" "v = ts ! j"
      by (auto simp: in_set_conv_nth)
    with distinct_hash_index [of ?tis i j] d i v show ?thesis by simp
  qed
  moreover have "fetchTracesBatch f srt jt bst tst n n ?tis = Some (Inr m)"
    using f w c by (simp add: fetchTracesBatch_def chunksOf_def scheduled_single st)
  ultimately show thesis using that by blast
qed

end

text \<open>The environment of a fetch: every batch runs, and the node sends well-formed responses.\<close>

definition orderly_net :: "net \<Rightarrow> bool" where
  "orderly_net net \<longleftrightarrow> every_batch (net_blocks net) \<and> every_batch (net_receipts net) \<and>
     every_batch (net_block_traces net) \<and> every_batch (net_tx_traces net)"


lemma debugBatchSize_NewFetcher: "debugBatchSize (NewFetcher c) = 1 \<or> debugBatchSize (NewFetcher c) = 2"
  by (auto simp: NewFetcher_def Let_def FetcherDebugBatchSizeMax_def max_def)

lemma debugBatchSize_pos [simp]: "0 < debugBatchSize (NewFetcher c)"
  using debugBatchSize_NewFetcher [of c] by auto


subsection \<open>The properties\<close>


definition demo_stage :: "bytes \<Rightarrow> call stage" where
  "demo_stage res = \<lparr>order = (\<lambda>n. [0..<n]), calls = (\<lambda>idx. \<lparr>acquire_err = None,
     replies = (\<lambda>requests k. Reply None
       (Some (map (\<lambda>q. \<lparr>w_id = Some (rq_ID q), w_result = Some res, w_error = NoError\<rparr>) requests)))\<rparr>)\<rparr>"

definition demo_net :: net where
  "demo_net = \<lparr>net_blocks = demo_stage ''block'', net_receipts = demo_stage ''receipt'',
     net_block_traces = demo_stage ''traces'',
     net_tx_traces = \<lparr>order = (\<lambda>n. [0..<n]), calls = (\<lambda>idx k. calls (demo_stage ''trace'') idx)\<rparr>\<rparr>"

definition demo_documents :: json_text where
  "demo_documents = demo_text\<lparr>scan_first := (\<lambda>data.
     if data = ''block'' then Inr (JObj [(''number'', JStr ''0x7''),
       (''transactions'', JArr [JObj [(''hash'', JStr ''0xaa'')]])])
     else if data = ''receipt'' then Inr (JObj [(''transactionHash'', JStr ''0xaa'')])
     else if data = ''traces'' then Inr (JArr [JObj [(''txHash'', JStr ''0xaa''), (''result'', JObj [(''type'', JStr ''CALL'')])]])
     else if data = ''null'' then Inr JNull
     else Inl (Fail ''invalid character''))\<rparr>"


definition demo_block :: NormalizedBlock where
  "demo_block = \<lparr>nb_Block = zero_Block\<lparr>blk_Number := ''0x7'', blk_Transactions := Some [zero_Transaction\<lparr>tx_Hash := ''0xaa''\<rparr>]\<rparr>,
     nb_Traces = Some [\<lparr>TxHash = ''0xaa'', trc_Result = Some (CallTrace (zero_frame\<lparr>ct_Type := ''CALL''\<rparr>) None)\<rparr>],
     nb_Receipts = Some [zero_Receipt\<lparr>rc_TransactionHash := ''0xaa''\<rparr>]\<rparr>"

lemma demo_parts [simp]:
  "block_txs (nb_Block demo_block) = [zero_Transaction\<lparr>tx_Hash := ''0xaa''\<rparr>]"
  "elems (nb_Traces demo_block) = [\<lparr>TxHash = ''0xaa'', trc_Result = Some (CallTrace (zero_frame\<lparr>ct_Type := ''CALL''\<rparr>) None)\<rparr>]"
  "elems (nb_Receipts demo_block) = [zero_Receipt\<lparr>rc_TransactionHash := ''0xaa''\<rparr>]"
  by (simp_all add: demo_block_def block_txs_def elems_def)

lemma demo_reads [simp]:
  "unm_block demo_documents ''block'' = Inr (nb_Block demo_block)"
  "unm_receipt demo_documents ''receipt'' = Inr (zero_Receipt\<lparr>rc_TransactionHash := ''0xaa''\<rparr>)"
  "unm_traces demo_documents ''traces'' = Inr (elems (nb_Traces demo_block))"
  by code_simp+


text \<open>C24: As long as the node answers, each batch after at most twenty failed attempts, the fetch succeeds,
  with the answered block, its receipts in the order of its transactions, and its traces.\<close>

theorem fetch_succeeds:
  assumes "slice_sort srt" "orderly_net net" "\<And>q. ans q \<noteq> []"
    and "unm_block jt (ans (block_request n)) = Inr b" "txs = block_txs b" "distinct (map tx_Hash txs)"
    and "\<And>i. i < length txs \<Longrightarrow> unm_receipt jt (ans (receipt_requests n txs ! i)) = Inr (rc i)"
    and "unm_traces jt (ans (block_trace_request n)) = Inr ts" "length txs \<le> length ts"
    and "serves (NewFetcher c) ans (net_blocks net) [[block_request n]]"
    and "serves (NewFetcher c) ans (net_receipts net) (chunks 50 (receipt_requests n txs))"
    and "serves (NewFetcher c) ans (net_block_traces net) [[block_trace_request n]]"
  shows "fetchSingleBlock (NewFetcher c) srt jt net n =
    Some (Inr \<lparr>nb_Block = b, nb_Traces = Some (take (length txs) ts), nb_Receipts = Some (map rc [0..<length txs])\<rparr>)"
proof -
  let ?f = "NewFetcher c"
  note net = assms(2) [unfolded orderly_net_def]
  have "Execute (calls (net_blocks net) 0) (\<lambda>node. batchRpcCall ?f srt [block_request n] (node [block_request n])) =
      Inr [answer_response ans (block_request n)]"
    using slice_sort.served_call(1) [OF assms(1,10), of 0] assms(3) by (simp add: ordered_requests_def)
  then have b: "fetchBlocksBatch ?f srt jt (net_blocks net) n n = Some (Inr [b])"
    using assms(4) net by (simp add: fetchBlocksBatch_one block_worker_def answer_response_def)
  obtain rm where r: "fetchReceiptsBatch ?f srt jt (net_receipts net) (tx_infos n txs) = Some (Inr rm)"
      "\<And>i. i < length txs \<Longrightarrow> rm (tx_Hash (txs ! i)) = Some (rc i)"
    by (rule slice_sort.fetchReceiptsBatch_ok [OF assms(1), of ?f "net_receipts net" ans n txs jt rc])
      (use assms(3,6,7,11) net in auto)
  obtain tm where t: "fetchTracesBatch ?f srt jt (net_block_traces net) (net_tx_traces net) n n (tx_infos n txs) =
      Some (Inr tm)" "\<And>i. i < length txs \<Longrightarrow> tm (tx_Hash (txs ! i)) = Some (ts ! i)"
    by (rule slice_sort.fetchTracesBatch_ok [OF assms(1), of ?f "net_block_traces net" ans n jt ts txs])
      (use assms(3,6,8,9,12) net in auto)
  have "map ((!) ts) [0..<length txs] = take (length txs) ts"
    using assms(9) by (intro nth_equalityI) simp_all
  then have "assemble rm tm txs = Inr (map rc [0..<length txs], take (length txs) ts)"
    using assemble_ok [of txs rm rc tm "(!) ts"] r(2) t(2) by simp
  then show ?thesis using b r(1) t(1) assms(5)
    by (cases "txs = []") (simp_all add: fetchSingleBlock_def)
qed

theorem fetch_succeeds_witness:
  "fetchSingleBlock (NewFetcher demo_controller_state) (sort_key rs_ID) demo_documents
     (demo_net\<lparr>net_blocks := (demo_stage ''block'')\<lparr>calls := (\<lambda>idx. \<lparr>acquire_err = None,
        replies = (\<lambda>q k. if k < 20 then NoReply (Fail ''timeout'') else replies (calls (demo_stage ''block'') 0) q k)\<rparr>)\<rparr>\<rparr>) 7 =
   Some (Inr demo_block)"
proof -
  let ?ans = "\<lambda>q. if rq_Method q = ''eth_getBlockByNumber'' then ''block''
    else if rq_Method q = ''eth_getTransactionReceipt'' then ''receipt'' else ''traces''"
  let ?net = "demo_net\<lparr>net_blocks := (demo_stage ''block'')\<lparr>calls := (\<lambda>idx. \<lparr>acquire_err = None,
        replies = (\<lambda>q k. if k < 20 then NoReply (Fail ''timeout'') else replies (calls (demo_stage ''block'') 0) q k)\<rparr>)\<rparr>\<rparr>"
  have at_once: "answers_after f ans [q] (replies (calls (demo_stage res) idx) [q])"
    if "rq_ID q = 0" "ans q = res" "0 \<le> maxRetries f" for f ans q res idx
    unfolding answers_after_def using that
    by (intro exI [of _ 0] exI [of _ "[answer_wire ans q]"]) (simp add: demo_stage_def answer_wire_def)
  have late: "answers_after (NewFetcher demo_controller_state) ?ans [block_request 7]
      (replies (calls (net_blocks ?net) 0) [block_request 7])"
    unfolding answers_after_def
    by (intro exI [of _ 20] exI [of _ "[answer_wire ?ans (block_request 7)]"])
      (simp add: demo_stage_def answer_wire_def block_request_def outage_def)
  have acq: "acquire_err (calls (demo_stage res) idx) = None" for res idx by (simp add: demo_stage_def)
  have "fetchSingleBlock (NewFetcher demo_controller_state) (sort_key rs_ID) demo_documents ?net 7 =
    Some (Inr \<lparr>nb_Block = nb_Block demo_block,
      nb_Traces = Some (take (length (block_txs (nb_Block demo_block))) (elems (nb_Traces demo_block))),
      nb_Receipts = Some (map (\<lambda>i. elems (nb_Receipts demo_block) ! 0) [0..<length (block_txs (nb_Block demo_block))])\<rparr>)"
  proof (rule fetch_succeeds [OF sort_by_id.slice_sort_axioms, of ?net ?ans])
    show "orderly_net ?net"
      by (simp add: orderly_net_def demo_net_def demo_stage_def every_batch_def)
    show "serves (NewFetcher demo_controller_state) ?ans (net_blocks ?net) [[block_request 7]]"
      using late by (simp add: serves_def)
    show "serves (NewFetcher demo_controller_state) ?ans (net_receipts ?net)
        (chunks 50 (receipt_requests 7 (block_txs (nb_Block demo_block))))"
      using at_once acq by (simp add: serves_def demo_net_def tx_requests_def tx_infos_def)
    show "serves (NewFetcher demo_controller_state) ?ans (net_block_traces ?net) [[block_trace_request 7]]"
      using at_once acq by (simp add: serves_def demo_net_def block_trace_request_def)
  qed (auto simp: block_request_def block_trace_request_def tx_requests_def tx_infos_def)
  then have "fetchSingleBlock (NewFetcher demo_controller_state) (sort_key rs_ID) demo_documents ?net 7 =
    Some (Inr \<lparr>nb_Block = nb_Block demo_block, nb_Traces = Some (elems (nb_Traces demo_block)),
      nb_Receipts = Some (elems (nb_Receipts demo_block))\<rparr>)" by simp
  then show ?thesis by (simp add: demo_block_def elems_def)
qed

lemma run_batches_keeps:
  assumes "\<And>b s. b \<in> set bs \<Longrightarrow> I s \<Longrightarrow> I (snd (worker b s))" "I s"
  shows "I (snd (run_batches worker bs (e, s)))"
  using assms
proof (induction bs arbitrary: e s)
  case (Cons b bs)
  from Cons.prems(1) [of b s] Cons.prems(2) have "I (snd (worker b s))" by simp
  then show ?case using Cons.IH Cons.prems(1) by (cases "worker b s") simp
qed simp

context slice_sort
begin

lemma block_worker_keeps:
  assumes "length blocks = 1"
  shows "\<exists>bs. snd (block_worker f srt jt st (idx, [block_request n]) (Some blocks)) = Some bs \<and> length bs = 1"
proof (cases "Execute (calls st idx) (\<lambda>node. batchRpcCall f srt [block_request n] (node [block_request n]))")
  case (Inr rs)
  then have call: "batchRpcCall f srt [block_request n] (replies (calls st idx) [block_request n]) = Inr rs" by (simp add: Execute_Inr)
  obtain r where r: "rs = [r]" "rs_ID r = 0"
    by (rule single_response [OF batchRpcCall_ids(1) [OF call]]) simp
  with assms Inr show ?thesis by (simp add: block_worker_def split: sum.split)
qed (use assms in \<open>simp add: block_worker_def\<close>)

lemma fetchBlocksBatch_total:
  assumes "0 < batchSize f"
  shows "fetchBlocksBatch f srt jt st n n \<noteq> None"
proof -
  let ?bs = "scheduled st (chunks (nat (batchSize f)) [block_request n])"
  have single: "b \<in> set ?bs \<Longrightarrow> \<exists>idx. b = (idx, [block_request n])" for b
    using assms by (auto simp: scheduled_def)
  have "\<exists>bs. snd (run_batches (block_worker f srt jt st) ?bs (None, Some [zero_Block])) = Some bs \<and> length bs = 1"
  proof (rule run_batches_keeps [where I = "\<lambda>s. \<exists>bs. s = Some bs \<and> length bs = 1"])
    show "\<exists>bs. snd (block_worker f srt jt st b s) = Some bs \<and> length bs = 1"
      if "b \<in> set ?bs" "\<exists>bs. s = Some bs \<and> length bs = 1" for b s
      using single [OF that(1)] that(2) block_worker_keeps by blast
  qed simp
  then show ?thesis using assms
    by (auto simp: fetchBlocksBatch_def chunksOf_def split: prod.splits option.splits)
qed

end

text \<open>C40: Fetching a block returns a block or an error, whatever the node answers and in whatever order the
  goroutines run: with the configured batch sizes \<open>chunksOf\<close> never panics, and no response index is
  out of range, since the identifiers were validated.\<close>

theorem fetch_never_panics:
  assumes "slice_sort srt"
  shows "fetchSingleBlock (NewFetcher c) srt jt net n \<noteq> None"
proof -
  have "chunksOf xs (batchSize (NewFetcher c)) = Some (chunks 50 xs)"
    "chunksOf xs (debugBatchSize (NewFetcher c)) = Some (chunks (nat (debugBatchSize (NewFetcher c))) xs)"
    for xs :: "JSONRPCRequest list"
    using debugBatchSize_pos [of c] by (simp_all add: chunksOf_def not_le)
  then have total: "fetchReceiptsBatch (NewFetcher c) srt jt (net_receipts net) tis \<noteq> None"
    "fetchTracesBatch (NewFetcher c) srt jt (net_block_traces net) (net_tx_traces net) n n tis \<noteq> None" for tis
    by (auto simp: fetchReceiptsBatch_def fetchTracesBatch_def Let_def split: option.splits prod.splits)
  have "fetchBlocksBatch (NewFetcher c) srt jt (net_blocks net) n n \<noteq> None"
    by (rule slice_sort.fetchBlocksBatch_total [OF assms]) simp
  then show ?thesis
    by (simp add: fetchSingleBlock_def Let_def total split: option.splits sum.splits list.splits)
qed

theorem fetch_never_panics_witness:
  "fetchSingleBlock (NewFetcher demo_controller_state) (sort_key rs_ID) demo_documents
     (demo_net\<lparr>net_blocks := demo_stage ''garbage''\<rparr>) 7 \<noteq> None"
  by (rule fetch_never_panics [OF sort_by_id.slice_sort_axioms])

end
