(* ===== verification/Window.thy ===== *)
theory Window
  imports Prelude
begin

section \<open>The sliding window over the blocks to fetch\<close>

text \<open>
  \<open>evm-ingestion/rpc/fetcher.go\<close>, \<open>StreamBlocks\<close>: up to \<open>windowSize\<close> blocks are fetched at
  once, each in a goroutine of its own, and handed on in order.  The map \<open>pending\<close> is the list of
  its keys; \<open>started\<close> records every goroutine that was started.  What an iteration of the loop
  meets is a \<open>turn\<close>.
\<close>

subsection \<open>The code\<close>

text \<open>
  The goroutine of one block: it tries again after every failure, until the context is
  cancelled.  The list holds, for each attempt, its result and \<open>ctx.Err()\<close> after it; \<open>None\<close>
  means that it is still trying.
\<close>

fun startFetch :: "('nb result \<times> error option) list \<Rightarrow> 'nb result option" where
  "startFetch [] = None"
| "startFetch ((res, ctx_err) # more_attempts) =
     (case res of
        Inr block \<Rightarrow> Some (Inr block)
      | Inl err \<Rightarrow> (case ctx_err of Some e \<Rightarrow> Some (Inl e) | None \<Rightarrow> startFetch more_attempts))"

record stream_state =
  pending :: "u64 list"
  started :: "u64 list"
  nextToSend :: u64
  latestBlock :: u64

text \<open>The two loops that fill the window are the same; a wrapped \<open>blockNum\<close> may run for ever.\<close>

partial_function (option) fill_window ::
  "int \<Rightarrow> u64 \<Rightarrow> u64 \<Rightarrow> u64 list \<Rightarrow> u64 list \<Rightarrow> (u64 list \<times> u64 list) option" where
  "fill_window windowSize latest blockNum pend begun =
     (if blockNum \<le> latest \<and> int (length pend) < windowSize
      then if blockNum \<in> set pend then fill_window windowSize latest (blockNum + 1) pend begun
           else fill_window windowSize latest (blockNum + 1) (pend @ [blockNum]) (begun @ [blockNum])
      else Some (pend, begun))"

definition refill :: "int \<Rightarrow> stream_state \<Rightarrow> stream_state option" where
  "refill windowSize st =
     (case fill_window windowSize (latestBlock st) (nextToSend st + of_nat (length (pending st)))
             (pending st) (started st) of
        None \<Rightarrow> None
      | Some (pend, begun) \<Rightarrow> Some (st\<lparr>pending := pend, started := begun\<rparr>))"

definition GetLatestBlock :: "u64 \<Rightarrow> u64 result" where
  "GetLatestBlock head = Inr head"

definition refreshAndFill :: "int \<Rightarrow> u64 \<Rightarrow> stream_state \<Rightarrow> (error option \<times> stream_state) option" where
  "refreshAndFill windowSize head st =
     (case GetLatestBlock head of
        Inl err \<Rightarrow> Some (Some err, st)
      | Inr newLatest \<Rightarrow>
          (case refill windowSize
                  (if newLatest > latestBlock st then st\<lparr>latestBlock := newLatest\<rparr> else st) of
             None \<Rightarrow> None
           | Some st' \<Rightarrow> Some (None, st')))"

text \<open>
  The environment of one iteration: whether the context is done when the iteration starts, the
  head, what the fetch of a block has delivered, and whether the send goes through before the
  context is done.
\<close>

record 'nb turn =
  ctx_done :: bool
  head :: u64
  fetched :: "u64 \<Rightarrow> 'nb result"
  sent :: bool

definition ctx_err :: error where "ctx_err = Fail ''context canceled''"
definition missing_pending :: error where "missing_pending = Fail ''missing pending fetch''"

definition stream_turn ::
  "int \<Rightarrow> 'nb turn \<Rightarrow> stream_state \<Rightarrow> (error option \<times> 'nb list \<times> stream_state) option" where
  "stream_turn windowSize t st =
     (if ctx_done t then Some (Some ctx_err, [], st)
      else if length (pending st) = 0 then
        map_option (\<lambda>(err, st'). (err, [], st')) (refreshAndFill windowSize (head t) st)
      else if nextToSend st \<notin> set (pending st) then Some (Some missing_pending, [], st)
      else let st1 = st\<lparr>pending := remove1 (nextToSend st) (pending st)\<rparr> in
        (case fetched t (nextToSend st) of
           Inl err \<Rightarrow> Some (Some (Wrap ''failed to fetch block'' err), [], st1)
         | Inr block \<Rightarrow>
             if \<not> sent t then Some (Some ctx_err, [], st1)
             else
               (case refill windowSize (st1\<lparr>nextToSend := nextToSend st1 + 1\<rparr>) of
                  None \<Rightarrow> None
                | Some st3 \<Rightarrow>
                    if int (length (pending st3)) < windowSize
                    then map_option (\<lambda>(err, st'). (None, [block], st')) (refreshAndFill windowSize (head t) st3)
                    else Some (None, [block], st3))))"

text \<open>The loop over a number of turns, with the blocks sent; the first error ends it.\<close>

fun stream_loop ::
  "int \<Rightarrow> 'nb turn list \<Rightarrow> stream_state \<Rightarrow> (error option \<times> 'nb list \<times> stream_state) option" where
  "stream_loop windowSize [] st = Some (None, [], st)"
| "stream_loop windowSize (t # ts) st =
     (case stream_turn windowSize t st of
        None \<Rightarrow> None
      | Some (Some err, out, st') \<Rightarrow> Some (Some err, out, st')
      | Some (None, out, st') \<Rightarrow>
          map_option (\<lambda>(err, out', st''). (err, out @ out', st'')) (stream_loop windowSize ts st'))"

definition StreamBlocks ::
  "int \<Rightarrow> u64 \<Rightarrow> u64 \<Rightarrow> 'nb turn list \<Rightarrow> (error option \<times> 'nb list \<times> stream_state) option" where
  "StreamBlocks windowSize start head0 turns =
     (case refreshAndFill windowSize head0
             \<lparr>pending = [], started = [], nextToSend = start, latestBlock = 0\<rparr> of
        None \<Rightarrow> None
      | Some (Some err, st) \<Rightarrow> Some (Some (Wrap ''failed to get latest block'' err), [], st)
      | Some (None, st) \<Rightarrow> stream_loop windowSize turns st)"

subsection \<open>An empty window\<close>

text \<open>With a window of size 0 nothing is ever fetched: every iteration finds nothing pending and polls.\<close>

lemma refreshAndFill_zero:
  "pending st = [] \<Longrightarrow> \<exists>st'. refreshAndFill 0 h st = Some (None, st') \<and> pending st' = []"
proof -
  have "fill_window 0 l n [] b = Some ([], b)" for l n b by (subst fill_window.simps) simp
  then show "pending st = [] \<Longrightarrow> \<exists>st'. refreshAndFill 0 h st = Some (None, st') \<and> pending st' = []"
    by (simp add: refreshAndFill_def GetLatestBlock_def refill_def)
qed

lemma stream_loop_zero:
  "pending st = [] \<Longrightarrow> \<exists>st'. stream_loop 0 turns st =
    Some (if \<exists>t \<in> set turns. ctx_done t then Some ctx_err else None, [], st') \<and> pending st' = []"
proof (induction turns arbitrary: st)
  case (Cons t ts)
  obtain st' where st': "refreshAndFill 0 (head t) st = Some (None, st')" "pending st' = []"
    using refreshAndFill_zero [OF Cons.prems] by blast
  obtain st'' where "stream_loop 0 ts st' =
      Some (if \<exists>t \<in> set ts. ctx_done t then Some ctx_err else None, [], st'')" "pending st'' = []"
    using Cons.IH [OF st'(2)] by blast
  then show ?case using st' Cons.prems by (simp add: stream_turn_def)
qed simp

lemma StreamBlocks_zero:
  "\<exists>st. StreamBlocks 0 start head0 turns = Some (if \<exists>t \<in> set turns. ctx_done t then Some ctx_err else None, [], st)"
proof -
  obtain st where st: "refreshAndFill 0 head0 \<lparr>pending = [], started = [], nextToSend = start, latestBlock = 0\<rparr> =
      Some (None, st)" "pending st = []"
    using refreshAndFill_zero [of "\<lparr>pending = [], started = [], nextToSend = start, latestBlock = 0\<rparr>"] by auto
  then show ?thesis using stream_loop_zero [OF st(2), of turns] by (auto simp: StreamBlocks_def)
qed

subsection \<open>The window\<close>

text \<open>The number of blocks from \<open>nextToSend\<close> to the latest one.\<close>

definition available :: "stream_state \<Rightarrow> nat" where
  "available st = unat (latestBlock st) + 1 - unat (nextToSend st)"

text \<open>
  The invariant: \<open>start\<close> and \<open>k\<close> are where the stream began and how many blocks it has sent; the
  pending fetches are the blocks that follow, none is above the latest block, and every block
  was started once, in order.
\<close>

definition window_ok :: "int \<Rightarrow> u64 \<Rightarrow> nat \<Rightarrow> stream_state \<Rightarrow> bool" where
  "window_ok windowSize start k st \<longleftrightarrow>
     nextToSend st = start + of_nat k \<and>
     pending st = u64_range (nextToSend st) (length (pending st)) \<and>
     started st = u64_range start (k + length (pending st)) \<and>
     length (pending st) \<le> available st \<and> length (pending st) \<le> nat windowSize \<and>
     unat (latestBlock st) < 18446744073709551615 \<and>
     (k \<noteq> 0 \<longrightarrow> unat start + k \<le> unat (latestBlock st) + 1)"

lemma fill_window_consecutive:
  assumes "unat latest < 18446744073709551615" "j \<le> unat latest + 1 - unat n" "j \<le> nat windowSize"
    and "m = min (nat windowSize) (unat latest + 1 - unat n)"
  shows "fill_window windowSize latest (n + of_nat j) (u64_range n j) begun =
    Some (u64_range n m, begun @ u64_range (n + of_nat j) (m - j))"
  using assms(2,3)
proof (induction "m - j" arbitrary: j begun)
  case 0
  then have j: "j = m" using assms(4) by (auto simp: min_def split: if_splits)
  have "\<not> (n + of_nat j \<le> latest \<and> int j < windowSize)"
  proof
    assume c: "n + of_nat j \<le> latest \<and> int j < windowSize"
    then have "j = unat latest + 1 - unat n" using j assms(4) by (auto simp: min_def split: if_splits)
    with c show False using assms(1)
      by (cases "unat n \<le> unat latest + 1")
        (auto simp: u64_le_iff unat_add_u64 unat_of_nat_u64 not_le)
  qed
  then show ?case using j by (subst fill_window.simps) auto
next
  case (Suc d)
  then have lt: "j < m" by simp
  then have a: "j < unat latest + 1 - unat n" "int j < windowSize" using assms(4) by auto
  then have u: "unat (n + of_nat j) = unat n + j" using assms(1)
    by (simp add: unat_add_u64 unat_of_nat_u64)
  have le: "n + of_nat j \<le> latest" using a(1) u by (simp add: u64_le_iff)
  have new: "n + of_nat j \<notin> set (u64_range n j)"
    using a(1) u assms(1) by (subst set_u64_range) auto
  have "fill_window windowSize latest (n + of_nat j + 1) (u64_range n j @ [n + of_nat j]) (begun @ [n + of_nat j]) =
    Some (u64_range n m, (begun @ [n + of_nat j]) @ u64_range (n + of_nat j + 1) (m - Suc j))"
    using Suc.hyps(1) [of "Suc j" "begun @ [n + of_nat j]"] Suc.hyps(2) a
    by (simp add: u64_range_snoc ac_simps)
  moreover have "u64_range (n + of_nat j) (m - j) = (n + of_nat j) # u64_range (n + of_nat j + 1) (m - Suc j)"
    using lt by (metis Suc_diff_Suc u64_range_Suc)
  ultimately show ?case using le a(2) new by (subst fill_window.simps) simp
qed

text \<open>Filling makes the window exactly as large as the window size and the latest block allow.\<close>

lemma refill_ok:
  assumes "window_ok windowSize start k st"
  obtains st' where "refill windowSize st = Some st'" "window_ok windowSize start k st'"
    "length (pending st') = min (nat windowSize) (available st)"
    "nextToSend st' = nextToSend st" "latestBlock st' = latestBlock st"
proof -
  let ?n = "nextToSend st" and ?j = "length (pending st)"
  let ?m = "min (nat windowSize) (available st)"
  note ok = assms [unfolded window_ok_def]
  have jm: "?j \<le> ?m" using ok by simp
  have fill: "fill_window windowSize (latestBlock st) (?n + of_nat ?j) (pending st) (started st) =
      Some (u64_range ?n ?m, started st @ u64_range (?n + of_nat ?j) (?m - ?j))"
    using fill_window_consecutive [of "latestBlock st" ?j ?n windowSize ?m "started st"] ok
    unfolding available_def by metis
  have "u64_range start (k + ?m) = u64_range start (k + ?j) @ u64_range (start + of_nat (k + ?j)) (?m - ?j)"
    using u64_range_add [of start "k + ?j" "?m - ?j"] jm by simp
  then have begun: "started st @ u64_range (?n + of_nat ?j) (?m - ?j) = u64_range start (k + ?m)"
    using ok by (simp add: add.assoc)
  show thesis
  proof (rule that)
    show "refill windowSize st = Some (st\<lparr>pending := u64_range ?n ?m, started := u64_range start (k + ?m)\<rparr>)"
      using fill begun by (simp add: refill_def)
  qed (use ok in \<open>simp_all add: window_ok_def available_def\<close>)
qed

lemma refreshAndFill_ok:
  assumes "window_ok windowSize start k st" "unat h < 18446744073709551615"
  obtains st' where "refreshAndFill windowSize h st = Some (None, st')" "window_ok windowSize start k st'"
    "length (pending st') = min (nat windowSize) (available st')"
    "nextToSend st' = nextToSend st" "latestBlock st' = max (latestBlock st) h"
proof -
  let ?st = "if h > latestBlock st then st\<lparr>latestBlock := h\<rparr> else st"
  have ok: "window_ok windowSize start k ?st"
    using assms by (auto simp: window_ok_def available_def u64_less_iff)
  have latest: "latestBlock ?st = max (latestBlock st) h"
    by (simp add: max_def less_imp_le)
  from refill_ok [OF ok] obtain st' where r: "refill windowSize ?st = Some st'" "window_ok windowSize start k st'"
    "length (pending st') = min (nat windowSize) (available ?st)" "nextToSend st' = nextToSend ?st"
    "latestBlock st' = latestBlock ?st" by blast
  then have "refreshAndFill windowSize h st = Some (None, st')" by (simp add: refreshAndFill_def GetLatestBlock_def)
  moreover have "available st' = available ?st" using r by (simp add: available_def)
  ultimately show thesis using that r latest by simp
qed

text \<open>The next block to send is the first pending one; taking it out keeps the window.\<close>

lemma pending_first:
  assumes "window_ok windowSize start k st" "pending st \<noteq> []"
  obtains j where "length (pending st) = Suc j" "nextToSend st \<in> set (pending st)"
    "remove1 (nextToSend st) (pending st) = u64_range (nextToSend st + 1) j"
proof -
  obtain j where j: "length (pending st) = Suc j" using assms(2) by (cases "pending st") auto
  then have "pending st = nextToSend st # u64_range (nextToSend st + 1) j"
    using assms(1) by (metis u64_range_Suc window_ok_def)
  with j show thesis by (intro that) simp_all
qed

lemma window_ok_advance:
  assumes "window_ok windowSize start k st" "length (pending st) = Suc j"
  shows "window_ok windowSize start (Suc k)
    (st\<lparr>pending := u64_range (nextToSend st + 1) j, nextToSend := nextToSend st + 1\<rparr>)"
proof -
  let ?n = "nextToSend st"
  note w = assms(1) [unfolded window_ok_def]
  have av: "Suc j \<le> unat (latestBlock st) + 1 - unat ?n" using w assms(2) unfolding available_def by metis
  have "unat (latestBlock st) < 18446744073709551615" using w by blast
  with av have "unat ?n < 18446744073709551615" by linarith
  then have n: "unat (?n + 1) = unat ?n + 1" by (simp add: unat_add_u64)
  have k: "k \<noteq> 0 \<Longrightarrow> unat ?n = unat start + k" "k = 0 \<Longrightarrow> ?n = start"
    using w by (auto simp: unat_add_u64 unat_of_nat_u64)
  show ?thesis using w assms(2) av n k by (cases "k = 0") (auto simp: window_ok_def available_def)
qed

text \<open>Sending a block: the window is filled up again, after a look at the head if it is not full.\<close>

lemma stream_turn_sends:
  assumes ok: "window_ok windowSize start k st" and h: "unat (head t) < 18446744073709551615"
    and t: "\<not> ctx_done t" "pending st \<noteq> []" "fetched t (nextToSend st) = Inr block" "turn.sent t"
  obtains st' where "stream_turn windowSize t st = Some (None, [block], st')"
    "window_ok windowSize start (Suc k) st'" "length (pending st') = min (nat windowSize) (available st')"
proof -
  obtain j where j: "length (pending st) = Suc j" "nextToSend st \<in> set (pending st)"
    "remove1 (nextToSend st) (pending st) = u64_range (nextToSend st + 1) j"
    using pending_first [OF ok t(2)] by blast
  obtain st3 where r: "refill windowSize (st\<lparr>pending := u64_range (nextToSend st + 1) j, nextToSend := nextToSend st + 1\<rparr>) = Some st3"
    "window_ok windowSize start (Suc k) st3" "length (pending st3) = min (nat windowSize) (available st3)"
    using refill_ok [OF window_ok_advance [OF ok j(1)]] by (force simp: available_def)
  show thesis
  proof (cases "int (length (pending st3)) < windowSize")
    case True
    from refreshAndFill_ok [OF r(2) h] obtain st' where
      "refreshAndFill windowSize (head t) st3 = Some (None, st')" "window_ok windowSize start (Suc k) st'"
      "length (pending st') = min (nat windowSize) (available st')" by blast
    with True r(1) t j show thesis by (intro that [of st']) (simp_all add: stream_turn_def Let_def)
  next
    case False
    with r t j show thesis by (intro that [of st3]) (simp_all add: stream_turn_def Let_def)
  qed
qed

text \<open>One iteration: it polls, or it ends with the error of the context or of the fetch, or it sends the
  next block; the invariant stays.\<close>

lemma stream_turn_cases:
  assumes ok: "window_ok windowSize start k st" and h: "unat (head t) < 18446744073709551615"
  obtains (stopped) err st' where "stream_turn windowSize t st = Some (Some err, [], st')"
      "(err = ctx_err \<and> (ctx_done t \<or> \<not> turn.sent t)) \<or>
       (\<exists>e. fetched t (nextToSend st) = Inl e \<and> err = Wrap ''failed to fetch block'' e)"
      "nextToSend st' = nextToSend st" "started st' = started st"
  | (polled) st' where "stream_turn windowSize t st = Some (None, [], st')" "pending st = []" "\<not> ctx_done t"
      "window_ok windowSize start k st'" "length (pending st') = min (nat windowSize) (available st')"
      "latestBlock st' = max (latestBlock st) (head t)"
  | (sent) block st' where "stream_turn windowSize t st = Some (None, [block], st')" "pending st \<noteq> []"
      "fetched t (nextToSend st) = Inr block" "\<not> ctx_done t" "turn.sent t"
      "window_ok windowSize start (Suc k) st'" "length (pending st') = min (nat windowSize) (available st')"
proof (cases "ctx_done t")
  case True
  then show thesis by (intro stopped [of ctx_err st]) (simp_all add: stream_turn_def)
next
  case False
  show thesis
  proof (cases "pending st = []")
    case True
    from refreshAndFill_ok [OF ok h] obtain st' where "refreshAndFill windowSize (head t) st = Some (None, st')"
      "window_ok windowSize start k st'" "length (pending st') = min (nat windowSize) (available st')"
      "latestBlock st' = max (latestBlock st) (head t)" by blast
    with True False show thesis by (intro polled [of st']) (simp_all add: stream_turn_def)
  next
    case ne: False
    note first = pending_first [OF ok ne]
    show thesis
    proof (cases "fetched t (nextToSend st)")
      case (Inl e)
      with False ne first show thesis
        by (intro stopped [of "Wrap ''failed to fetch block'' e" "st\<lparr>pending := remove1 (nextToSend st) (pending st)\<rparr>"])
          (auto simp: stream_turn_def)
    next
      case (Inr block)
      show thesis
      proof (cases "turn.sent t")
        case True
        with stream_turn_sends [OF ok h False ne Inr] Inr False ne sent show thesis by blast
      next
        case unsent: False
        with Inr False ne first show thesis
          by (intro stopped [of ctx_err "st\<lparr>pending := remove1 (nextToSend st) (pending st)\<rparr>"])
            (auto simp: stream_turn_def)
      qed
    qed
  qed
qed

subsection \<open>Runs\<close>

definition heads_ok :: "'nb turn list \<Rightarrow> bool" where
  "heads_ok turns \<longleftrightarrow> list_all (\<lambda>t. unat (head t) < 18446744073709551615) turns"

lemma heads_ok_simps [simp]:
  "heads_ok []" "heads_ok (t # ts) \<longleftrightarrow> unat (head t) < 18446744073709551615 \<and> heads_ok ts"
  "heads_ok (ts @ us) \<longleftrightarrow> heads_ok ts \<and> heads_ok us"
  by (simp_all add: heads_ok_def)

definition full :: "int \<Rightarrow> stream_state \<Rightarrow> bool" where
  "full windowSize st \<longleftrightarrow> length (pending st) = min (nat windowSize) (available st)"

text \<open>What a run has done when it is at \<open>st\<close>, having sent \<open>k\<close> blocks before and \<open>out\<close> since.\<close>

definition run_ok ::
  "int \<Rightarrow> u64 \<Rightarrow> nat \<Rightarrow> 'nb turn list \<Rightarrow> error option \<Rightarrow> 'nb list \<Rightarrow> stream_state \<Rightarrow> bool" where
  "run_ok windowSize start k turns err out st \<longleftrightarrow>
     (\<forall>i < length out. \<exists>t \<in> set turns. fetched t (start + of_nat (k + i)) = Inr (out ! i)) \<and>
     (\<exists>q. started st = u64_range start q \<and> k + length out \<le> q \<and> q \<le> k + length out + nat windowSize \<and>
        q \<le> 18446744073709551616) \<and>
     (k + length out \<noteq> 0 \<longrightarrow> unat start + (k + length out) \<le> 18446744073709551615) \<and>
     (case err of
        None \<Rightarrow> window_ok windowSize start (k + length out) st \<and> full windowSize st
      | Some e \<Rightarrow> e = ctx_err \<or> (\<exists>t \<in> set turns. \<exists>x. fetched t (start + of_nat (k + length out)) = Inl x \<and>
          e = Wrap ''failed to fetch block'' x))"

lemma window_ok_started:
  assumes "window_ok windowSize start k st"
  shows "\<exists>q. started st = u64_range start q \<and> k \<le> q \<and> q \<le> k + nat windowSize \<and> q \<le> 18446744073709551616"
proof (intro exI conjI)
  note w = assms [unfolded window_ok_def]
  show "started st = u64_range start (k + length (pending st))" using w by blast
  show "k + length (pending st) \<le> k + nat windowSize" using w by simp
  show "k + length (pending st) \<le> 18446744073709551616"
  proof (cases "k = 0")
    case True
    with w show ?thesis unfolding available_def by linarith
  next
    case False
    then have "unat start + k \<le> unat (latestBlock st) + 1" using w by blast
    moreover from this w have "unat (nextToSend st) = unat start + k"
      by (cases "unat start + k < 18446744073709551616") (auto simp: unat_add_u64 unat_of_nat_u64)
    moreover have "length (pending st) \<le> available st" "unat (latestBlock st) < 18446744073709551615" using w by blast+
    ultimately show ?thesis unfolding available_def by linarith
  qed
qed simp

lemma window_ok_sent:
  "window_ok windowSize start k st \<Longrightarrow> k \<noteq> 0 \<Longrightarrow> unat start + k \<le> 18446744073709551615"
  by (auto simp: window_ok_def)

lemma stream_loop_ok:
  assumes "window_ok windowSize start k st" "full windowSize st" "heads_ok turns"
  shows "\<exists>err out st'. stream_loop windowSize turns st = Some (err, out, st') \<and>
    run_ok windowSize start k turns err out st'"
  using assms
proof (induction turns arbitrary: k st)
  case Nil
  then show ?case using window_ok_started [OF Nil(1)] window_ok_sent [OF Nil(1)] by (simp add: run_ok_def)
next
  case (Cons t ts)
  have h: "unat (head t) < 18446744073709551615" "heads_ok ts" using Cons.prems(3) by simp_all
  have next_block: "nextToSend st = start + of_nat k" using Cons.prems(1) by (simp add: window_ok_def)
  from Cons.prems(1) h(1) show ?case
  proof (cases rule: stream_turn_cases)
    case (stopped err st')
    then show ?thesis using window_ok_started [OF Cons.prems(1)] window_ok_sent [OF Cons.prems(1)] next_block
      by (auto simp: run_ok_def)
  next
    case (polled st')
    then obtain err out st'' where r: "stream_loop windowSize ts st' = Some (err, out, st'')"
      "run_ok windowSize start k ts err out st''"
      using Cons.IH [of k st'] h(2) by (auto simp: full_def)
    then show ?thesis using polled(1)
      by (auto simp: run_ok_def split: option.splits)
  next
    case (sent block st')
    then obtain err out st'' where r: "stream_loop windowSize ts st' = Some (err, out, st'')"
      "run_ok windowSize start (Suc k) ts err out st''"
      using Cons.IH [of "Suc k" st'] h(2) by (auto simp: full_def)
    have "\<exists>u \<in> set (t # ts). fetched u (start + of_nat (k + i)) = Inr ((block # out) ! i)"
      if "i < length (block # out)" for i
      using that sent(3) next_block r(2)
      by (cases i) (auto simp: run_ok_def add.assoc)
    then have "run_ok windowSize start k (t # ts) err (block # out) st''"
      using r(2) by (auto simp: run_ok_def add.assoc split: option.splits)
    then show ?thesis using sent(1) r(1) by simp
  qed
qed

lemma StreamBlocks_start:
  assumes "unat head0 < 18446744073709551615"
  obtains st where "\<And>turns. StreamBlocks windowSize start head0 turns = stream_loop windowSize turns st"
    "window_ok windowSize start 0 st" "full windowSize st"
proof -
  have "window_ok windowSize start 0 \<lparr>pending = [], started = [], nextToSend = start, latestBlock = 0\<rparr>"
    by (simp add: window_ok_def)
  from refreshAndFill_ok [OF this assms] obtain st
    where "refreshAndFill windowSize head0 \<lparr>pending = [], started = [], nextToSend = start, latestBlock = 0\<rparr> = Some (None, st)"
      "window_ok windowSize start 0 st" "length (pending st) = min (nat windowSize) (available st)" by blast
  then show thesis by (intro that [of st]) (simp_all add: StreamBlocks_def full_def)
qed

lemma stream_loop_append:
  "stream_loop windowSize (ts @ us) st =
    (case stream_loop windowSize ts st of
       None \<Rightarrow> None
     | Some (Some err, out, st') \<Rightarrow> Some (Some err, out, st')
     | Some (None, out, st') \<Rightarrow> map_option (\<lambda>(err, out', st''). (err, out @ out', st'')) (stream_loop windowSize us st'))"
  by (induction windowSize ts st rule: stream_loop.induct)
    (auto simp: map_option_case split: option.splits prod.splits)

lemma distinct_u64_range:
  assumes "q \<le> 18446744073709551616"
  shows "distinct (u64_range a q)"
  unfolding u64_range_def
proof (subst distinct_map, intro conjI inj_onI)
  fix i j assume "i \<in> set [0..<q]" "j \<in> set [0..<q]" "a + of_nat i = a + of_nat j"
  then have "unat (of_nat i :: u64) = unat (of_nat j :: u64)" by simp
  with \<open>i \<in> set [0..<q]\<close> \<open>j \<in> set [0..<q]\<close> assms show "i = j" by (simp add: unat_of_nat_u64)
qed simp

subsection \<open>The properties\<close>

text \<open>C8: \<open>StreamBlocks\<close> sends the blocks in order and fetches each once: whatever the node and the
  context do, the \<open>i\<close>-th block sent is what the fetch of block \<open>start + i\<close> delivered, the fetches
  started are exactly \<open>start, start + 1, \<dots>\<close> without repetition and at most \<open>windowSize\<close> ahead,
  the window is as full as the head allows, and the loop ends only with the error of the context
  or of a fetch, never because a pending fetch is missing.\<close>

theorem stream_in_order:
  fixes turns :: "'nb turn list"
  assumes "unat head0 < 18446744073709551615" "heads_ok turns"
  shows "\<exists>err out st q. StreamBlocks windowSize start head0 turns = Some (err, out, st) \<and>
    (\<forall>i < length out. \<exists>t \<in> set turns. fetched t (start + of_nat i) = Inr (out ! i)) \<and>
    started st = u64_range start q \<and> distinct (started st) \<and>
    length out \<le> q \<and> q \<le> length out + nat windowSize \<and> err \<noteq> Some missing_pending \<and>
    (err = None \<longrightarrow> pending st = u64_range (start + of_nat (length out)) (min (nat windowSize) (available st)))"
proof -
  obtain st0 where st0: "\<And>turns :: 'nb turn list. StreamBlocks windowSize start head0 turns = stream_loop windowSize turns st0"
    "window_ok windowSize start 0 st0" "full windowSize st0" by (rule StreamBlocks_start [OF assms(1)]) blast
  from stream_loop_ok [OF st0(2,3) assms(2)] obtain err out st
    where run: "stream_loop windowSize turns st0 = Some (err, out, st)" "run_ok windowSize start 0 turns err out st"
    by blast
  then obtain q where q: "started st = u64_range start q" "length out \<le> q" "q \<le> length out + nat windowSize"
    "q \<le> 18446744073709551616" by (auto simp: run_ok_def)
  have "err \<noteq> Some missing_pending"
    using run(2) by (auto simp: run_ok_def missing_pending_def ctx_err_def)
  moreover have "pending st = u64_range (start + of_nat (length out)) (min (nat windowSize) (available st))"
    if "err = None"
  proof -
    have "window_ok windowSize start (length out) st" "full windowSize st"
      using run(2) that by (simp_all add: run_ok_def)
    then show ?thesis unfolding window_ok_def full_def by metis
  qed
  moreover have "\<forall>i < length out. \<exists>t \<in> set turns. fetched t (start + of_nat i) = Inr (out ! i)"
    using run(2) by (simp add: run_ok_def)
  ultimately show ?thesis using st0(1) [of turns] run(1) q distinct_u64_range [OF q(4)] by (intro exI conjI) auto
qed

definition demo_turn :: "u64 turn" where
  "demo_turn = \<lparr>ctx_done = False, head = 6, fetched = Inr, sent = True\<rparr>"

theorem stream_in_order_witness:
  "\<exists>err out st q. StreamBlocks 2 5 3 [demo_turn, demo_turn, demo_turn] = Some (err, out, st) \<and>
    started st = u64_range 5 q \<and> length out \<le> q \<and> q \<le> length out + 2"
  using stream_in_order [of 3 "[demo_turn, demo_turn, demo_turn]" 2 5]
  by (fastforce simp: demo_turn_def)

text \<open>An iteration in which the context is not done and the fetch has delivered never ends the stream.\<close>

definition willing :: "'nb turn \<Rightarrow> bool" where
  "willing t \<longleftrightarrow> \<not> ctx_done t \<and> turn.sent t \<and> (\<forall>n. \<exists>block. fetched t n = Inr block) \<and>
     unat (head t) < 18446744073709551615"

lemma willing_goes_on:
  assumes "window_ok windowSize start k st" "willing t"
  shows "\<exists>out st'. stream_turn windowSize t st = Some (None, out, st')"
proof -
  have "unat (head t) < 18446744073709551615" using assms(2) by (simp add: willing_def)
  from assms(1) this show ?thesis
  proof (cases rule: stream_turn_cases)
    case (stopped err s')
    obtain block where "fetched t (nextToSend st) = Inr block" using assms(2) unfolding willing_def by blast
    with stopped assms(2) show ?thesis by (auto simp: willing_def)
  qed auto
qed

lemma willing_polls:
  assumes "window_ok windowSize start k st" "willing t" "pending st = []" "nextToSend st \<le> head t" "0 < windowSize"
  obtains st' where "stream_turn windowSize t st = Some (None, [], st')" "window_ok windowSize start k st'"
    "nextToSend st' = nextToSend st" "pending st' \<noteq> []"
proof -
  have h: "unat (head t) < 18446744073709551615" using assms(2) by (simp add: willing_def)
  obtain st' where r: "refreshAndFill windowSize (head t) st = Some (None, st')" "window_ok windowSize start k st'"
    "length (pending st') = min (nat windowSize) (available st')" "nextToSend st' = nextToSend st"
    "latestBlock st' = max (latestBlock st) (head t)" by (rule refreshAndFill_ok [OF assms(1) h])
  have "0 < available st'" using assms(4) r(4,5) by (simp add: available_def u64_le_iff max_def)
  then have "pending st' \<noteq> []" using r(3) assms(5) by (auto simp: min_def split: if_splits)
  with r assms(2,3) show thesis by (intro that [of st']) (simp_all add: stream_turn_def willing_def)
qed

lemma willing_sends:
  assumes "window_ok windowSize start k st" "willing t" "pending st \<noteq> []"
  obtains block st' where "stream_turn windowSize t st = Some (None, [block], st')"
    "window_ok windowSize start (Suc k) st'" "fetched t (nextToSend st) = Inr block"
proof -
  obtain block where "fetched t (nextToSend st) = Inr block" using assms(2) unfolding willing_def by blast
  with stream_turn_sends [OF assms(1) _ _ assms(3) this] that assms(2) show thesis
    unfolding willing_def by blast
qed

lemma two_turns_send:
  assumes ok: "window_ok windowSize start k st" and t: "willing t" "nextToSend st \<le> head t" "0 < windowSize"
  shows "\<exists>out st'. stream_loop windowSize [t, t] st = Some (None, out, st') \<and> out \<noteq> [] \<and>
    fetched t (nextToSend st) = Inr (hd out)"
proof (cases "pending st = []")
  case False
  obtain block s1 where s1: "stream_turn windowSize t st = Some (None, [block], s1)"
    "window_ok windowSize start (Suc k) s1" "fetched t (nextToSend st) = Inr block"
    by (rule willing_sends [OF ok t(1) False])
  moreover from willing_goes_on [OF s1(2) t(1)] obtain out s2
    where "stream_turn windowSize t s1 = Some (None, out, s2)" by blast
  ultimately show ?thesis by simp
next
  case True
  obtain s1 where s1: "stream_turn windowSize t st = Some (None, [], s1)" "window_ok windowSize start k s1"
    "nextToSend s1 = nextToSend st" "pending s1 \<noteq> []" by (rule willing_polls [OF ok t(1) True t(2,3)])
  obtain block s2 where "stream_turn windowSize t s1 = Some (None, [block], s2)"
    "fetched t (nextToSend s1) = Inr block" by (rule willing_sends [OF s1(2) t(1) s1(4)])
  with s1(1,3) show ?thesis by simp
qed

text \<open>C23: Nothing stalls the stream: with a window of at least one block, once the head has reached the
  next block and its fetch has delivered, two more iterations send it.\<close>

theorem stream_makes_progress:
  fixes turns :: "'nb turn list"
  assumes "StreamBlocks windowSize start head0 turns = Some (None, out, st)" "0 < windowSize"
    and "unat head0 < 18446744073709551615" "heads_ok (turns @ [t, t])"
    and "\<not> ctx_done t" "sent t" "\<And>n. \<exists>block. fetched t n = Inr block"
    and "nextToSend st \<le> head t"
  shows "\<exists>out' st'. StreamBlocks windowSize start head0 (turns @ [t, t]) = Some (None, out @ out', st') \<and>
    out' \<noteq> [] \<and> fetched t (nextToSend st) = Inr (hd out')"
proof -
  obtain st0 where st0: "\<And>ts :: 'nb turn list. StreamBlocks windowSize start head0 ts = stream_loop windowSize ts st0"
    "window_ok windowSize start 0 st0" "full windowSize st0"
    by (rule StreamBlocks_start [OF assms(3)]) blast
  have h: "willing t" "heads_ok turns" using assms(4-7) by (simp_all add: willing_def)
  have "stream_loop windowSize turns st0 = Some (None, out, st)" using assms(1) st0(1) [of turns] by simp
  with stream_loop_ok [OF st0(2,3) h(2)]
  have "window_ok windowSize start (length out) st" by (auto simp: run_ok_def)
  from two_turns_send [OF this h(1) assms(8,2)] show ?thesis
    using assms(1) by (auto simp: st0(1) stream_loop_append)
qed

lemma demo_stream:
  "StreamBlocks 2 5 3 [demo_turn] =
    Some (None, [], \<lparr>pending = [5, 6], started = [5, 6], nextToSend = 5, latestBlock = 6\<rparr>)"
proof -
  have r: "u64_range 5 2 = [5, 6]" using u64_range_Suc [of 5 1] u64_range_Suc [of 6 0] by (simp add: numeral_2_eq_2)
  have "fill_window 2 3 (5 + of_nat 0) (u64_range 5 0) [] = Some (u64_range 5 0, [] @ u64_range (5 + of_nat 0) (0 - 0))"
    by (rule fill_window_consecutive) simp_all
  moreover have "fill_window 2 6 (5 + of_nat 0) (u64_range 5 0) [] =
      Some (u64_range 5 2, [] @ u64_range (5 + of_nat 0) (2 - 0))"
    by (rule fill_window_consecutive) simp_all
  ultimately have "fill_window 2 3 5 [] [] = Some ([], [])" "fill_window 2 6 5 [] [] = Some ([5, 6], [5, 6])"
    unfolding r by (simp_all add: r)
  then have a: "refreshAndFill 2 3 \<lparr>pending = [], started = [], nextToSend = 5, latestBlock = 0\<rparr> =
      Some (None, \<lparr>pending = [], started = [], nextToSend = 5, latestBlock = 3\<rparr>)"
    and b: "refreshAndFill 2 6 \<lparr>pending = [], started = [], nextToSend = 5, latestBlock = 3\<rparr> =
      Some (None, \<lparr>pending = [5, 6], started = [5, 6], nextToSend = 5, latestBlock = 6\<rparr>)"
    by (simp_all add: refreshAndFill_def refill_def GetLatestBlock_def)
  have "stream_turn 2 demo_turn \<lparr>pending = [], started = [], nextToSend = 5, latestBlock = 3\<rparr> =
      Some (None, [], \<lparr>pending = [5, 6], started = [5, 6], nextToSend = 5, latestBlock = 6\<rparr>)"
    by (simp add: stream_turn_def demo_turn_def b)
  then show ?thesis by (simp add: StreamBlocks_def a)
qed

lemma demo_stream_sends:
  "StreamBlocks 2 5 3 [demo_turn, demo_turn] =
    Some (None, [5], \<lparr>pending = [6], started = [5, 6], nextToSend = 6, latestBlock = 6\<rparr>)"
proof -
  have "fill_window 2 6 7 [6] [5, 6] = Some ([6], [5, 6])" by (subst fill_window.simps) simp
  then have "refill 2 \<lparr>pending = [6], started = [5, 6], nextToSend = 6, latestBlock = 6\<rparr> =
      Some \<lparr>pending = [6], started = [5, 6], nextToSend = 6, latestBlock = 6\<rparr>" by (simp add: refill_def)
  then have "stream_turn 2 demo_turn \<lparr>pending = [5, 6], started = [5, 6], nextToSend = 5, latestBlock = 6\<rparr> =
      Some (None, [5], \<lparr>pending = [6], started = [5, 6], nextToSend = 6, latestBlock = 6\<rparr>)"
    by (simp add: stream_turn_def demo_turn_def refreshAndFill_def GetLatestBlock_def)
  moreover obtain st0 where st0: "\<And>ts :: u64 turn list. StreamBlocks 2 5 3 ts = stream_loop 2 ts st0"
    by (rule StreamBlocks_start [of 3 2 5]) (simp, blast)
  moreover have "stream_loop 2 [demo_turn] st0 =
      Some (None, [], \<lparr>pending = [5, 6], started = [5, 6], nextToSend = 5, latestBlock = 6\<rparr>)"
    using demo_stream st0 [of "[demo_turn]"] by simp
  ultimately show ?thesis using stream_loop_append [of 2 "[demo_turn]" "[demo_turn]" st0] by simp
qed

theorem stream_makes_progress_witness:
  "\<exists>out' st'. StreamBlocks 2 5 3 ([demo_turn] @ [demo_turn, demo_turn]) = Some (None, [] @ out', st') \<and>
     out' \<noteq> [] \<and> hd out' = 5"
  using stream_makes_progress [OF demo_stream, of demo_turn] by (fastforce simp: demo_turn_def)

end
