(* ===== verification/Heads.thy ===== *)
theory Heads
  imports Fetch Ingest
begin

section \<open>The head tracker\<close>

text \<open>
  \<open>evm-ingestion/rpc/heads.go\<close>: the latest block number, asked for once over HTTP and then kept
  up to date by a WebSocket subscription that reconnects for ever.  What a connection brings is
  the environment.  \<open>fetchChainID\<close> of \<open>evm-ingestion/main.go\<close> asks in the same way.
\<close>

subsection \<open>The code\<close>

record HeadTracker =
  rpcURL :: string
  wsURL :: string
  headLatest :: u64

definition ws_url :: "string \<Rightarrow> string" where
  "ws_url url =
     (let ws = Replace1 url ''/rpc'' ''/ws'';
          ws = Replace1 ws ''http://'' ''ws://''
      in Replace1 ws ''https://'' ''wss://'')"

definition NewHeadTracker :: "string \<Rightarrow> HeadTracker result" where
  "NewHeadTracker url =
     (if \<not> Contains url ''/rpc'' then Inl (Fail ''RPC URL must contain '/rpc' for WebSocket conversion'')
      else Inr \<lparr>rpcURL = url, wsURL = ws_url url, headLatest = 0\<rparr>)"

definition TrackerGetLatestBlock :: "HeadTracker \<Rightarrow> u64" where "TrackerGetLatestBlock h = headLatest h"

text \<open>
  A single request: sending it or decoding its response may fail (\<open>Inl\<close>); \<open>unm_string\<close> is
  \<open>json.Unmarshal\<close> into a string.
\<close>

definition fetchBlockNumberRPC :: "(bytes \<Rightarrow> string result) \<Rightarrow> JSONRPCResponse result \<Rightarrow> u64 result" where
  "fetchBlockNumberRPC unm_string rpcResp =
     (case rpcResp of
        Inl err \<Rightarrow> Inl err
      | Inr resp \<Rightarrow>
          (case rs_Error resp of
             Some msg \<Rightarrow> Inl (Wrap ''RPC error'' (Fail msg))
           | None \<Rightarrow>
               (case unm_string (rs_Result resp) of
                  Inl err \<Rightarrow> Inl err
                | Inr blockNumHex \<Rightarrow> ParseUint (TrimPrefix blockNumHex ''0x'') 16)))"

text \<open>Here the post may fail, or the decoder on the body of its response.\<close>

definition fetchChainID :: "(bytes \<Rightarrow> string result) \<Rightarrow> JSONRPCResponse result result \<Rightarrow> u64 result" where
  "fetchChainID unm_string posted =
     (case posted of
        Inl err \<Rightarrow> Inl (Wrap ''RPC request failed'' err)
      | Inr (Inl err) \<Rightarrow> Inl (Wrap ''failed to decode response'' err)
      | Inr (Inr resp) \<Rightarrow>
          (case rs_Error resp of
             Some msg \<Rightarrow> Inl (Wrap ''RPC error'' (Fail msg))
           | None \<Rightarrow>
               (case unm_string (rs_Result resp) of
                  Inl err \<Rightarrow> Inl (Wrap ''failed to unmarshal chainID'' err)
                | Inr hexChainID \<Rightarrow> parseBlockNumber hexChainID)))"

definition Start :: "(bytes \<Rightarrow> string result) \<Rightarrow> JSONRPCResponse result \<Rightarrow> HeadTracker \<Rightarrow> HeadTracker result" where
  "Start unm_string rpcResp h =
     (case fetchBlockNumberRPC unm_string rpcResp of
        Inl err \<Rightarrow> Inl (Wrap ''failed to get initial block number'' err)
      | Inr initialBlock \<Rightarrow> Inr (h\<lparr>headLatest := initialBlock\<rparr>))"

text \<open>
  One round of the reading loop: the context is done, \<open>ReadJSON\<close> fails, or a message comes.
\<close>

datatype head_event = CtxDone | ReadFails error | Message string string

fun read_heads :: "head_event list \<Rightarrow> u64 \<Rightarrow> error option \<times> u64" where
  "read_heads [] latest = (None, latest)"
| "read_heads (ev # evs) latest =
     (case ev of
        CtxDone \<Rightarrow> (None, latest)
      | ReadFails err \<Rightarrow> (Some (Wrap ''failed to read message'' err), latest)
      | Message meth number \<Rightarrow>
          if meth \<noteq> ''eth_subscription'' \<or> number = [] then read_heads evs latest
          else (case ParseUint (TrimPrefix number ''0x'') 16 of
                  Inl err \<Rightarrow> read_heads evs latest
                | Inr blockNum \<Rightarrow> read_heads evs (if blockNum > latest then blockNum else latest)))"

record head_conn =
  dial_err :: "error option"
  write_err :: "error option"
  sub_resp :: "string option result"
  events :: "head_event list"

definition connectAndSubscribe :: "head_conn \<Rightarrow> u64 \<Rightarrow> error option \<times> u64" where
  "connectAndSubscribe c latest =
     (case dial_err c of
        Some err \<Rightarrow> (Some (Wrap ''failed to connect'' err), latest)
      | None \<Rightarrow>
          (case write_err c of
             Some err \<Rightarrow> (Some (Wrap ''failed to send subscribe'' err), latest)
           | None \<Rightarrow>
               (case sub_resp c of
                  Inl err \<Rightarrow> (Some (Wrap ''failed to read subscribe response'' err), latest)
                | Inr (Some msg) \<Rightarrow> (Some (Wrap ''subscribe error'' (Fail msg)), latest)
                | Inr None \<Rightarrow> read_heads (events c) latest)))"

text \<open>The reconnecting loop; each entry is whether the context is done, and the next connection.\<close>

fun runWebSocket :: "(bool \<times> head_conn) list \<Rightarrow> u64 \<Rightarrow> u64" where
  "runWebSocket [] latest = latest"
| "runWebSocket ((stop, c) # rest) latest =
     (if stop then latest
      else (case connectAndSubscribe c latest of (err, latest') \<Rightarrow> runWebSocket rest latest'))"

subsection \<open>The head\<close>

text \<open>
  \<open>HeadTracker.Stop\<close> cancels the context, closes the connection if there is one, and waits for the
  loop, which returns after that connection: what it still brings is \<open>current\<close>.
\<close>

definition StopTracker :: "head_conn option \<Rightarrow> HeadTracker \<Rightarrow> HeadTracker" where
  "StopTracker current h =
     (case current of
        None \<Rightarrow> h
      | Some c \<Rightarrow> (case connectAndSubscribe c (headLatest h) of (err, latest) \<Rightarrow> h\<lparr>headLatest := latest\<rparr>))"

text \<open>The block numbers that a connection announces before it ends.\<close>

fun announced :: "head_event list \<Rightarrow> u64 list" where
  "announced [] = []"
| "announced (Message meth number # evs) =
     (if meth = ''eth_subscription'' \<and> number \<noteq> [] then
        (case ParseUint (TrimPrefix number ''0x'') 16 of Inl err \<Rightarrow> [] | Inr n \<Rightarrow> [n]) @ announced evs
      else announced evs)"
| "announced (ev # evs) = []"

definition conn_heads :: "head_conn \<Rightarrow> u64 list" where
  "conn_heads c =
     (if dial_err c = None \<and> write_err c = None \<and> sub_resp c = Inr None then announced (events c) else [])"

definition all_heads :: "(bool \<times> head_conn) list \<Rightarrow> u64 list" where
  "all_heads cs = concat (map (\<lambda>(stop, c). conn_heads c) (takeWhile (\<lambda>(stop, c). \<not> stop) cs))"

lemma read_heads_max: "snd (read_heads evs latest) = foldl max latest (announced evs)"
  by (induction evs arbitrary: latest rule: announced.induct)
    (auto simp: max_def split: sum.splits)

lemma connect_max: "snd (connectAndSubscribe c latest) = foldl max latest (conn_heads c)"
  by (auto simp: connectAndSubscribe_def conn_heads_def read_heads_max split: option.splits sum.splits)

lemma runWebSocket_max: "runWebSocket cs latest = foldl max latest (all_heads cs)"
proof (induction cs arbitrary: latest)
  case (Cons x cs)
  obtain stop c where x: "x = (stop, c)" by fastforce
  obtain err l where l: "connectAndSubscribe c latest = (err, l)" by fastforce
  with connect_max [of c latest] Cons.IH [of l] x show ?case
    by (auto simp: all_heads_def)
qed (simp add: all_heads_def)

lemma foldl_max_Max: "foldl max (a :: u64) ns = Max (set (a # ns))"
proof (induction ns arbitrary: a)
  case (Cons n ns)
  from Cons.IH [of "max a n"] show ?case by (cases "ns = []") (simp_all add: max.assoc)
qed simp

subsection \<open>The address of the subscription\<close>

lemma ws_url_http:
  assumes "\<not> Contains (''http://'' @ p @ ''/rp'') ''/rpc''"
    and "\<not> Contains (''ws://'' @ p @ ''/ws'' @ q) ''https://''"
  shows "ws_url (''http://'' @ p @ ''/rpc'' @ q) = ''ws://'' @ p @ ''/ws'' @ q"
proof -
  have "Replace1 ((''http://'' @ p) @ ''/rpc'' @ q) ''/rpc'' ''/ws'' = (''http://'' @ p) @ ''/ws'' @ q"
  proof (rule Replace1_first)
    fix c d assume e: "(''http://'' @ p) @ ''/rpc'' = c @ ''/rpc'' @ d"
    have "d = []"
    proof (rule ccontr)
      assume "d \<noteq> []"
      then obtain e x where "d = e @ [x]" by (metis rev_exhaust)
      with e have "''http://'' @ p @ ''/rp'' = c @ ''/rpc'' @ e" by simp
      with assms(1) show False unfolding Contains_iff by metis
    qed
    with e show "c = ''http://'' @ p" by simp
  qed simp
  moreover have "Replace1 ([] @ ''http://'' @ p @ ''/ws'' @ q) ''http://'' ''ws://'' = [] @ ''ws://'' @ p @ ''/ws'' @ q"
    by (rule Replace1_first) (auto dest: arg_cong [where f = length])
  ultimately show ?thesis using Replace1_absent [OF assms(2)] by (simp add: ws_url_def Let_def)
qed

subsection \<open>The properties\<close>

text \<open>Stopping is the run of the loop in which the context is done after the current connection.\<close>

lemma StopTracker_run:
  "headLatest (StopTracker (Some c) h) = runWebSocket ((False, c) # (True, d) # rest) (headLatest h)"
  by (simp add: StopTracker_def split: prod.split)

text \<open>C11: The head that the fetcher sees is the maximum of the number the node gave at the start and all
  numbers announced since, over any reconnections and whatever else came over the wire; it never
  falls.\<close>

theorem head_is_maximum:
  assumes "Start unm_string rpcResp h = Inr h0"
  shows "runWebSocket cs (headLatest h0) = Max (set (headLatest h0 # all_heads cs)) \<and>
    headLatest h0 \<le> runWebSocket cs (headLatest h0) \<and>
    runWebSocket cs (headLatest h0) \<le> runWebSocket (cs @ more_conns) (headLatest h0)"
proof -
  have "\<exists>ns. all_heads (cs @ more_conns) = all_heads cs @ ns"
  proof (induction cs)
    case (Cons x cs)
    then show ?case by (cases x) (auto simp: all_heads_def)
  qed (simp add: all_heads_def)
  then have "set (all_heads cs) \<subseteq> set (all_heads (cs @ more_conns))" by auto
  then have "Max (set (headLatest h0 # all_heads cs)) \<le> Max (set (headLatest h0 # all_heads (cs @ more_conns)))"
    by (intro Max_mono) auto
  then show ?thesis by (simp add: runWebSocket_max foldl_max_Max)
qed

definition demo_conn :: head_conn where
  "demo_conn = \<lparr>dial_err = None, write_err = None, sub_resp = Inr None,
     events = [Message ''eth_subscription'' ''0x10'', Message ''eth_subscription'' ''zz'',
       Message ''eth_subscription'' ''0xf'', ReadFails (Fail ''EOF'')]\<rparr>"

theorem head_is_maximum_witness:
  "runWebSocket [(False, demo_conn), (False, demo_conn)] 7 = 16"
proof -
  note parse = ParseUint_def TrimPrefix_def has_prefix_def digit_val_def Let_def
  have s: "Start Inr (Inr \<lparr>rs_ID = 1, rs_Result = ''0x7'', rs_Error = None\<rparr>) \<lparr>rpcURL = '''', wsURL = '''', headLatest = 0\<rparr> =
    Inr \<lparr>rpcURL = '''', wsURL = '''', headLatest = 7\<rparr>" by (simp add: Start_def fetchBlockNumberRPC_def parse)
  have "announced (events demo_conn) = [16, 15]" by (simp add: demo_conn_def parse)
  then have "all_heads [(False, demo_conn), (False, demo_conn)] = [16, 15, 16, 15]"
    by (simp add: all_heads_def conn_heads_def) (simp add: demo_conn_def)
  with head_is_maximum [OF s, of "[(False, demo_conn), (False, demo_conn)]"]
  show ?thesis by (simp add: max_def)
qed

text \<open>The address of the subscription is the one of the RPC endpoint with the scheme and \<open>/rpc\<close>
  replaced; but if the host name itself begins with \<open>rpc\<close>, the first \<open>/rpc\<close> is the one before the
  host, and the tracker connects to another host.\<close>

lemma subscription_address:
  assumes "\<not> Contains (''http://'' @ p @ ''/rp'') ''/rpc''"
    and "\<not> Contains (''ws://'' @ p @ ''/ws'' @ q) ''https://''"
  shows "ws_url (''http://'' @ p @ ''/rpc'' @ q) = ''ws://'' @ p @ ''/ws'' @ q \<and>
    ws_url ''http://rpc.example.com/ext/bc/C/rpc'' = ''ws://ws.example.com/ext/bc/C/rpc''"
  using ws_url_http [OF assms] by (simp add: ws_url_def Let_def has_prefix_def)

lemma subscription_address_example:
  "ws_url (''http://'' @ ''localhost:9650/ext/bc/C'' @ ''/rpc'' @ '''') = ''ws://localhost:9650/ext/bc/C/ws''"
  using subscription_address [of "''localhost:9650/ext/bc/C''" "''''"] by (simp add: has_prefix_def)

end
