(* ===== verification/Delivery.thy ===== *)
theory Delivery
  imports Service Types
begin

section \<open>What a client is handed\<close>

text \<open>
  The standalone service with the JSON encoding of \<open>rpc/types.go\<close>: the ingestion loop stores
  \<open>json.Marshal\<close> of the fetched blocks, the client library applies \<open>json.Unmarshal\<close> to the lines
  it receives.
\<close>

definition block_number :: "NormalizedBlock \<Rightarrow> string" where
  "block_number nb = blk_Number (nb_Block nb)"

definition stored_line :: "json_text \<Rightarrow> (u64 \<Rightarrow> NormalizedBlock) \<Rightarrow> u64 \<Rightarrow> bytes" where
  "stored_line tx nbs n = print tx (enc_NormalizedBlock (nbs n))"

text \<open>Blocks that carry their number and can be written as JSON.\<close>

definition printable_chain :: "(u64 \<Rightarrow> NormalizedBlock) \<Rightarrow> bool" where
  "printable_chain nbs \<longleftrightarrow>
     (\<forall>n. parseBlockNumber (block_number (nbs n)) = Inr n \<and> valid_document (enc_NormalizedBlock (nbs n)))"

lemma parseHex_parseBlockNumber: "parseHex s = parseBlockNumber s"
  by (simp add: parseHex_def parseBlockNumber_def Let_def)

lemma stored_chain_valid:
  assumes "json_laws tx" "printable_chain nbs"
  shows "valid_chain (stored_line tx nbs)"
  using assms json_laws.print_line [OF assms(1)]
  by (simp add: valid_chain_def valid_line_def stored_line_def printable_chain_def)

lemma stored_chain_decodes:
  assumes "json_laws tx" "printable_chain nbs"
  shows "decodes (unmarshal_block tx) block_number (stored_line tx nbs) (\<lambda>n. norm_NormalizedBlock (nbs n))"
proof -
  have "unmarshal_block tx (stored_line tx nbs n) = Inr (norm_NormalizedBlock (nbs n))" for n
    using assms unmarshal_marshal [OF assms(1)] by (simp add: stored_line_def printable_chain_def)
  moreover have "parseHex (block_number (norm_NormalizedBlock (nbs n))) = Inr n" for n
    using assms(2) by (simp add: parseHex_parseBlockNumber printable_chain_def block_number_def)
  ultimately show ?thesis by (simp add: decodes_def)
qed

text \<open>C1: A client of the running standalone service (Pebble, compactor, ingestion loop, server, with
  failures, restarts and reconnections anywhere) is handed exactly the consecutive blocks from the
  one it asked for, none missing, none twice, and each with all the data that was fetched for it:
  block, transactions, receipts, logs and traces come back from the JSON as they were (an empty
  list of calls in a trace comes back as nil).\<close>

theorem end_to_end_delivery:
  assumes "pebble_laws pb content" "zstd_laws zs written" "json_laws tx" "printable_chain nbs"
    and "well_keyed (content db)" "holds_upto zs (stored_line tx nbs) (kv_abs (content db)) t"
    and "\<forall>s \<in> set ss. served zs (PebbleStorage pb) (stored_line tx nbs) block_number (marshal_block tx) (boot db) s"
    and "first \<noteq> 0" "Stream zs (unmarshal_block tx) block_number reconnect first ss = (packs, pos, e)"
  shows "\<exists>k. concat packs = map (\<lambda>n. \<lparr>Number = n, Data = norm_NormalizedBlock (nbs n)\<rparr>) (u64_range first k) \<and>
    ((\<forall>err. e \<noteq> Returned err) \<longrightarrow> pos = first + of_nat k)"
  using client_is_served [OF assms(1,2) stored_chain_valid [OF assms(3,4)] stored_chain_decodes [OF assms(3,4)]
      assms(5-9)]
  by (simp add: block_of_def [abs_def])

subsection \<open>A concrete run\<close>

definition demo_nb :: "u64 \<Rightarrow> NormalizedBlock" where
  "demo_nb n = zero_NormalizedBlock\<lparr>nb_Block := zero_Block\<lparr>blk_Number := demo_chain n\<rparr>\<rparr>"

lemma valid_utf8_ascii: "list_all (byte_in 0 0x7F) s \<Longrightarrow> valid_utf8 s"
  by (induction s) simp_all

lemma demo_nb_printable: "printable_chain demo_nb"
proof -
  have "valid_utf8 (demo_chain n)" for n
  proof (rule valid_utf8_ascii)
    have "byte_in 0 0x7F c" if "c \<in> set (hex (unat n))" for c
      using show_base_range [of 16 c "unat n"] that by (simp add: byte_in_def)
    then show "list_all (byte_in 0 0x7F) (demo_chain n)"
      by (simp add: demo_chain_def list_all_iff byte_in_def)
  qed
  then have "valid_document (enc_NormalizedBlock (demo_nb n))" for n
    by (simp add: valid_document_def enc_NormalizedBlock_def demo_nb_def zero_NormalizedBlock_def enc_Block_def
        zero_Block_def enc_list_def omit_string_def byte_in_def)
  moreover have "parseBlockNumber (block_number (demo_nb n)) = Inr n" for n
    unfolding block_number_def demo_nb_def demo_chain_def using parseBlockNumber_hex by simp
  ultimately show ?thesis by (simp add: printable_chain_def)
qed

theorem end_to_end_delivery_witness:
  "\<exists>packs pos e k. Stream stored_codec (unmarshal_block demo_text) block_number True 1
      [chain_session (stored_line demo_text demo_nb)] = (packs, pos, e) \<and>
    concat packs = map (\<lambda>n. \<lparr>Number = n, Data = norm_NormalizedBlock (demo_nb n)\<rparr>) (u64_range 1 k)"
proof -
  let ?chain = "stored_line demo_text demo_nb"
  obtain packs pos e where st: "Stream stored_codec (unmarshal_block demo_text) block_number True 1
      [chain_session ?chain] = (packs, pos, e)" by (metis prod.exhaust)
  have "\<forall>s \<in> set [chain_session ?chain].
      served stored_codec (PebbleStorage mem_pebble) ?chain block_number (marshal_block demo_text) (boot (chain_db ?chain 3)) s"
    using chain_session_served by simp
  from end_to_end_delivery [OF mem_pebble.pebble_laws_axioms stored_codec.zstd_laws_axioms
      demo_json.json_laws_axioms demo_nb_printable demo_db_keyed
      chain_db_holds [OF stored_chain_valid [OF demo_json.json_laws_axioms demo_nb_printable]] this _ st]
  obtain k where "concat packs = map (\<lambda>n. \<lparr>Number = n, Data = norm_NormalizedBlock (demo_nb n)\<rparr>) (u64_range 1 k)"
    by auto
  with st show ?thesis by blast
qed

end
