(* ===== verification/Upstream.thy ===== *)
theory Upstream
  imports Window Heads Delivery
begin

section \<open>From the node to the store\<close>

text \<open>
  The upstream half of the service put together: \<open>StreamBlocks\<close> hands the fetched blocks to the
  ingestion loop, which checks their numbers and saves them.
\<close>

text \<open>What \<open>StreamBlocks\<close> sends is what the ingestion loop expects, one block after the other: if the
  fetches deliver, for each block they deliver, that block of the chain, then everything the
  stream sends from the resume position on is stored under its number, the loop never stops at a
  number mismatch, and nothing else in the store changes.\<close>

lemma streamed_blocks_are_ingested:
  fixes turns :: "'nb turn list"
  assumes "healthy_store S absf okf tracked" "okf s"
    and "\<forall>n. parseBlockNumber (num (nb n)) = Inr n \<and> marshal (nb n) = Inr (chain n)"
    and "\<forall>t \<in> set turns. \<forall>n b. fetched t n = Inr b \<longrightarrow> b = nb n"
    and "unat head0 < 18446744073709551615" "heads_ok turns"
    and "StreamBlocks windowSize cur head0 turns = Some (err, out, st)" "out \<noteq> []" "unat latest < unat cur"
  shows "\<exists>s'. ingest_stream S num marshal out cur (s, latest) =
      (Inr (cur + of_nat (length out)), s', cur + of_nat (length out) - 1) \<and> okf s' \<and>
    blocks (absf s') = (\<lambda>n. if cur \<le> n \<and> unat n < unat cur + length out then Some (chain n) else blocks (absf s) n) \<and>
    batches (absf s') = batches (absf s) \<and> meta (absf s') = meta (absf s)"
proof -
  obtain st0 where st0: "\<And>turns :: 'nb turn list. StreamBlocks windowSize cur head0 turns = stream_loop windowSize turns st0"
    "window_ok windowSize cur 0 st0" "full windowSize st0" by (rule StreamBlocks_start [OF assms(5)]) blast
  have run: "run_ok windowSize cur 0 turns err out st"
    using stream_loop_ok [OF st0(2,3) assms(6)] assms(7) st0(1) [of turns] by auto
  then have "\<forall>i < length out. \<exists>t \<in> set turns. fetched t (cur + of_nat i) = Inr (out ! i)"
    and fits: "unat cur + length out \<le> 18446744073709551615"
    using assms(8) by (simp_all add: run_ok_def)
  then have "\<forall>i < length out. out ! i = nb (cur + of_nat i)" using assms(4) by blast
  then have "out = map nb (u64_range cur (length out))" by (intro nth_equalityI) simp_all
  with ingest_stream_stores [where S = S and absf = absf and okf = okf and num = num and nb = nb and marshal = marshal
      and chain = chain and cur = cur and k = "length out" and latest = latest and s = s, OF assms(1-3) fits assms(9)] assms(8) show ?thesis by simp
qed

lemma streamed_blocks_are_ingested_example:
  "\<exists>s'. ingest_stream (PebbleStorage mem_pebble) demo_chain (\<lambda>n. Inr (demo_chain n)) [5] 5 (demo_db 4, 4) = (Inr 6, s', 5) \<and>
    blocks (kv_abs (map_of s')) 5 = Some (demo_chain 5)"
proof -
  have num: "\<forall>n. parseBlockNumber (demo_chain n) = Inr n \<and> Inr (demo_chain n) = (Inr (demo_chain n) :: bytes result)"
    using parseBlockNumber_hex by (simp add: demo_chain_def)
  have node: "\<forall>t \<in> set [demo_turn, demo_turn]. \<forall>n b. fetched t n = Inr b \<longrightarrow> b = n" by (simp add: demo_turn_def)
  have heads: "heads_ok [demo_turn, demo_turn]" by (simp add: demo_turn_def)
  have "\<exists>s'. ingest_stream (PebbleStorage mem_pebble) demo_chain (\<lambda>n. Inr (demo_chain n)) [5] 5 (demo_db 4, 4) =
      (Inr (5 + of_nat (length [5 :: u64])), s', 5 + of_nat (length [5 :: u64]) - 1) \<and> well_keyed (map_of s') \<and>
    blocks (kv_abs (map_of s')) = (\<lambda>n. if 5 \<le> n \<and> unat n < unat (5 :: u64) + length [5 :: u64]
      then Some (demo_chain n) else blocks (kv_abs (map_of (demo_db 4))) n) \<and>
    batches (kv_abs (map_of s')) = batches (kv_abs (map_of (demo_db 4))) \<and>
    meta (kv_abs (map_of s')) = meta (kv_abs (map_of (demo_db 4)))"
    using streamed_blocks_are_ingested [where nb = "\<lambda>n. n" and chain = demo_chain and latest = 4 and s = "demo_db 4",
        OF mem_pebble.refines_healthy demo_db_keyed num node _ heads demo_stream_sends] by fastforce
  then obtain s' where "ingest_stream (PebbleStorage mem_pebble) demo_chain (\<lambda>n. Inr (demo_chain n)) [5] 5 (demo_db 4, 4) =
      (Inr (5 + of_nat (length [5 :: u64])), s', 5 + of_nat (length [5 :: u64]) - 1)"
    "blocks (kv_abs (map_of s')) = (\<lambda>n. if 5 \<le> n \<and> unat n < unat (5 :: u64) + length [5 :: u64]
      then Some (demo_chain n) else blocks (kv_abs (map_of (demo_db 4))) n)" by blast
  then show ?thesis by (intro exI [of _ s'] conjI) (simp_all del: ingest_stream.simps add: fun_eq_iff)
qed

lemma parse_empty_number: "\<exists>err. parseBlockNumber '''' = Inl err"
  by (simp add: parseBlockNumber_def TrimPrefix_def has_prefix_def ParseUint_def)

text \<open>C26: A node that does not know a block yet answers \<open>null\<close>.  That is no error to the fetcher: it
  returns a block without a number, which is not fetched again; it ends the stream at the
  ingestion loop with a parse error, and nothing is stored.\<close>

theorem unknown_block_is_delivered:
  assumes "slice_sort srt" "orderly_net net" "\<And>q. ans q \<noteq> []"
    and "serves (NewFetcher c) ans (net_blocks net) [[block_request n]]"
    and "scan_first jt (ans (block_request n)) = Inr JNull"
  shows "\<exists>nb err. fetchSingleBlock (NewFetcher c) srt jt net n = Some (Inr nb) \<and>
    startFetch [(Inr nb, None)] = Some (Inr nb) \<and>
    ingest_block S block_number (marshal_block jt) intf nb cur (s, latest) =
      (Inl (Wrap ''Failed to parse block number'' err), s, latest)"
proof -
  have block: "unm_block jt (ans (block_request n)) = Inr zero_Block"
    using assms(5) by (simp add: unm_block_def StrictUnmarshal_def dec_Block_def)
  have "Execute (calls (net_blocks net) 0) (\<lambda>node. batchRpcCall (NewFetcher c) srt [block_request n] (node [block_request n])) =
      Inr [answer_response ans (block_request n)]"
    using slice_sort.served_call(1) [OF assms(1,4), of 0] assms(3) by (simp add: ordered_requests_def)
  then have "fetchBlocksBatch (NewFetcher c) srt jt (net_blocks net) n n = Some (Inr [zero_Block])"
    using assms(2) block
    by (simp add: orderly_net_def fetchBlocksBatch_one block_worker_def answer_response_def)
  moreover have "block_txs zero_Block = []" by (simp add: block_txs_def zero_Block_def elems_def)
  ultimately have "fetchSingleBlock (NewFetcher c) srt jt net n =
      Some (Inr \<lparr>nb_Block = zero_Block, nb_Traces = Some [], nb_Receipts = Some []\<rparr>)"
    by (simp add: fetchSingleBlock_def tx_infos_def)
  moreover obtain err where "parseBlockNumber '''' = Inl err" using parse_empty_number by blast
  ultimately show ?thesis by (simp add: ingest_block_def block_number_def zero_Block_def)
qed

theorem unknown_block_is_delivered_witness:
  "\<exists>nb err. fetchSingleBlock (NewFetcher demo_controller_state) (sort_key rs_ID) demo_documents
      (demo_net\<lparr>net_blocks := demo_stage ''null''\<rparr>) 7 = Some (Inr nb) \<and>
    ingest_block (PebbleStorage mem_pebble) block_number (marshal_block demo_documents) [] nb 7 (demo_db 6, 6) =
      (Inl (Wrap ''Failed to parse block number'' err), demo_db 6, 6)"
proof -
  let ?net = "demo_net\<lparr>net_blocks := demo_stage ''null''\<rparr>"
  have "answers_after (NewFetcher demo_controller_state) (\<lambda>q. ''null'') [block_request 7]
      (replies (calls (net_blocks ?net) 0) [block_request 7])"
    unfolding answers_after_def
    by (intro exI [of _ 0] exI [of _ "[answer_wire (\<lambda>q. ''null'') (block_request 7)]"])
      (simp add: demo_stage_def answer_wire_def)
  then have "serves (NewFetcher demo_controller_state) (\<lambda>q. ''null'') (net_blocks ?net) [[block_request 7]]"
    by (simp add: serves_def demo_stage_def)
  moreover have "orderly_net ?net"
    by (simp add: orderly_net_def demo_net_def demo_stage_def every_batch_def)
  moreover have "scan_first demo_documents ''null'' = Inr JNull" by (simp add: demo_documents_def)
  ultimately show ?thesis
    using unknown_block_is_delivered [OF sort_by_id.slice_sort_axioms, of ?net "\<lambda>q. ''null''"] by fastforce
qed

end
