(* ===== verification/Example.thy ===== *)
theory Example
  imports Delivery
begin

section \<open>The example client\<close>

text \<open>
  \<open>evm-ingestion-client/example/main.go\<close>: a client without the library, with its own stream loop
  that hands over one block at a time, and a handler that stops the program if a block is not the
  next one.  The sockets are the environment, as for the library.
\<close>

subsection \<open>The code\<close>

definition exampleBlockNumber :: "string \<Rightarrow> u64 result" where
  "exampleBlockNumber hexNum = (let numStr = TrimPrefix hexNum ''0x'' in ParseUint numStr 16)"

record example_state =
  lastBlock :: u64
  totalBlocks :: u64
  totalTxs :: u64

text \<open>The handler of \<open>main\<close>; \<open>None\<close> is \<open>log.Fatalf\<close>.  \<open>txs\<close> is the length of \<open>block.Block.Transactions\<close>.\<close>

definition example_handler :: "('nb \<Rightarrow> nat) \<Rightarrow> u64 \<Rightarrow> 'nb \<Rightarrow> example_state \<Rightarrow> example_state option" where
  "example_handler txs blockNum block st =
     (if blockNum \<noteq> lastBlock st + 1 then None
      else Some (st\<lparr>lastBlock := blockNum, totalBlocks := totalBlocks st + 1,
                    totalTxs := totalTxs st + of_nat (txs block)\<rparr>))"

text \<open>How a loop stands: waiting for the next message, ended by an error, or the program has exited.\<close>

datatype example_result = Waiting | Failed error | Exited

text \<open>The lines of one frame: how it ends, \<open>currentBlock\<close>, and the blocks that were handled.\<close>

fun example_lines ::
  "(bytes \<Rightarrow> 'nb result) \<Rightarrow> ('nb \<Rightarrow> string) \<Rightarrow> ('nb \<Rightarrow> nat) \<Rightarrow> bytes list \<Rightarrow> u64 \<Rightarrow> example_state \<Rightarrow>
    example_result \<times> u64 \<times> 'nb list \<times> example_state" where
  "example_lines unm num txs [] currentBlock st = (Waiting, currentBlock, [], st)"
| "example_lines unm num txs (line # lines) currentBlock st =
     (if length line = 0 then example_lines unm num txs lines currentBlock st
      else (case unm line of
        Inl err \<Rightarrow> (Failed (Wrap ''parse block failed'' err), currentBlock, [], st)
      | Inr block \<Rightarrow>
          (case exampleBlockNumber (num block) of
             Inl err \<Rightarrow> (Failed (Wrap ''parse block number failed'' err), currentBlock, [], st)
           | Inr blockNum \<Rightarrow>
               if blockNum < currentBlock then example_lines unm num txs lines currentBlock st
               else (case example_handler txs blockNum block st of
                       None \<Rightarrow> (Exited, currentBlock, [], st)
                     | Some st' \<Rightarrow>
                         (case example_lines unm num txs lines (blockNum + 1) st' of
                            (r, pos, bs, st'') \<Rightarrow> (r, pos, block # bs, st''))))))"

fun example_messages ::
  "'w zstd \<Rightarrow> (bytes \<Rightarrow> 'nb result) \<Rightarrow> ('nb \<Rightarrow> string) \<Rightarrow> ('nb \<Rightarrow> nat) \<Rightarrow> bytes result list \<Rightarrow> u64 \<Rightarrow>
    example_state \<Rightarrow> example_result \<times> 'nb list \<times> example_state" where
  "example_messages zs unm num txs [] currentBlock st = (Waiting, [], st)"
| "example_messages zs unm num txs (msg # msgs) currentBlock st =
     (case msg of
        Inl err \<Rightarrow> (Failed (Wrap ''read failed'' err), [], st)
      | Inr data \<Rightarrow>
          (case dec_all zs data of
             Inl err \<Rightarrow> (Failed (Wrap ''decompress failed'' err), [], st)
           | Inr decompressed \<Rightarrow>
               (case example_lines unm num txs (split_on newline decompressed) currentBlock st of
                  (Waiting, pos, bs, st') \<Rightarrow>
                    (case example_messages zs unm num txs msgs pos st' of
                       (r, bs', st'') \<Rightarrow> (r, bs @ bs', st''))
                | (r, pos, bs, st') \<Rightarrow> (r, bs, st'))))"

record example_conn =
  example_dial :: "error option"
  example_received :: "u64 \<Rightarrow> bytes result list"

definition example_stream ::
  "'w zstd \<Rightarrow> (bytes \<Rightarrow> 'nb result) \<Rightarrow> ('nb \<Rightarrow> string) \<Rightarrow> ('nb \<Rightarrow> nat) \<Rightarrow> example_conn \<Rightarrow> u64 \<Rightarrow>
    example_state \<Rightarrow> example_result \<times> 'nb list \<times> example_state" where
  "example_stream zs unm num txs c fromBlock st =
     (case example_dial c of
        Some err \<Rightarrow> (Failed (Wrap ''connect failed'' err), [], st)
      | None \<Rightarrow> example_messages zs unm num txs (example_received c fromBlock) fromBlock st)"

text \<open>The reconnection loop of \<open>main\<close>: an error of a stream is printed and the next one opened.\<close>

fun example_loop ::
  "'w zstd \<Rightarrow> (bytes \<Rightarrow> 'nb result) \<Rightarrow> ('nb \<Rightarrow> string) \<Rightarrow> ('nb \<Rightarrow> nat) \<Rightarrow> example_conn list \<Rightarrow>
    example_state \<Rightarrow> example_result \<times> 'nb list \<times> example_state" where
  "example_loop zs unm num txs [] st = (Waiting, [], st)"
| "example_loop zs unm num txs (c # cs) st =
     (case example_stream zs unm num txs c (lastBlock st + 1) st of
        (Failed err, bs, st') \<Rightarrow>
          (case example_loop zs unm num txs cs st' of (r, bs', st'') \<Rightarrow> (r, bs @ bs', st''))
      | (r, bs, st') \<Rightarrow> (r, bs, st'))"

definition example_main ::
  "'w zstd \<Rightarrow> (bytes \<Rightarrow> 'nb result) \<Rightarrow> ('nb \<Rightarrow> string) \<Rightarrow> ('nb \<Rightarrow> nat) \<Rightarrow> u64 \<Rightarrow> example_conn list \<Rightarrow>
    example_result \<times> 'nb list \<times> example_state" where
  "example_main zs unm num txs fromBlock cs =
     example_loop zs unm num txs cs \<lparr>lastBlock = fromBlock - 1, totalBlocks = 0, totalTxs = 0\<rparr>"

subsection \<open>One frame\<close>

text \<open>The state after \<open>k\<close> more blocks from \<open>cur\<close> on.\<close>

definition advanced :: "('nb \<Rightarrow> nat) \<Rightarrow> (u64 \<Rightarrow> 'nb) \<Rightarrow> u64 \<Rightarrow> nat \<Rightarrow> example_state \<Rightarrow> example_state" where
  "advanced txs nb_of cur k st =
     \<lparr>lastBlock = cur + of_nat k - 1, totalBlocks = totalBlocks st + of_nat k,
      totalTxs = totalTxs st + of_nat (sum_list (map (\<lambda>n. txs (nb_of n)) (u64_range cur k)))\<rparr>"

lemma advanced_0: "lastBlock st + 1 = cur \<Longrightarrow> advanced txs nb_of cur 0 st = st"
  by (auto simp: advanced_def)

lemma advanced_add:
  "advanced txs nb_of (cur + of_nat j) k (advanced txs nb_of cur j st) = advanced txs nb_of cur (j + k) st"
  by (simp add: advanced_def u64_range_add add.assoc)

lemma exampleBlockNumber_parseHex: "exampleBlockNumber s = parseHex s"
  by (simp add: exampleBlockNumber_def parseHex_def)

lemma example_lines_nonempty:
  "example_lines unm num txs (filter (\<lambda>l. l \<noteq> []) ls) cur st = example_lines unm num txs ls cur st"
  by (induction ls arbitrary: cur st) (simp_all split: sum.split option.split prod.split)

lemma example_lines_below:
  assumes "decodes unm num chain nb_of" "valid_chain chain" "\<forall>n \<in> set ns. n < cur"
  shows "example_lines unm num txs (map chain ns @ ls) cur st = example_lines unm num txs ls cur st"
  using assms
  by (induction ns) (auto simp: decodes_def valid_chain_def valid_line_def exampleBlockNumber_parseHex)

lemma example_lines_next:
  assumes "decodes unm num chain nb_of" "valid_chain chain"
  shows "lastBlock st + 1 = cur \<Longrightarrow> unat cur + k \<le> 18446744073709551615 \<Longrightarrow>
    example_lines unm num txs (map chain (u64_range cur k)) cur st =
      (Waiting, cur + of_nat k, map nb_of (u64_range cur k), advanced txs nb_of cur k st)"
proof (induction k arbitrary: cur st)
  case (Suc k)
  let ?st = "st\<lparr>lastBlock := cur, totalBlocks := totalBlocks st + 1, totalTxs := totalTxs st + of_nat (txs (nb_of cur))\<rparr>"
  have line: "chain cur \<noteq> []" "unm (chain cur) = Inr (nb_of cur)" "exampleBlockNumber (num (nb_of cur)) = Inr cur"
    using assms by (simp_all add: decodes_def valid_chain_def valid_line_def exampleBlockNumber_parseHex)
  have "unat (cur + 1) = unat cur + 1" using Suc.prems(2) by (simp add: unat_add_u64)
  then have "example_lines unm num txs (map chain (u64_range (cur + 1) k)) (cur + 1) ?st =
      (Waiting, cur + 1 + of_nat k, map nb_of (u64_range (cur + 1) k), advanced txs nb_of (cur + 1) k ?st)"
    using Suc.prems(2) by (intro Suc.IH) simp_all
  moreover have "advanced txs nb_of (cur + 1) k ?st = advanced txs nb_of cur (Suc k) st"
    by (simp add: advanced_def u64_range_Suc ac_simps)
  ultimately show ?case using line Suc.prems(1)
    by (simp add: u64_range_Suc example_handler_def ac_simps)
qed (simp add: advanced_0)

lemma example_lines_frame:
  assumes "decodes unm num chain nb_of" "valid_chain chain"
    and "frame_lines zs f = Inr (map chain (u64_range a k))"
    and "a \<le> cur" "unat cur < unat a + k" "unat a + k \<le> 18446744073709551615"
    and "lastBlock st + 1 = cur" "dec_all zs f = Inr raw"
  shows "\<exists>j. example_lines unm num txs (split_on newline raw) cur st =
      (Waiting, a + of_nat k, map nb_of (u64_range cur j), advanced txs nb_of cur j st) \<and>
    cur + of_nat j = a + of_nat k \<and> unat cur + j \<le> 18446744073709551615"
proof -
  define i where "i = unat cur - unat a"
  have i: "i < k" "k = i + (k - i)" "a + of_nat i = cur"
    using assms(4-6) by (auto simp: i_def u64_simps u64_eq_iff unat_add_u64 unat_of_nat_u64)
  have range: "u64_range a k = u64_range a i @ u64_range cur (k - i)"
    using u64_range_add [of a i "k - i"] i(1,3) by simp
  have low: "\<forall>n \<in> set (u64_range a i). n < cur"
    using set_u64_range [of a i] assms(4,6) i(1) by (auto simp: u64_simps i_def)
  have "filter (\<lambda>l. l \<noteq> []) (split_on newline raw) = map chain (u64_range a k)"
    using assms(3,8) by (simp add: frame_lines_def nonempty_lines_def)
  then have "example_lines unm num txs (split_on newline raw) cur st =
      example_lines unm num txs (map chain (u64_range a i) @ map chain (u64_range cur (k - i))) cur st"
    using example_lines_nonempty [of unm num txs "split_on newline raw" cur st] by (simp add: range)
  also have "\<dots> = example_lines unm num txs (map chain (u64_range cur (k - i))) cur st"
    by (rule example_lines_below [OF assms(1,2) low])
  also have "\<dots> = (Waiting, cur + of_nat (k - i), map nb_of (u64_range cur (k - i)), advanced txs nb_of cur (k - i) st)"
  proof (rule example_lines_next [OF assms(1,2,7)])
    show "unat cur + (k - i) \<le> 18446744073709551615" using assms(4-6) by (simp add: i_def u64_simps)
  qed
  finally have "example_lines unm num txs (split_on newline raw) cur st =
      (Waiting, cur + of_nat (k - i), map nb_of (u64_range cur (k - i)), advanced txs nb_of cur (k - i) st)" .
  moreover have "cur + of_nat (k - i) = a + of_nat k"
    using i by (metis add.assoc of_nat_add)
  moreover have "unat cur + (k - i) \<le> 18446744073709551615" using assms(4-6) by (simp add: i_def u64_simps)
  ultimately show ?thesis by (intro exI [of _ "k - i"]) simp
qed

subsection \<open>A connection, and the whole run\<close>

text \<open>What a run has done: handled the blocks from \<open>cur\<close> on, and not exited.\<close>

definition example_ok ::
  "('nb \<Rightarrow> nat) \<Rightarrow> (u64 \<Rightarrow> 'nb) \<Rightarrow> u64 \<Rightarrow> example_state \<Rightarrow> example_result \<times> 'nb list \<times> example_state \<Rightarrow> bool" where
  "example_ok txs nb_of cur st out \<longleftrightarrow>
     (\<exists>k r. out = (r, map nb_of (u64_range cur k), advanced txs nb_of cur k st) \<and> r \<noteq> Exited \<and>
        unat cur + k \<le> 18446744073709551615)"

lemma example_ok_0: "lastBlock st + 1 = cur \<Longrightarrow> r \<noteq> Exited \<Longrightarrow> example_ok txs nb_of cur st (r, [], st)"
  unfolding example_ok_def using unat_u64_le [of cur]
  by (intro exI [of _ 0] exI [of _ r]) (simp add: advanced_0)

lemma example_ok_append:
  assumes "example_ok txs nb_of (cur + of_nat j) (advanced txs nb_of cur j st) (r, bs, st')"
    and "unat cur + j \<le> 18446744073709551615"
  shows "example_ok txs nb_of cur st (r, map nb_of (u64_range cur j) @ bs, st')"
proof -
  obtain k where k: "bs = map nb_of (u64_range (cur + of_nat j) k)" "r \<noteq> Exited"
    "st' = advanced txs nb_of (cur + of_nat j) k (advanced txs nb_of cur j st)"
    "unat (cur + of_nat j) + k \<le> 18446744073709551615"
    using assms(1) by (auto simp: example_ok_def)
  have "unat (cur + of_nat j) = unat cur + j" using assms(2) by (simp add: unat_add_u64 unat_of_nat_u64)
  with k show ?thesis unfolding example_ok_def
    by (intro exI [of _ "j + k"] exI [of _ r]) (simp add: u64_range_add advanced_add)
qed

definition frames_of :: "bytes result list \<Rightarrow> bytes list" where
  "frames_of msgs = map projr (takeWhile (\<lambda>m. \<not> isl m) msgs)"

lemma example_messages_ok:
  assumes "decodes unm num chain nb_of" "valid_chain chain"
  shows "carries zs chain cur (frames_of msgs) nxt \<Longrightarrow> lastBlock st + 1 = cur \<Longrightarrow>
    example_ok txs nb_of cur st (example_messages zs unm num txs msgs cur st)"
proof (induction msgs arbitrary: cur st)
  case Nil
  then show ?case by (simp add: example_ok_0)
next
  case (Cons m msgs)
  show ?case
  proof (cases m)
    case (Inl err)
    with Cons.prems(2) show ?thesis by (simp add: example_ok_0)
  next
    case (Inr f)
    then have "carries zs chain cur (f # frames_of msgs) nxt"
      using Cons.prems(1) by (simp add: frames_of_def)
    then obtain a k where ak: "frame_lines zs f = Inr (map chain (u64_range a k))" "a \<le> cur"
      "unat cur < unat a + k" "unat a + k \<le> 18446744073709551615"
      and rest: "carries zs chain (a + of_nat k) (frames_of msgs) nxt"
      by (auto elim: carries_ConsE)
    obtain raw where raw: "dec_all zs f = Inr raw" using ak(1) by (auto simp: frame_lines_def split: sum.splits)
    obtain j where j: "example_lines unm num txs (split_on newline raw) cur st =
        (Waiting, a + of_nat k, map nb_of (u64_range cur j), advanced txs nb_of cur j st)"
      "cur + of_nat j = a + of_nat k" "unat cur + j \<le> 18446744073709551615"
      using example_lines_frame [OF assms ak Cons.prems(2) raw] by blast
    obtain r bs st' where run: "example_messages zs unm num txs msgs (a + of_nat k) (advanced txs nb_of cur j st) = (r, bs, st')"
      by (metis prod.exhaust)
    have "lastBlock (advanced txs nb_of cur j st) + 1 = a + of_nat k" using j(2) by (simp add: advanced_def)
    then have "example_ok txs nb_of (cur + of_nat j) (advanced txs nb_of cur j st) (r, bs, st')"
      using Cons.IH [OF rest, of "advanced txs nb_of cur j st"] run by (simp add: j(2))
    with j show ?thesis using example_ok_append run Inr raw by fastforce
  qed
qed

lemma example_loop_ok:
  assumes "decodes unm num chain nb_of" "valid_chain chain"
    and "\<And>c n. c \<in> set cs \<Longrightarrow> n \<noteq> 0 \<Longrightarrow> \<exists>nxt. carries zs chain n (frames_of (example_received c n)) nxt"
  shows "lastBlock st + 1 = cur \<Longrightarrow> cur \<noteq> 0 \<Longrightarrow> example_ok txs nb_of cur st (example_loop zs unm num txs cs st)"
  using assms(3)
proof (induction cs arbitrary: cur st)
  case Nil
  then show ?case by (simp add: example_ok_0)
next
  case (Cons c cs)
  have ok: "example_ok txs nb_of cur st (example_stream zs unm num txs c cur st)"
  proof (cases "example_dial c")
    case None
    from Cons.prems(3) [of c cur] Cons.prems(2) obtain nxt where "carries zs chain cur (frames_of (example_received c cur)) nxt"
      by auto
    with None show ?thesis using example_messages_ok [OF assms(1,2) _ Cons.prems(1)] by (simp add: example_stream_def)
  qed (use Cons.prems(1) in \<open>simp add: example_stream_def example_ok_0\<close>)
  then obtain k r where k: "example_stream zs unm num txs c cur st = (r, map nb_of (u64_range cur k), advanced txs nb_of cur k st)"
    "r \<noteq> Exited" "unat cur + k \<le> 18446744073709551615"
    by (auto simp: example_ok_def)
  show ?case
  proof (cases r)
    case (Failed err)
    let ?st = "advanced txs nb_of cur k st"
    have "unat (cur + of_nat k) = unat cur + k" using k(3) by (simp add: unat_add_u64 unat_of_nat_u64)
    then have "cur + of_nat k \<noteq> 0" using Cons.prems(2) by (auto simp: u64_eq_iff)
    then have "example_ok txs nb_of (cur + of_nat k) ?st (example_loop zs unm num txs cs ?st)"
      using Cons.prems(3) by (intro Cons.IH) (simp_all add: advanced_def)
    moreover obtain r' bs st' where "example_loop zs unm num txs cs ?st = (r', bs, st')" by (metis prod.exhaust)
    ultimately show ?thesis using k(1,3) Failed Cons.prems(1) example_ok_append [of txs nb_of cur k st r' bs st']
      by simp
  qed (use ok k Cons.prems(1) in simp_all)
qed

subsection \<open>Started at block 0\<close>

text \<open>
  \<open>lastBlock\<close> starts at the largest number, \<open>fromBlock - 1\<close>, and the server answers with block 1: the
  first line of the first frame is not the block the handler waits for.
\<close>

lemma example_lines_from_0:
  assumes "decodes unm num chain nb_of" "valid_chain chain"
    and "frame_lines zs f = Inr (map chain (u64_range a k))" "a \<noteq> 0" "0 < k"
    and "lastBlock st + 1 = 0" "dec_all zs f = Inr raw"
  shows "example_lines unm num txs (split_on newline raw) 0 st = (Exited, 0, [], st)"
proof -
  have "u64_range a k = a # u64_range (a + 1) (k - 1)"
    using assms(5) u64_range_Suc [of a "k - 1"] by simp
  then have "filter (\<lambda>l. l \<noteq> []) (split_on newline raw) = chain a # map chain (u64_range (a + 1) (k - 1))"
    using assms(3,7) by (simp add: frame_lines_def nonempty_lines_def)
  moreover have "chain a \<noteq> []" "unm (chain a) = Inr (nb_of a)" "exampleBlockNumber (num (nb_of a)) = Inr a"
    using assms(1,2) by (simp_all add: decodes_def valid_chain_def valid_line_def exampleBlockNumber_parseHex)
  ultimately show ?thesis
    using example_lines_nonempty [of unm num txs "split_on newline raw" 0 st] assms(4,6)
    by (simp add: example_handler_def)
qed

lemma example_messages_from_0:
  assumes "decodes unm num chain nb_of" "valid_chain chain" "carries zs chain 1 (frames_of msgs) nxt"
    and "lastBlock st + 1 = 0" "example_messages zs unm num txs msgs 0 st = (r, bs, st')"
  shows "bs = [] \<and> st' = st \<and> (r = Exited \<longleftrightarrow> frames_of msgs \<noteq> []) \<and> (r = Waiting \<longleftrightarrow> msgs = [])"
proof (cases msgs)
  case (Cons m ms)
  show ?thesis
  proof (cases m)
    case (Inr f)
    with Cons have fs: "frames_of msgs = f # frames_of ms" by (simp add: frames_of_def)
    obtain a k where ak: "frame_lines zs f = Inr (map chain (u64_range a k))" "a \<noteq> 0" "a \<le> 1" "1 < unat a + k"
      using assms(3) unfolding fs by (auto elim: carries_ConsE)
    then have "0 < k" by (auto simp: u64_simps)
    obtain raw where raw: "dec_all zs f = Inr raw" using ak(1) by (auto simp: frame_lines_def split: sum.splits)
    then show ?thesis
      using assms(5) Cons Inr fs example_lines_from_0 [OF assms(1,2) ak(1,2) \<open>0 < k\<close> assms(4) raw, of txs] by simp
  qed (use Cons assms(5) in \<open>auto simp: frames_of_def\<close>)
qed (use assms(5) in \<open>auto simp: frames_of_def\<close>)

text \<open>The connections the loop tries, as long as each ends with an error.\<close>

fun tried :: "example_conn list \<Rightarrow> example_conn list" where
  "tried [] = []"
| "tried (c # cs) = c # (if example_dial c = None \<and> example_received c 0 = [] then [] else tried cs)"

definition gets_frame :: "example_conn \<Rightarrow> bool" where
  "gets_frame c \<longleftrightarrow> example_dial c = None \<and> frames_of (example_received c 0) \<noteq> []"

lemma example_loop_from_0:
  assumes "decodes unm num chain nb_of" "valid_chain chain"
    and "\<And>c. c \<in> set cs \<Longrightarrow> \<exists>nxt. carries zs chain 1 (frames_of (example_received c 0)) nxt"
    and "lastBlock st + 1 = 0" "example_loop zs unm num txs cs st = (r, bs, st')"
  shows "bs = [] \<and> st' = st \<and> (r = Exited \<longleftrightarrow> (\<exists>c \<in> set (tried cs). gets_frame c))"
  using assms(3-5)
proof (induction cs arbitrary: r bs st')
  case (Cons c cs)
  obtain r1 bs1 st1 where one: "example_stream zs unm num txs c 0 st = (r1, bs1, st1)" by (metis prod.exhaust)
  have first: "bs1 = [] \<and> st1 = st \<and> (r1 = Exited \<longleftrightarrow> gets_frame c) \<and>
      (r1 = Waiting \<longleftrightarrow> example_dial c = None \<and> example_received c 0 = [])"
  proof (cases "example_dial c")
    case None
    from Cons.prems(1) [of c] obtain nxt where "carries zs chain 1 (frames_of (example_received c 0)) nxt" by auto
    from example_messages_from_0 [OF assms(1,2) this Cons.prems(2)] None one show ?thesis
      by (auto simp: example_stream_def gets_frame_def)
  qed (use one in \<open>auto simp: example_stream_def gets_frame_def\<close>)
  have frame: "gets_frame c \<Longrightarrow> example_received c 0 \<noteq> []" by (auto simp: gets_frame_def frames_of_def)
  show ?case
  proof (cases r1)
    case (Failed err)
    obtain r2 bs2 st2 where rest: "example_loop zs unm num txs cs st = (r2, bs2, st2)" by (metis prod.exhaust)
    have "bs2 = [] \<and> st2 = st \<and> (r2 = Exited \<longleftrightarrow> (\<exists>c \<in> set (tried cs). gets_frame c))"
      using Cons.prems(1) by (intro Cons.IH [OF _ Cons.prems(2) rest]) simp
    then show ?thesis using Cons.prems(2,3) one first rest Failed by auto
  qed (use Cons.prems(2,3) one first frame in auto)
qed auto

subsection \<open>The property\<close>

text \<open>C14: Connected to the running service and started at a block other than 0, the example client never
  stops with its fatal message: over any number of reconnections and errors it handles exactly the
  consecutive blocks from the one it was started with, counts each once, and resumes after the last
  one.  Started at block 0 it handles no block at all, and stops with the fatal message as soon as
  a connection it tries gets a frame: the server starts at block 1, the client waits for block 0.\<close>

theorem example_never_fatal:
  assumes "pebble_laws pb content" "zstd_laws zs written" "valid_chain chain" "decodes unm number chain nb_of"
    and "well_keyed (content db)" "holds_upto zs chain (kv_abs (content db)) t"
    and "\<forall>c \<in> set cs. \<forall>n m. handleWS (dec (unat n)) = Inr m \<longrightarrow>
      (\<exists>s. served zs (PebbleStorage pb) chain num marshal (boot db) s \<and>
        received (readings s m) = frames_of (example_received c n))"
    and "example_main zs unm number txs fromBlock cs = (r, bs, st)"
  shows "if fromBlock = 0
    then bs = [] \<and> totalBlocks st = 0 \<and> (r = Exited \<longleftrightarrow> (\<exists>c \<in> set (tried cs). gets_frame c))
    else \<exists>k. bs = map nb_of (u64_range fromBlock k) \<and> r \<noteq> Exited \<and> lastBlock st = fromBlock + of_nat k - 1 \<and>
      totalBlocks st = of_nat k \<and> totalTxs st = of_nat (sum_list (map txs bs))"
proof -
  let ?st = "\<lparr>lastBlock = fromBlock - 1, totalBlocks = 0, totalTxs = 0\<rparr> :: example_state"
  note pipe = pebble_pipelineI [OF assms(1-3)]
  have ok: "pipeline.sys_ok (\<lambda>db. kv_abs (content db)) (\<lambda>db. well_keyed (content db)) zs chain (boot db) t"
    by (rule pipeline.boot_ok [OF pipe assms(5,6)])
  have c: "\<exists>nxt. carries zs chain (if n = 0 then 1 else n) (frames_of (example_received c n)) nxt"
    if mem: "c \<in> set cs" for c n
  proof -
    obtain s where s: "served zs (PebbleStorage pb) chain num marshal (boot db) s"
      "received (readings s (if n = 0 then 1 else n)) = frames_of (example_received c n)"
      using assms(7) [rule_format, OF mem handleWS_printed [of n]] by blast
    have "(if n = 0 then 1 else n) \<noteq> 0" by simp
    from pipeline.served_carries [OF pipe ok s(1) this] s(2) show ?thesis by simp
  qed
  have run: "example_loop zs unm number txs cs ?st = (r, bs, st)" using assms(8) by (simp add: example_main_def)
  show ?thesis
  proof (cases "fromBlock = 0")
    case True
    have z: "\<exists>nxt. carries zs chain 1 (frames_of (example_received c 0)) nxt" if "c \<in> set cs" for c
      using c [OF that, of 0] by simp
    from example_loop_from_0 [OF assms(4,3) z _ run] True show ?thesis by simp
  next
    case False
    have "\<exists>nxt. carries zs chain n (frames_of (example_received c n)) nxt" if "c \<in> set cs" "n \<noteq> 0" for c n
      using c [OF that(1), of n] that(2) by simp
    then have "example_ok txs nb_of fromBlock ?st (r, bs, st)"
      using example_loop_ok [OF assms(4,3), where cs = cs and zs = zs and cur = fromBlock and txs = txs and st = ?st]
        False run by simp
    with False show ?thesis by (auto simp: example_ok_def advanced_def o_def)
  qed
qed

lemma frames_of_closed: "frames_of (map Inr fs @ [Inl err]) = fs"
  by (induction fs) (simp_all add: frames_of_def)

definition demo_example :: example_conn where
  "demo_example = \<lparr>example_dial = None,
     example_received = (\<lambda>n. map message (readings demo_session (if n = 0 then 1 else n)) @ [Inl (Fail ''closed'')])\<rparr>"

theorem example_never_fatal_witness:
  "\<exists>r bs st k. example_main stored_codec Inr (\<lambda>nb. nb) length 1 [demo_example, demo_example] = (r, bs, st) \<and>
    bs = map demo_chain (u64_range 1 k) \<and> r \<noteq> Exited \<and> totalBlocks st = of_nat k"
proof -
  obtain r bs st where run: "example_main stored_codec Inr (\<lambda>nb. nb) length 1 [demo_example, demo_example] = (r, bs, st)"
    by (metis prod.exhaust)
  have "\<forall>c \<in> set [demo_example, demo_example]. \<forall>n m. handleWS (dec (unat n)) = Inr m \<longrightarrow>
      (\<exists>s. served stored_codec (PebbleStorage mem_pebble) demo_chain (\<lambda>nb. nb) Inr (boot (demo_db 3)) s \<and>
        received (readings s m) = frames_of (example_received c n))"
    using demo_session_served
    by (auto simp: demo_example_def chain_session_def received_all frames_of_closed o_def handleWS_printed)
  from example_never_fatal [OF mem_pebble.pebble_laws_axioms stored_codec.zstd_laws_axioms demo_chain_valid
      demo_chain_decodes demo_db_keyed demo_db_holds this run]
  show ?thesis using run by auto
qed

end
