(* ===== verification/IndexVM.thy ===== *)
theory IndexVM
  imports VersionDB Server
begin

section \<open>The VM plugin: indexing inside block acceptance\<close>

text \<open>
  \<open>indexing-subnet-evm/indexer.go\<close>, \<open>block.go\<close> and \<open>vm.go\<close>.  The wrapped VM, its chain, its
  tracer and its block acceptance are not part of the repository: they are parameters.
\<close>

subsection \<open>Indexing one block\<close>

text \<open>
  What the indexer asks of the chain: the block of a height, its receipts (\<open>None\<close> is nil), the
  tracer (\<open>None\<close> if it is nil) and the JSON encoding of the three in RPC format.
\<close>

record ('blk, 'rc, 'tr) chain_api =
  GetBlockByNumber :: "u64 \<Rightarrow> 'blk option"
  GetReceipts :: "'blk \<Rightarrow> 'rc list option"
  tracerAPI :: "(u64 \<Rightarrow> 'tr result) option"
  marshal_normalized :: "'blk \<Rightarrow> 'rc list \<Rightarrow> 'tr \<Rightarrow> bytes result"

definition normalized_data :: "('blk, 'rc, 'tr) chain_api \<Rightarrow> u64 \<Rightarrow> bytes result" where
  "normalized_data api height =
     (case GetBlockByNumber api height of
        None \<Rightarrow> Inl (Fail ''block not found in chain'')
      | Some block \<Rightarrow>
          (case GetReceipts api block of
             None \<Rightarrow> Inl (Fail ''receipts not found for block'')
           | Some receipts \<Rightarrow>
               (case tracerAPI api of
                  None \<Rightarrow> Inl (Fail ''tracerAPI not available'')
                | Some trace \<Rightarrow>
                    (case trace height of
                       Inl err \<Rightarrow> Inl (Wrap ''trace block'' err)
                     | Inr tracesRPC \<Rightarrow>
                         (case marshal_normalized api block receipts tracesRPC of
                            Inl err \<Rightarrow> Inl (Wrap ''marshal block'' err)
                          | Inr data \<Rightarrow> Inr data)))))"

text \<open>
  The server is \<open>None\<close> until \<open>Initialize\<close> has made it; of it only the latest block matters here.
\<close>

definition indexBlock ::
  "'s Storage \<Rightarrow> ('blk, 'rc, 'tr) chain_api \<Rightarrow> u64 \<Rightarrow> 's \<times> u64 option \<Rightarrow>
    error option \<times> 's \<times> u64 option" where
  "indexBlock S api height st =
     (case st of (s, server) \<Rightarrow>
       (case normalized_data api height of
          Inl err \<Rightarrow> (Some err, s, server)
        | Inr data \<Rightarrow>
            (case SaveBlock S s height data of
               (Some err, s') \<Rightarrow> (Some (Wrap ''save block'' err), s', server)
             | (None, s') \<Rightarrow>
                 (None, s', map_option (\<lambda>latest. UpdateLatestBlock [] latest height) server))))"

subsection \<open>Accepting a block\<close>

record 's vm =
  vm_store :: 's
  vm_server :: "u64 option"
  lastAcceptedHeight :: u64
  lastIndexedHeight :: u64

text \<open>\<open>inner height\<close> is \<open>Accept\<close> of the wrapped block: it commits or aborts the shared database.\<close>

definition Accept ::
  "(u64 \<Rightarrow> 's \<Rightarrow> error option \<times> 's) \<Rightarrow> 's Storage \<Rightarrow> ('blk, 'rc, 'tr) chain_api \<Rightarrow> u64 \<Rightarrow> 's vm \<Rightarrow>
    error option \<times> 's vm" where
  "Accept inner S api height vm =
     (if height \<le> lastIndexedHeight vm
      then (case inner height (vm_store vm) of (r, s) \<Rightarrow> (r, vm\<lparr>vm_store := s\<rparr>))
      else (case indexBlock S api height (vm_store vm, vm_server vm) of
              (Some err, s, server) \<Rightarrow>
                (Some (Wrap ''indexing block'' err), vm\<lparr>vm_store := s, vm_server := server\<rparr>)
            | (None, s, server) \<Rightarrow>
                (case inner height s of
                   (Some err, s') \<Rightarrow> (Some err, vm\<lparr>vm_store := s', vm_server := server\<rparr>)
                 | (None, s') \<Rightarrow>
                     (None, vm\<lparr>vm_store := s', vm_server := server, lastIndexedHeight := height,
                        lastAcceptedHeight := height\<rparr>))))"

subsection \<open>Starting\<close>

definition errChainIDRequired :: error where
  "errChainIDRequired = Fail ''GRPC_INDEXER_CHAIN_ID env var is required''"
definition errChainNotAllowed :: error where
  "errChainNotAllowed = Fail ''chain ID does not match GRPC_INDEXER_CHAIN_ID''"

definition restored_height :: "'s Storage \<Rightarrow> 's \<Rightarrow> u64" where
  "restored_height S s =
     (let lastIndexed = GetMeta S s in
      case LatestBlock S s of
        None \<Rightarrow> lastIndexed
      | Some latest \<Rightarrow> if latest > lastIndexed then latest else lastIndexed)"

text \<open>
  What \<open>Initialize\<close> meets: the environment variable, the chain, whether the wrapped VM starts,
  the store opened on its database, whether \<open>eth\<close> is found, the chain's current block and
  whether the port is free.
\<close>

record 's init_env =
  allowedChainID :: string
  ChainID :: string
  inner_init :: "error option"
  opened_store :: "'s result"
  eth_found :: bool
  CurrentBlock :: "u64 option"
  listen :: "string result"

definition gap_error :: "u64 \<Rightarrow> error" where
  "gap_error gap = Fail (''indexer gap of '' @ dec (unat gap) @ '' blocks detected'')"

definition Initialize :: "'s Storage \<Rightarrow> 's init_env \<Rightarrow> error + 's vm" where
  "Initialize S env =
     (if allowedChainID env = [] then Inl errChainIDRequired
      else if ChainID env \<noteq> allowedChainID env then Inl errChainNotAllowed
      else (case inner_init env of
              Some err \<Rightarrow> Inl err
            | None \<Rightarrow>
                (case opened_store env of
                   Inl err \<Rightarrow> Inl (Wrap ''failed to get versiondb'' err)
                 | Inr s \<Rightarrow>
                     if \<not> eth_found env then Inl (Fail ''failed to get eth.Ethereum via reflection'')
                     else let lastAccepted = (case CurrentBlock env of None \<Rightarrow> 0 | Some n \<Rightarrow> n);
                              lastIndexed = restored_height S s
                       in if lastIndexed > 0 \<and> lastAccepted > lastIndexed
                          then Inl (gap_error (lastAccepted - lastIndexed))
                          else let server = (if lastIndexed > 0 then UpdateLatestBlock [] 0 lastIndexed else 0)
                            in (case listen env of
                                  Inl err \<Rightarrow> Inl (Wrap ''firehose server failed'' err)
                                | Inr addr \<Rightarrow>
                                    Inr \<lparr>vm_store = s, vm_server = Some server,
                                      lastAcceptedHeight = lastAccepted, lastIndexedHeight = lastIndexed\<rparr>))))"

subsection \<open>The shared versioned database\<close>

text \<open>
  avalanchego's versioned database keeps writes in memory until the wrapped block's \<open>Accept\<close>
  commits them; a failing \<open>Accept\<close> aborts, which drops every write since the last commit, the
  indexer's and the compactor's included; a restart starts from what is durable.  \<open>tip\<close> is the
  last height that was accepted.
\<close>

record 'db versioned =
  ver_accept :: "u64 \<Rightarrow> 'db \<Rightarrow> error option \<times> 'db"
  ver_reopen :: "'db \<Rightarrow> 'db"

definition inner_accept :: "'db versioned \<Rightarrow> u64 \<Rightarrow> 'db vdbs \<Rightarrow> error option \<times> 'db vdbs" where
  "inner_accept ver height s = (case ver_accept ver height (vdb s) of (r, db) \<Rightarrow> (r, s\<lparr>vdb := db\<rparr>))"

locale versioned_laws = healthy_avadb av content deletes
  for av :: "('db, 'batch) avadb" and content :: "'db \<Rightarrow> (bytes \<rightharpoonup> bytes)"
    and deletes :: "'batch \<Rightarrow> bytes list" +
  fixes ver :: "'db versioned"
    and durable :: "'db \<Rightarrow> (bytes \<rightharpoonup> bytes)"
    and tip :: "'db \<Rightarrow> u64"
  assumes put_pending: "av_put av db k v = (r, db') \<Longrightarrow> durable db' = durable db \<and> tip db' = tip db"
    and write_pending: "av_batch_write av db b = (r, db') \<Longrightarrow> durable db' = durable db \<and> tip db' = tip db"
    and accept_commits: "ver_accept ver h db = (None, db') \<Longrightarrow>
      content db' = content db \<and> durable db' = content db \<and> tip db' = h"
    and accept_aborts: "ver_accept ver h db = (Some e, db') \<Longrightarrow>
      content db' = durable db \<and> durable db' = durable db \<and> tip db' = tip db"
    and reopen_law: "content (ver_reopen ver db) = durable db \<and> durable (ver_reopen ver db) = durable db \<and>
      tip (ver_reopen ver db) = tip db"

text \<open>The in-memory instance: what is visible, what is durable, the accepted height.\<close>

type_synonym memver = "memdb \<times> memdb \<times> u64"

definition memver_avadb :: "(memver, bytes list) avadb" where
  "memver_avadb = \<lparr>av_get = (\<lambda>(m, d, t) k. av_get mem_avadb m k),
     av_put = (\<lambda>(m, d, t) k v. case mem_set m k v of (r, m') \<Rightarrow> (r, (m', d, t))),
     av_iter = (\<lambda>(m, d, t) p. av_iter mem_avadb m p), av_new_batch = (\<lambda>_. []),
     av_batch_delete = (\<lambda>b k. (None, b @ [k])),
     av_batch_write = (\<lambda>(m, d, t) b. case mem_delete_keys m b of (r, m') \<Rightarrow> (r, (m', d, t)))\<rparr>"

text \<open>Acceptance fails for the heights in a given list.\<close>

definition mem_versioned :: "u64 list \<Rightarrow> memver versioned" where
  "mem_versioned failing = \<lparr>ver_accept = (\<lambda>h (m, d, t).
       if h \<in> set failing then (Some (Fail ''accept failed''), (d, d, t)) else (None, (m, m, h))),
     ver_reopen = (\<lambda>(m, d, t). (d, d, t))\<rparr>"

interpretation memver: versioned_laws memver_avadb "\<lambda>x. map_of (fst x)" "\<lambda>b. b" "mem_versioned failing"
  "\<lambda>x. map_of (fst (snd x))" "\<lambda>x. snd (snd x)" for failing
proof (unfold_locales, goal_cases)
  case (3 db p)
  then show ?case by (simp add: memver_avadb_def mem_avadb_def sorted_mem_keys split: prod.split)
qed (auto simp: memver_avadb_def mem_versioned_def mem_defs map_of_filters delete_keys_def fun_eq_iff
    dest!: sym [of _ "map_of _ _"] split: option.splits prod.splits if_splits)

subsection \<open>The indexer is never behind the chain\<close>

text \<open>
  The node accepts blocks in order of height, retries a height whose acceptance failed, and may
  be restarted at any time.  (The compactor is looked at in the next section.)
\<close>

inductive vm_step ::
  "('db, 'batch) avadb \<Rightarrow> 'db versioned \<Rightarrow> ('db \<Rightarrow> u64) \<Rightarrow> ('blk, 'rc, 'tr) chain_api \<Rightarrow>
    'db vdbs vm \<Rightarrow> 'db vdbs vm \<Rightarrow> bool"
  for av :: "('db, 'batch) avadb" and ver :: "'db versioned" and tip :: "'db \<Rightarrow> u64"
    and api :: "('blk, 'rc, 'tr) chain_api" where
  accept: "unat (tip (vdb (vm_store vm))) < 18446744073709551615 \<Longrightarrow>
    height = tip (vdb (vm_store vm)) + 1 \<Longrightarrow>
    Accept (inner_accept ver) (VersionDBStorage av) api height vm = (r, vm') \<Longrightarrow>
    vm_step av ver tip api vm vm'"
| restart: "opened_store env = Inr (NewVersionDBStorage av (ver_reopen ver (vdb (vm_store vm)))) \<Longrightarrow>
    CurrentBlock env = Some (tip (vdb (vm_store vm))) \<Longrightarrow>
    Initialize (VersionDBStorage av) env = Inr vm' \<Longrightarrow> vm_step av ver tip api vm vm'"

text \<open>\<open>indexed_upto chain t\<close>: the blocks \<open>1, \<dots>, t\<close> and nothing else.\<close>

definition indexed_upto :: "(u64 \<Rightarrow> bytes) \<Rightarrow> u64 \<Rightarrow> absstore" where
  "indexed_upto chain t =
     \<lparr>blocks = (\<lambda>n. if 1 \<le> n \<and> n \<le> t then Some (chain n) else None), batches = Map.empty, meta = 0\<rparr>"

lemma unat_Suc_u64: "unat (t :: u64) < 18446744073709551615 \<Longrightarrow> unat (t + 1) = unat t + 1"
  using unat_add_u64 [of t 1] by simp

lemma indexed_upto_Suc:
  assumes "unat t < 18446744073709551615"
  shows "put_block (t + 1) (chain (t + 1)) (indexed_upto chain t) = indexed_upto chain (t + 1)"
    "put_block (t + 1) (chain (t + 1)) (indexed_upto chain (t + 1)) = indexed_upto chain (t + 1)"
proof -
  have u: "unat (t + 1) = unat t + 1" by (rule unat_Suc_u64 [OF assms])
  then have "1 \<le> n \<and> n \<le> t + 1 \<longleftrightarrow> n = t + 1 \<or> (1 \<le> n \<and> n \<le> t)" for n
    by (auto simp: u64_simps u64_eq_iff)
  then show "put_block (t + 1) (chain (t + 1)) (indexed_upto chain t) = indexed_upto chain (t + 1)"
    by (auto simp: put_block_def indexed_upto_def fun_eq_iff)
  have "1 \<le> t + 1" using u by (simp add: u64_le_iff)
  then show "put_block (t + 1) (chain (t + 1)) (indexed_upto chain (t + 1)) = indexed_upto chain (t + 1)"
    by (auto simp: put_block_def indexed_upto_def fun_eq_iff)
qed

text \<open>What the indexer computes for a height is the line of the chain.\<close>

definition api_faithful :: "('blk, 'rc, 'tr) chain_api \<Rightarrow> (u64 \<Rightarrow> bytes) \<Rightarrow> bool" where
  "api_faithful api chain \<longleftrightarrow> (\<forall>h d. normalized_data api h = Inr d \<longrightarrow> d = chain h)"

definition vm_ok ::
  "('db \<Rightarrow> (bytes \<rightharpoonup> bytes)) \<Rightarrow> ('db \<Rightarrow> (bytes \<rightharpoonup> bytes)) \<Rightarrow> ('db \<Rightarrow> u64) \<Rightarrow> (u64 \<Rightarrow> bytes) \<Rightarrow> 'db vdbs vm \<Rightarrow> bool"
where
  "vm_ok content durable tip chain vm \<longleftrightarrow>
     (let db = vdb (vm_store vm); t = tip db in
      well_keyed (content db) \<and> well_keyed (durable db) \<and>
      kv_abs (durable db) = indexed_upto chain t \<and>
      (kv_abs (content db) = indexed_upto chain t \<or>
       (unat t < 18446744073709551615 \<and> kv_abs (content db) = indexed_upto chain (t + 1))) \<and>
      lastIndexedHeight vm = t)"

context versioned_laws
begin

lemma SaveBlock_pending:
  assumes "VersionDB_SaveBlock av s n d = (r, s')"
  shows "durable (vdb s') = durable (vdb s)" "tip (vdb s') = tip (vdb s)"
    "r = None \<Longrightarrow> content (vdb s') = (content (vdb s))(blockKey n \<mapsto> d)"
    "content (vdb s') = content (vdb s) \<or> content (vdb s') = (content (vdb s))(blockKey n \<mapsto> d)"
proof -
  obtain w db' where w: "av_put av (vdb s) (blockKey n) d = (w, db')" by fastforce
  then have "vdb s' = db'" "r = w"
    using assms by (auto simp: VersionDB_SaveBlock_def split: option.splits)
  with put_pending [OF w] put_law [OF w] show "durable (vdb s') = durable (vdb s)" "tip (vdb s') = tip (vdb s)"
    "r = None \<Longrightarrow> content (vdb s') = (content (vdb s))(blockKey n \<mapsto> d)"
    "content (vdb s') = content (vdb s) \<or> content (vdb s') = (content (vdb s))(blockKey n \<mapsto> d)"
    by (auto simp: write_outcome_def)
qed

text \<open>Indexing the next block changes the pending data only, and puts the block there if it succeeds.\<close>

lemma indexBlock_pending:
  assumes "well_keyed (content (vdb s))" "unat t < 18446744073709551615" "api_faithful api chain"
    and "kv_abs (content (vdb s)) = indexed_upto chain t \<or> kv_abs (content (vdb s)) = indexed_upto chain (t + 1)"
    and ib: "indexBlock (VersionDBStorage av) api (t + 1) (s, server) = (e, s1, srv)"
  shows "durable (vdb s1) = durable (vdb s)" "tip (vdb s1) = tip (vdb s)" "well_keyed (content (vdb s1))"
    "kv_abs (content (vdb s1)) = indexed_upto chain t \<or> kv_abs (content (vdb s1)) = indexed_upto chain (t + 1)"
    "e = None \<Longrightarrow> kv_abs (content (vdb s1)) = indexed_upto chain (t + 1)"
proof -
  have "durable (vdb s1) = durable (vdb s) \<and> tip (vdb s1) = tip (vdb s) \<and> well_keyed (content (vdb s1)) \<and>
      (kv_abs (content (vdb s1)) = indexed_upto chain t \<or> kv_abs (content (vdb s1)) = indexed_upto chain (t + 1)) \<and>
      (e = None \<longrightarrow> kv_abs (content (vdb s1)) = indexed_upto chain (t + 1))"
  proof (cases "normalized_data api (t + 1)")
    case (Inl err)
    then show ?thesis using assms by (auto simp: indexBlock_def)
  next
    case (Inr d)
    then have d: "d = chain (t + 1)" using assms(3) by (simp add: api_faithful_def)
    obtain w s' where w: "VersionDB_SaveBlock av s (t + 1) d = (w, s')" by fastforce
    then have "s1 = s'" "e = None \<longleftrightarrow> w = None" using ib Inr by (auto simp: indexBlock_def split: option.splits)
    then show ?thesis
      using SaveBlock_pending [OF w] assms(1,4) indexed_upto_Suc [OF assms(2)] d by (auto simp: kv_abs_block)
  qed
  then show "durable (vdb s1) = durable (vdb s)" "tip (vdb s1) = tip (vdb s)" "well_keyed (content (vdb s1))"
    "kv_abs (content (vdb s1)) = indexed_upto chain t \<or> kv_abs (content (vdb s1)) = indexed_upto chain (t + 1)"
    "e = None \<Longrightarrow> kv_abs (content (vdb s1)) = indexed_upto chain (t + 1)" by blast+
qed

lemma accept_step_ok:
  assumes ok: "vm_ok content durable tip chain vm" and api: "api_faithful api chain"
    and h: "unat (tip (vdb (vm_store vm))) < 18446744073709551615" "height = tip (vdb (vm_store vm)) + 1"
    and step: "Accept (inner_accept ver) (VersionDBStorage av) api height vm = (r, vm')"
  shows "vm_ok content durable tip chain vm'"
    "r = None \<Longrightarrow> tip (vdb (vm_store vm')) = height \<and> lastAcceptedHeight vm' = height"
    "r \<noteq> None \<Longrightarrow> tip (vdb (vm_store vm')) = tip (vdb (vm_store vm))"
proof -
  let ?s = "vm_store vm" and ?t = "tip (vdb (vm_store vm))"
  have ok': "well_keyed (content (vdb ?s))" "well_keyed (durable (vdb ?s))"
    "kv_abs (durable (vdb ?s)) = indexed_upto chain ?t"
    "kv_abs (content (vdb ?s)) = indexed_upto chain ?t \<or> kv_abs (content (vdb ?s)) = indexed_upto chain (?t + 1)"
    "lastIndexedHeight vm = ?t"
    using ok by (auto simp: vm_ok_def Let_def)
  have "\<not> height \<le> ?t" using unat_Suc_u64 [OF h(1)] h(2) by (simp add: u64_le_iff)
  then have fresh: "\<not> height \<le> lastIndexedHeight vm" by (simp add: ok'(5))
  obtain e s1 srv where ib: "indexBlock (VersionDBStorage av) api height (?s, vm_server vm) = (e, s1, srv)"
    by (metis prod.exhaust)
  note s1 = indexBlock_pending [OF ok'(1) h(1) api ok'(4) ib [unfolded h(2)]]
  have "vm_ok content durable tip chain vm' \<and>
      (r = None \<longrightarrow> tip (vdb (vm_store vm')) = height \<and> lastAcceptedHeight vm' = height) \<and>
      (r \<noteq> None \<longrightarrow> tip (vdb (vm_store vm')) = ?t)"
  proof (cases e)
    case (Some err)
    then have "vm' = vm\<lparr>vm_store := s1, vm_server := srv\<rparr>" "r \<noteq> None"
      using step fresh ib by (auto simp: Accept_def)
    then show ?thesis using s1 ok' h(1) by (auto simp: vm_ok_def Let_def)
  next
    case None
    obtain w db' where w: "ver_accept ver height (vdb s1) = (w, db')" by fastforce
    show ?thesis
    proof (cases w)
      case (Some err)
      have "vm' = vm\<lparr>vm_store := s1\<lparr>vdb := db'\<rparr>, vm_server := srv\<rparr>" "r = Some err"
        using step fresh ib None w Some by (auto simp: Accept_def inner_accept_def)
      then show ?thesis using accept_aborts [OF w [unfolded Some]] s1 ok' by (simp add: vm_ok_def Let_def)
    next
      case w_none: None
      have "vm' = vm\<lparr>vm_store := s1\<lparr>vdb := db'\<rparr>, vm_server := srv, lastIndexedHeight := height,
          lastAcceptedHeight := height\<rparr>" "r = None"
        using step fresh ib None w w_none by (auto simp: Accept_def inner_accept_def)
      then show ?thesis using accept_commits [OF w [unfolded w_none]] s1 None h(2)
        by (simp add: vm_ok_def Let_def)
    qed
  qed
  then show "vm_ok content durable tip chain vm'"
    "r = None \<Longrightarrow> tip (vdb (vm_store vm')) = height \<and> lastAcceptedHeight vm' = height"
    "r \<noteq> None \<Longrightarrow> tip (vdb (vm_store vm')) = tip (vdb (vm_store vm))" by simp_all
qed

text \<open>A restart finds exactly the accepted height, so the gap check lets it pass.\<close>

lemma restored_height_exact:
  assumes "well_keyed (content db)" "kv_abs (content db) = indexed_upto chain t"
  shows "restored_height (VersionDBStorage av) (NewVersionDBStorage av db) = t"
proof -
  let ?s = "NewVersionDBStorage av db"
  have vdb: "vdb ?s = db" by (simp add: NewVersionDBStorage_def)
  have meta: "VersionDB_GetMeta av ?s = 0"
    using store.GetMeta_complete [of ?s] assms by (simp add: vdb indexed_upto_def)
  have cache: "cache_right content ?s" by (rule new_cache_right [OF assms(1)])
  have D: "dom (blocks (kv_abs (content (vdb ?s)))) = {n. 1 \<le> n \<and> n \<le> t}"
    by (auto simp: vdb assms(2) indexed_upto_def split: if_splits)
  show ?thesis
  proof (cases "t = 0")
    case True
    then have "{n. 1 \<le> n \<and> n \<le> t} = {}" by auto
    then have "latest_cache ?s = 0" using cache D by (auto simp: cache_right_def)
    then show ?thesis using True meta by (simp add: restored_height_def VersionDB_LatestBlock_def)
  next
    case False
    then have "1 \<le> t" by (simp add: u64_le_iff u64_eq_iff)
    then have "t \<in> {n. 1 \<le> n \<and> n \<le> t}" by simp
    then have "latest_cache ?s = t" using cache D unfolding cache_right_def
      by (metis (no_types, lifting) antisym empty_iff mem_Collect_eq)
    then show ?thesis using False meta by (simp add: restored_height_def VersionDB_LatestBlock_def word_gt_0)
  qed
qed

lemma restart_ok:
  assumes ok: "vm_ok content durable tip chain vm"
    and env: "opened_store env = Inr (NewVersionDBStorage av (ver_reopen ver (vdb (vm_store vm))))"
      "CurrentBlock env = Some (tip (vdb (vm_store vm)))"
  shows "Initialize (VersionDBStorage av) env = Inr vm' \<Longrightarrow> vm_ok content durable tip chain vm'"
    "allowedChainID env = ChainID env \<Longrightarrow> ChainID env \<noteq> [] \<Longrightarrow> inner_init env = None \<Longrightarrow> eth_found env \<Longrightarrow>
      listen env = Inr addr \<Longrightarrow> \<exists>vm'. Initialize (VersionDBStorage av) env = Inr vm'"
proof -
  let ?db = "ver_reopen ver (vdb (vm_store vm))" and ?t = "tip (vdb (vm_store vm))"
  have r: "content ?db = durable (vdb (vm_store vm))" "durable ?db = durable (vdb (vm_store vm))" "tip ?db = ?t"
    using reopen_law by auto
  have d: "well_keyed (content ?db)" "kv_abs (content ?db) = indexed_upto chain ?t"
    using ok by (auto simp: vm_ok_def Let_def r)
  note rh = restored_height_exact [OF d]
  show "Initialize (VersionDBStorage av) env = Inr vm' \<Longrightarrow> vm_ok content durable tip chain vm'"
    using d r rh env by (auto simp: Initialize_def vm_ok_def Let_def NewVersionDBStorage_def
        split: if_splits option.splits sum.splits)
  show "allowedChainID env = ChainID env \<Longrightarrow> ChainID env \<noteq> [] \<Longrightarrow> inner_init env = None \<Longrightarrow> eth_found env \<Longrightarrow>
      listen env = Inr addr \<Longrightarrow> \<exists>vm'. Initialize (VersionDBStorage av) env = Inr vm'"
    using rh env by (simp add: Initialize_def Let_def)
qed

lemma vm_step_ok:
  "vm_step av ver tip api vm vm' \<Longrightarrow> api_faithful api chain \<Longrightarrow> vm_ok content durable tip chain vm \<Longrightarrow>
    vm_ok content durable tip chain vm'"
  by (induction rule: vm_step.induct) (auto intro: accept_step_ok(1) restart_ok(1))

end

end
