(* ===== verification/Marshal.thy ===== *)
theory Marshal
  imports Delivery IndexVM "HOL-Library.Multiset"
begin

section \<open>The plugin's blocks in RPC form\<close>

text \<open>
  \<open>indexing-subnet-evm/marshal.go\<close> and the normalized block of \<open>indexer.go\<close>.  The types of
  libevm are third-party code: headers, transactions and receipts are records of what their
  fields and methods give, hashes and addresses are their bytes, and the text form of numbers and
  bytes is the record \<open>hexutil\<close> with its documented laws.
\<close>

subsection \<open>What comes from libevm\<close>

record hexutil =
  hx_Big :: "int \<Rightarrow> string"
  hx_Uint64 :: "u64 \<Rightarrow> string"
  hx_Bytes :: "bytes \<Rightarrow> string"

text \<open>\<open>big.Int\<close> pointers that may be nil, and what \<open>GetHeaderExtra\<close> adds, are options.\<close>

record Header =
  hd_Number :: int
  hd_Hash :: bytes
  hd_ParentHash :: bytes
  hd_Nonce :: bytes
  hd_MixDigest :: bytes
  hd_UncleHash :: bytes
  hd_Bloom :: bytes
  hd_Root :: bytes
  hd_Coinbase :: bytes
  hd_Difficulty :: int
  hd_Extra :: bytes
  hd_GasLimit :: u64
  hd_GasUsed :: u64
  hd_Time :: u64
  hd_TxHash :: bytes
  hd_ReceiptHash :: bytes
  hd_BaseFee :: "int option"
  hd_BlockGasCost :: "int option"
  hd_BlobGasUsed :: "u64 option"
  hd_ExcessBlobGas :: "u64 option"
  hd_WithdrawalsHash :: "bytes option"
  hd_ParentBeaconRoot :: "bytes option"

record EthTx =
  et_Type :: nat
  et_Gas :: u64
  et_GasPrice :: int
  et_GasTipCap :: int
  et_GasFeeCap :: int
  et_Hash :: bytes
  et_Data :: bytes
  et_Nonce :: u64
  et_To :: "bytes option"
  et_Value :: int
  et_V :: int
  et_R :: int
  et_S :: int
  et_AccessList :: json
  et_ChainId :: int
  et_BlobHashes :: "bytes list option"
  et_json :: json

record EthBlock =
  eb_Header :: Header
  eb_Size :: u64
  eb_Transactions :: "EthTx list"
  eb_Uncles :: "bytes list"

record EthReceipt =
  er_GasUsed :: u64
  er_CumulativeGasUsed :: u64
  er_ContractAddress :: bytes
  er_Logs :: json
  er_Bloom :: bytes
  er_Type :: u64
  er_Status :: u64
  er_EffectiveGasPrice :: "int option"

definition LegacyTxType :: nat where "LegacyTxType = 0"
definition AccessListTxType :: nat where "AccessListTxType = 1"
definition DynamicFeeTxType :: nat where "DynamicFeeTxType = 2"
definition BlobTxType :: nat where "BlobTxType = 3"

definition zero_bytes :: "nat \<Rightarrow> bytes" where "zero_bytes n = replicate n (CHR 0x00)"

text \<open>
  \<open>types.Sender(types.MakeSigner(config, number, time), tx)\<close>, the error ignored: the parameter
  \<open>sender number time tx\<close>.
\<close>

type_synonym sender = "u64 \<Rightarrow> u64 \<Rightarrow> EthTx \<Rightarrow> bytes"

subsection \<open>Maps as JSON\<close>

text \<open>A \<open>map[string]interface{}\<close> is the list of its entries; \<open>json.Marshal\<close> writes them by key.\<close>

definition enc_map :: "(string \<times> json) list \<Rightarrow> json" where
  "enc_map entries = JObj (sort_key fst entries)"

definition entry_if :: "string \<Rightarrow> ('a \<Rightarrow> json) \<Rightarrow> 'a option \<Rightarrow> (string \<times> json) list" where
  "entry_if k enc v = (case v of None \<Rightarrow> [] | Some x \<Rightarrow> [(k, enc x)])"

subsection \<open>Headers\<close>

definition RPCMarshalHeader :: "hexutil \<Rightarrow> Header \<Rightarrow> (string \<times> json) list" where
  "RPCMarshalHeader hx head =
     [(''number'', JStr (hx_Big hx (hd_Number head))),
      (''hash'', JStr (hx_Bytes hx (hd_Hash head))),
      (''parentHash'', JStr (hx_Bytes hx (hd_ParentHash head))),
      (''nonce'', JStr (hx_Bytes hx (hd_Nonce head))),
      (''mixHash'', JStr (hx_Bytes hx (hd_MixDigest head))),
      (''sha3Uncles'', JStr (hx_Bytes hx (hd_UncleHash head))),
      (''logsBloom'', JStr (hx_Bytes hx (hd_Bloom head))),
      (''stateRoot'', JStr (hx_Bytes hx (hd_Root head))),
      (''miner'', JStr (hx_Bytes hx (hd_Coinbase head))),
      (''difficulty'', JStr (hx_Big hx (hd_Difficulty head))),
      (''extraData'', JStr (hx_Bytes hx (hd_Extra head))),
      (''gasLimit'', JStr (hx_Uint64 hx (hd_GasLimit head))),
      (''gasUsed'', JStr (hx_Uint64 hx (hd_GasUsed head))),
      (''timestamp'', JStr (hx_Uint64 hx (hd_Time head))),
      (''transactionsRoot'', JStr (hx_Bytes hx (hd_TxHash head))),
      (''receiptsRoot'', JStr (hx_Bytes hx (hd_ReceiptHash head)))] @
     entry_if ''baseFeePerGas'' (\<lambda>fee. JStr (hx_Big hx fee)) (hd_BaseFee head) @
     entry_if ''blockGasCost'' (\<lambda>cost. JStr (hx_Big hx cost)) (hd_BlockGasCost head) @
     entry_if ''blobGasUsed'' (\<lambda>gas. JStr (hx_Uint64 hx gas)) (hd_BlobGasUsed head) @
     entry_if ''excessBlobGas'' (\<lambda>gas. JStr (hx_Uint64 hx gas)) (hd_ExcessBlobGas head) @
     entry_if ''withdrawalsRoot'' (\<lambda>h. JStr (hx_Bytes hx h)) (hd_WithdrawalsHash head) @
     entry_if ''parentBeaconBlockRoot'' (\<lambda>h. JStr (hx_Bytes hx h)) (hd_ParentBeaconRoot head)"

subsection \<open>Transactions\<close>

definition effectiveGasPrice :: "EthTx \<Rightarrow> int option \<Rightarrow> int" where
  "effectiveGasPrice tx baseFee =
     (case baseFee of
        None \<Rightarrow> et_GasPrice tx
      | Some fee \<Rightarrow>
          let tip = et_GasTipCap tx;
              effectiveTip = et_GasFeeCap tx - fee;
              effectiveTip = (if effectiveTip > tip then tip else effectiveTip)
          in fee + effectiveTip)"

record RPCTransaction =
  rt_BlockHash :: "bytes option"
  rt_BlockNumber :: "u64 option"
  rt_From :: bytes
  rt_Gas :: u64
  rt_GasPrice :: int
  rt_GasFeeCap :: "int option"
  rt_GasTipCap :: "int option"
  rt_Hash :: bytes
  rt_Input :: bytes
  rt_Nonce :: u64
  rt_To :: "bytes option"
  rt_TransactionIndex :: "u64 option"
  rt_Value :: int
  rt_Type :: nat
  rt_Accesses :: "json option"
  rt_ChainID :: "int option"
  rt_V :: int
  rt_R :: int
  rt_S :: int
  rt_YParity :: "u64 option"
  rt_BlobVersionedHashes :: "bytes list option"

text \<open>\<open>v.Sign()\<close> converted to \<open>uint64\<close>.\<close>

definition yparity :: "EthTx \<Rightarrow> u64" where
  "yparity tx = of_int (sgn (et_V tx))"

definition newRPCTransaction ::
  "sender \<Rightarrow> EthTx \<Rightarrow> bytes \<Rightarrow> u64 \<Rightarrow> u64 \<Rightarrow> u64 \<Rightarrow> int option \<Rightarrow> RPCTransaction" where
  "newRPCTransaction sender tx blockHash blockNumber blockTime index baseFee =
     (let result =
        \<lparr>rt_BlockHash = None, rt_BlockNumber = None, rt_From = sender blockNumber blockTime tx,
         rt_Gas = et_Gas tx, rt_GasPrice = et_GasPrice tx, rt_GasFeeCap = None, rt_GasTipCap = None,
         rt_Hash = et_Hash tx, rt_Input = et_Data tx, rt_Nonce = et_Nonce tx, rt_To = et_To tx,
         rt_TransactionIndex = None, rt_Value = et_Value tx, rt_Type = et_Type tx, rt_Accesses = None,
         rt_ChainID = None, rt_V = et_V tx, rt_R = et_R tx, rt_S = et_S tx, rt_YParity = None,
         rt_BlobVersionedHashes = None\<rparr>;
          result = (if blockHash \<noteq> zero_bytes 32
            then result\<lparr>rt_BlockHash := Some blockHash, rt_BlockNumber := Some blockNumber,
                        rt_TransactionIndex := Some index\<rparr>
            else result);
          typed = result\<lparr>rt_Accesses := Some (et_AccessList tx), rt_ChainID := Some (et_ChainId tx),
                         rt_YParity := Some (yparity tx)\<rparr>;
          fees = typed\<lparr>rt_GasFeeCap := Some (et_GasFeeCap tx), rt_GasTipCap := Some (et_GasTipCap tx),
                       rt_GasPrice := effectiveGasPrice tx baseFee\<rparr>
      in if et_Type tx = LegacyTxType then result
         else if et_Type tx = AccessListTxType then typed
         else if et_Type tx = DynamicFeeTxType then fees
         else if et_Type tx = BlobTxType then fees\<lparr>rt_BlobVersionedHashes := et_BlobHashes tx\<rparr>
         else result)"

text \<open>The JSON tags of \<open>RPCTransaction\<close>; a nil \<open>*hexutil.Big\<close> without \<open>omitempty\<close> would be \<open>null\<close>.\<close>

definition enc_RPCTransaction :: "hexutil \<Rightarrow> RPCTransaction \<Rightarrow> json" where
  "enc_RPCTransaction hx t = JObj
    ((''blockHash'', enc_ptr JStr (map_option (hx_Bytes hx) (rt_BlockHash t))) #
     (''blockNumber'', enc_ptr JStr (map_option (\<lambda>n. hx_Big hx (uint n)) (rt_BlockNumber t))) #
     (''from'', JStr (hx_Bytes hx (rt_From t))) #
     (''gas'', JStr (hx_Uint64 hx (rt_Gas t))) #
     (''gasPrice'', JStr (hx_Big hx (rt_GasPrice t))) #
     entry_if ''maxFeePerGas'' (\<lambda>fee. JStr (hx_Big hx fee)) (rt_GasFeeCap t) @
     entry_if ''maxPriorityFeePerGas'' (\<lambda>fee. JStr (hx_Big hx fee)) (rt_GasTipCap t) @
     (''hash'', JStr (hx_Bytes hx (rt_Hash t))) #
     (''input'', JStr (hx_Bytes hx (rt_Input t))) #
     (''nonce'', JStr (hx_Uint64 hx (rt_Nonce t))) #
     (''to'', enc_ptr JStr (map_option (hx_Bytes hx) (rt_To t))) #
     (''transactionIndex'', enc_ptr JStr (map_option (hx_Uint64 hx) (rt_TransactionIndex t))) #
     (''value'', JStr (hx_Big hx (rt_Value t))) #
     (''type'', JStr (hx_Uint64 hx (of_nat (rt_Type t)))) #
     entry_if ''accessList'' (\<lambda>j. j) (rt_Accesses t) @
     entry_if ''chainId'' (\<lambda>n. JStr (hx_Big hx n)) (rt_ChainID t) @
     (''v'', JStr (hx_Big hx (rt_V t))) #
     (''r'', JStr (hx_Big hx (rt_R t))) #
     (''s'', JStr (hx_Big hx (rt_S t))) #
     entry_if ''yParity'' (\<lambda>n. JStr (hx_Uint64 hx n)) (rt_YParity t) @
     entry_if ''blobVersionedHashes'' (\<lambda>hs. JArr (map (\<lambda>h. JStr (hx_Bytes hx h)) hs))
       (case rt_BlobVersionedHashes t of Some [] \<Rightarrow> None | hs \<Rightarrow> hs) @
     [])"

definition block_hash :: "EthBlock \<Rightarrow> bytes" where "block_hash b = hd_Hash (eb_Header b)"

text \<open>\<open>NumberU64\<close>: the number of a block fits \<open>uint64\<close>.\<close>

definition block_number_u64 :: "EthBlock \<Rightarrow> u64" where "block_number_u64 b = of_int (hd_Number (eb_Header b))"

definition newRPCTransactionFromBlockIndex :: "sender \<Rightarrow> EthBlock \<Rightarrow> u64 \<Rightarrow> RPCTransaction option" where
  "newRPCTransactionFromBlockIndex sender b index =
     (let txs = eb_Transactions b in
      if index \<ge> of_nat (length txs) then None
      else Some (newRPCTransaction sender (txs ! unat index) (block_hash b) (block_number_u64 b)
             (hd_Time (eb_Header b)) index (hd_BaseFee (eb_Header b))))"

subsection \<open>Blocks\<close>

definition RPCMarshalBlock :: "hexutil \<Rightarrow> sender \<Rightarrow> EthBlock \<Rightarrow> bool \<Rightarrow> bool \<Rightarrow> (string \<times> json) list" where
  "RPCMarshalBlock hx sender block inclTx fullTx =
     RPCMarshalHeader hx (eb_Header block) @
     [(''size'', JStr (hx_Uint64 hx (eb_Size block)))] @
     (if inclTx then
        [(''transactions'',
          JArr (if fullTx then
                  map (\<lambda>i. enc_ptr (enc_RPCTransaction hx) (newRPCTransactionFromBlockIndex sender block (of_nat i)))
                    [0..<length (eb_Transactions block)]
                else map et_json (eb_Transactions block)))]
      else []) @
     [(''uncles'', JArr (map (\<lambda>h. JStr (hx_Bytes hx h)) (eb_Uncles block)))]"

subsection \<open>Receipts\<close>

definition getFrom :: "sender \<Rightarrow> EthTx \<Rightarrow> u64 \<Rightarrow> bytes" where
  "getFrom sender tx blockNumber = sender blockNumber 0 tx"

definition marshalReceipt :: "hexutil \<Rightarrow> sender \<Rightarrow> EthReceipt \<Rightarrow> bytes \<Rightarrow> u64 \<Rightarrow> u64 \<Rightarrow> EthTx \<Rightarrow> (string \<times> json) list" where
  "marshalReceipt hx sender receipt blockHash blockNumber index tx =
     [(''blockHash'', JStr (hx_Bytes hx blockHash)),
      (''blockNumber'', JStr (hx_Uint64 hx blockNumber)),
      (''transactionHash'', JStr (hx_Bytes hx (et_Hash tx))),
      (''transactionIndex'', JStr (hx_Uint64 hx index)),
      (''from'', JStr (hx_Bytes hx (getFrom sender tx blockNumber))),
      (''to'', enc_ptr JStr (map_option (hx_Bytes hx) (et_To tx))),
      (''gasUsed'', JStr (hx_Uint64 hx (er_GasUsed receipt))),
      (''cumulativeGasUsed'', JStr (hx_Uint64 hx (er_CumulativeGasUsed receipt))),
      (''contractAddress'',
       if er_ContractAddress receipt \<noteq> zero_bytes 20 then JStr (hx_Bytes hx (er_ContractAddress receipt)) else JNull),
      (''logs'', er_Logs receipt),
      (''logsBloom'', JStr (hx_Bytes hx (er_Bloom receipt))),
      (''type'', JStr (hx_Uint64 hx (er_Type receipt))),
      (''status'', JStr (hx_Uint64 hx (er_Status receipt)))] @
     entry_if ''effectiveGasPrice'' (\<lambda>price. JStr (hx_Uint64 hx (of_int price))) (er_EffectiveGasPrice receipt)"

text \<open>
  The block that \<open>indexBlock\<close> stores; \<open>None\<close> is the panic of \<open>block.Transactions()[i]\<close> for more
  receipts than transactions.
\<close>

definition normalized_block ::
  "hexutil \<Rightarrow> sender \<Rightarrow> EthBlock \<Rightarrow> EthReceipt list \<Rightarrow> json \<Rightarrow> json option" where
  "normalized_block hx sender block receipts tracesRPC =
     (if length receipts > length (eb_Transactions block) then None
      else Some (enc_map
        [(''block'', enc_map (RPCMarshalBlock hx sender block True True)),
         (''receipts'', JArr (map (\<lambda>(i, receipt). enc_map (marshalReceipt hx sender receipt (block_hash block)
            (block_number_u64 block) (of_nat i) (eb_Transactions block ! i))) (enumerate 0 receipts))),
         (''traces'', tracesRPC)]))"

subsection \<open>Maps in the order of their keys\<close>

lemma sorted_wrt_subseq:
  assumes "subseq xs ys" "sorted_wrt P ys"
  shows "sorted_wrt P xs"
  using assms
proof (induction rule: list_emb.induct)
  case (list_emb_Cons2 x y xs ys)
  have "set xs \<subseteq> set ys" using list_emb_Cons2.hyps(2) by (auto elim: list_emb_set)
  with list_emb_Cons2 show ?case by auto
qed simp_all

lemma keys_step:
  "subseq (map fst es) ks \<Longrightarrow> subseq (map fst ((k, j) # es)) (k # ks)"
  "subseq (map fst es) ks \<Longrightarrow> subseq (map fst (entry_if k enc v @ es)) (k # ks)"
  by (auto simp: entry_if_def split: option.split)

lemma enc_map_ordered:
  assumes "mset entries = mset es" "subseq (map fst es) ks" "sorted_wrt (<) ks"
  shows "enc_map entries = JObj es"
proof -
  have "sorted_wrt (<) (map fst es)" by (rule sorted_wrt_subseq [OF assms(2,3)])
  then have "sorted (map fst es)" "distinct (map fst es)" by (simp_all add: strict_sorted_iff)
  then have "sort_key fst entries = es"
    by (intro sort_key_inj_key_eq [OF assms(1)])
      (simp_all add: distinct_map mset_eq_setD [OF assms(1)])
  then show ?thesis by (simp add: enc_map_def)
qed

definition block_keys :: "string list" where
  "block_keys = [''baseFeePerGas'', ''blobGasUsed'', ''blockGasCost'', ''difficulty'', ''excessBlobGas'',
     ''extraData'', ''gasLimit'', ''gasUsed'', ''hash'', ''logsBloom'', ''miner'', ''mixHash'', ''nonce'',
     ''number'', ''parentBeaconBlockRoot'', ''parentHash'', ''receiptsRoot'', ''sha3Uncles'', ''size'',
     ''stateRoot'', ''timestamp'', ''transactions'', ''transactionsRoot'', ''uncles'', ''withdrawalsRoot'']"

definition receipt_keys :: "string list" where
  "receipt_keys = [''blockHash'', ''blockNumber'', ''contractAddress'', ''cumulativeGasUsed'',
     ''effectiveGasPrice'', ''from'', ''gasUsed'', ''logs'', ''logsBloom'', ''status'', ''to'',
     ''transactionHash'', ''transactionIndex'', ''type'']"

lemma keys_sorted: "sorted_wrt (<) block_keys" "sorted_wrt (<) receipt_keys"
  by code_simp+

subsection \<open>What the client makes of it\<close>

definition text_if :: "('a \<Rightarrow> string) \<Rightarrow> 'a option \<Rightarrow> string" where
  "text_if f v = (case v of None \<Rightarrow> '''' | Some x \<Rightarrow> f x)"

lemma dec_string_ptr: "dec_string strict (enc_ptr JStr (map_option f v)) '''' = Inr (text_if f v)"
  by (cases v) (simp_all add: enc_ptr_def text_if_def)

lemma read_text_if:
  assumes "map_of fs k = Some (fld dec_string get upd)" "get r = ''''"
  shows "dec_members fs strict ((k, enc_ptr JStr (map_option f v)) # kvs) r =
    dec_members fs strict kvs (upd (\<lambda>_. text_if f v) r)"
  by (rule dec_members_decoded [OF assms(1)]) (simp add: assms(2) dec_string_ptr)

lemma read_entry_if:
  assumes "map_of fs k = Some (fld dec_string get upd)" "upd (\<lambda>_. '''') r = r"
  shows "dec_members fs strict (entry_if k (\<lambda>x. JStr (f x)) v @ kvs) r =
    dec_members fs strict kvs (upd (\<lambda>_. text_if f v) r)"
  using assms(2)
  by (cases v) (simp_all add: entry_if_def text_if_def dec_members_string [OF assms(1)] del: dec_members.simps)

lemma read_entry_raw:
  assumes "map_of fs k = Some (fld dec_raw get upd)" "upd (\<lambda>_. None) r = r"
  shows "dec_members fs strict (entry_if k (\<lambda>j. j) v @ kvs) r = dec_members fs strict kvs (upd (\<lambda>_. v) r)"
  using assms(2) dec_members_put [OF assms(1)]
  by (cases v) (simp_all add: entry_if_def fld_def dec_raw_def del: dec_members.simps)

lemma read_unknown:
  assumes "find_key (map fst fs) k = None"
  shows "dec_members fs strict (entry_if k enc v @ kvs) r =
    (if strict \<and> v \<noteq> None then Inl unknown_field else dec_members fs strict kvs r)"
  by (cases v) (simp_all add: entry_if_def assms)

lemmas read_entry_last = read_entry_if [where kvs = "[]", unfolded append_Nil2 dec_members.simps(1)]

lemmas read_entries = read_text_if read_entry_if read_entry_raw read_entry_last

text \<open>A transaction, as the client of the library sees it.\<close>

definition client_transaction :: "hexutil \<Rightarrow> RPCTransaction \<Rightarrow> Transaction" where
  "client_transaction hx t = zero_Transaction
    \<lparr>tx_Hash := hx_Bytes hx (rt_Hash t), tx_Nonce := hx_Uint64 hx (rt_Nonce t),
     tx_BlockHash := text_if (hx_Bytes hx) (rt_BlockHash t),
     tx_BlockNumber := text_if (\<lambda>n. hx_Big hx (uint n)) (rt_BlockNumber t),
     tx_TransactionIndex := text_if (hx_Uint64 hx) (rt_TransactionIndex t),
     tx_From := hx_Bytes hx (rt_From t), tx_To := text_if (hx_Bytes hx) (rt_To t),
     tx_Value := hx_Big hx (rt_Value t), tx_Gas := hx_Uint64 hx (rt_Gas t),
     tx_GasPrice := hx_Big hx (rt_GasPrice t), tx_Input := hx_Bytes hx (rt_Input t),
     tx_V := hx_Big hx (rt_V t), tx_R := hx_Big hx (rt_R t), tx_S := hx_Big hx (rt_S t),
     tx_YParity := text_if (hx_Uint64 hx) (rt_YParity t),
     tx_Type := hx_Uint64 hx (of_nat (rt_Type t)), tx_ChainId := text_if (hx_Big hx) (rt_ChainID t),
     tx_MaxFeePerGas := text_if (hx_Big hx) (rt_GasFeeCap t),
     tx_MaxPriorityFeePerGas := text_if (hx_Big hx) (rt_GasTipCap t), tx_AccessList := rt_Accesses t\<rparr>"

definition has_blobs :: "RPCTransaction \<Rightarrow> bool" where
  "has_blobs t \<longleftrightarrow> elems (rt_BlobVersionedHashes t) \<noteq> []"

lemma unknown_keys:
  "find_key (map fst Transaction_fields) ''blobVersionedHashes'' = None"
  "find_key (map fst Block_fields) ''withdrawalsRoot'' = None"
  by code_simp+

lemma decode_transaction:
  "dec_Transaction strict (enc_RPCTransaction hx t) zero_Transaction =
    (if strict \<and> has_blobs t then Inl unknown_field else Inr (client_transaction hx t))"
proof -
  have blobs: "(case rt_BlobVersionedHashes t of Some [] \<Rightarrow> None | hs \<Rightarrow> hs) \<noteq> None \<longleftrightarrow> has_blobs t"
    by (auto simp: has_blobs_def elems_def split: option.split list.split)
  note unknown = read_unknown [of Transaction_fields "''blobVersionedHashes''", OF unknown_keys(1),
      where kvs = "[]", unfolded append_Nil2 dec_members.simps(1)]
  show ?thesis
    unfolding dec_Transaction_def enc_RPCTransaction_def dec_struct.simps
    using blobs
    by (simp add: zero_Transaction_def client_transaction_def read_members read_entries unknown
        Transaction_lookup del: dec_members.simps(2))
qed

lemma decode_transactions:
  "dec_elems dec_Transaction zero_Transaction strict (map (enc_RPCTransaction hx) ts) [] =
    (if strict \<and> (\<exists>t \<in> set ts. has_blobs t) then Inl unknown_field else Inr (map (client_transaction hx) ts))"
  by (induction ts) (auto simp: decode_transaction)

text \<open>The transactions of a block.\<close>

definition rpc_transactions :: "sender \<Rightarrow> EthBlock \<Rightarrow> RPCTransaction list" where
  "rpc_transactions sender b =
     map (\<lambda>i. newRPCTransaction sender (eb_Transactions b ! i) (block_hash b) (block_number_u64 b)
            (hd_Time (eb_Header b)) (of_nat i) (hd_BaseFee (eb_Header b)))
       [0..<length (eb_Transactions b)]"

lemma marshalled_transactions:
  assumes "length (eb_Transactions b) < 18446744073709551616"
  shows "map (\<lambda>i. enc_ptr (enc_RPCTransaction hx) (newRPCTransactionFromBlockIndex sender b (of_nat i)))
      [0..<length (eb_Transactions b)] = map (enc_RPCTransaction hx) (rpc_transactions sender b)"
  using assms
  by (simp add: rpc_transactions_def newRPCTransactionFromBlockIndex_def enc_ptr_def u64_le_iff unat_of_nat_u64)

definition client_block :: "hexutil \<Rightarrow> sender \<Rightarrow> EthBlock \<Rightarrow> RpcBlock" where
  "client_block hx sender b = (let head = eb_Header b in zero_Block
    \<lparr>blk_Number := hx_Big hx (hd_Number head), blk_Hash := hx_Bytes hx (hd_Hash head),
     blk_ParentHash := hx_Bytes hx (hd_ParentHash head), blk_Timestamp := hx_Uint64 hx (hd_Time head),
     blk_Miner := hx_Bytes hx (hd_Coinbase head), blk_Difficulty := hx_Big hx (hd_Difficulty head),
     blk_Size := hx_Uint64 hx (eb_Size b), blk_GasLimit := hx_Uint64 hx (hd_GasLimit head),
     blk_GasUsed := hx_Uint64 hx (hd_GasUsed head), blk_BaseFeePerGas := text_if (hx_Big hx) (hd_BaseFee head),
     blk_BlockGasCost := text_if (hx_Big hx) (hd_BlockGasCost head),
     blk_Transactions := Some (map (client_transaction hx) (rpc_transactions sender b)),
     blk_StateRoot := hx_Bytes hx (hd_Root head), blk_TransactionsRoot := hx_Bytes hx (hd_TxHash head),
     blk_ReceiptsRoot := hx_Bytes hx (hd_ReceiptHash head), blk_ExtraData := hx_Bytes hx (hd_Extra head),
     blk_LogsBloom := hx_Bytes hx (hd_Bloom head), blk_MixHash := hx_Bytes hx (hd_MixDigest head),
     blk_Nonce := hx_Bytes hx (hd_Nonce head), blk_Sha3Uncles := hx_Bytes hx (hd_UncleHash head),
     blk_Uncles := Some (map (hx_Bytes hx) (eb_Uncles b)),
     blk_BlobGasUsed := text_if (hx_Uint64 hx) (hd_BlobGasUsed head),
     blk_ExcessBlobGas := text_if (hx_Uint64 hx) (hd_ExcessBlobGas head),
     blk_ParentBeaconBlockRoot := text_if (hx_Bytes hx) (hd_ParentBeaconRoot head)\<rparr>)"

text \<open>The members of a block in the order in which they are written.\<close>

definition ordered_block :: "hexutil \<Rightarrow> sender \<Rightarrow> EthBlock \<Rightarrow> (string \<times> json) list" where
  "ordered_block hx sender b = (let head = eb_Header b in
     entry_if ''baseFeePerGas'' (\<lambda>fee. JStr (hx_Big hx fee)) (hd_BaseFee head) @
     entry_if ''blobGasUsed'' (\<lambda>gas. JStr (hx_Uint64 hx gas)) (hd_BlobGasUsed head) @
     entry_if ''blockGasCost'' (\<lambda>cost. JStr (hx_Big hx cost)) (hd_BlockGasCost head) @
     (''difficulty'', JStr (hx_Big hx (hd_Difficulty head))) #
     entry_if ''excessBlobGas'' (\<lambda>gas. JStr (hx_Uint64 hx gas)) (hd_ExcessBlobGas head) @
     (''extraData'', JStr (hx_Bytes hx (hd_Extra head))) #
     (''gasLimit'', JStr (hx_Uint64 hx (hd_GasLimit head))) #
     (''gasUsed'', JStr (hx_Uint64 hx (hd_GasUsed head))) #
     (''hash'', JStr (hx_Bytes hx (hd_Hash head))) #
     (''logsBloom'', JStr (hx_Bytes hx (hd_Bloom head))) #
     (''miner'', JStr (hx_Bytes hx (hd_Coinbase head))) #
     (''mixHash'', JStr (hx_Bytes hx (hd_MixDigest head))) #
     (''nonce'', JStr (hx_Bytes hx (hd_Nonce head))) #
     (''number'', JStr (hx_Big hx (hd_Number head))) #
     entry_if ''parentBeaconBlockRoot'' (\<lambda>h. JStr (hx_Bytes hx h)) (hd_ParentBeaconRoot head) @
     (''parentHash'', JStr (hx_Bytes hx (hd_ParentHash head))) #
     (''receiptsRoot'', JStr (hx_Bytes hx (hd_ReceiptHash head))) #
     (''sha3Uncles'', JStr (hx_Bytes hx (hd_UncleHash head))) #
     (''size'', JStr (hx_Uint64 hx (eb_Size b))) #
     (''stateRoot'', JStr (hx_Bytes hx (hd_Root head))) #
     (''timestamp'', JStr (hx_Uint64 hx (hd_Time head))) #
     (''transactions'', JArr (map (enc_RPCTransaction hx) (rpc_transactions sender b))) #
     (''transactionsRoot'', JStr (hx_Bytes hx (hd_TxHash head))) #
     (''uncles'', JArr (map (\<lambda>h. JStr (hx_Bytes hx h)) (eb_Uncles b))) #
     entry_if ''withdrawalsRoot'' (\<lambda>h. JStr (hx_Bytes hx h)) (hd_WithdrawalsHash head) @ [])"

lemma enc_map_block:
  assumes "length (eb_Transactions b) < 18446744073709551616"
  shows "enc_map (RPCMarshalBlock hx sender b True True) = JObj (ordered_block hx sender b)"
proof (rule enc_map_ordered [OF _ _ keys_sorted(1)])
  show "mset (RPCMarshalBlock hx sender b True True) = mset (ordered_block hx sender b)"
    by (simp add: RPCMarshalBlock_def RPCMarshalHeader_def ordered_block_def Let_def marshalled_transactions [OF assms]
        add_mset_commute)
  show "subseq (map fst (ordered_block hx sender b)) block_keys"
    unfolding ordered_block_def Let_def block_keys_def by (intro keys_step) simp
qed

lemma dec_string_list:
  "dec_list dec_string '''' strict (JArr (map (\<lambda>h. JStr (f h)) hs)) None = Inr (Some (map f hs))"
  using string_codec.list_round_trip [of strict "Some (map f hs)"] by (simp add: enc_list_def o_def)

lemma decode_block:
  assumes "length (eb_Transactions b) < 18446744073709551616"
  shows "dec_Block strict (enc_map (RPCMarshalBlock hx sender b True True)) zero_Block =
    (if strict \<and> (hd_WithdrawalsHash (eb_Header b) \<noteq> None \<or> (\<exists>t \<in> set (rpc_transactions sender b). has_blobs t))
     then Inl unknown_field else Inr (client_block hx sender b))"
proof -
  let ?ts = "rpc_transactions sender b"
  let ?blobs = "strict \<and> (\<exists>t \<in> set ?ts. has_blobs t)"
  note unknown = read_unknown [of Block_fields "''withdrawalsRoot''", OF unknown_keys(2),
      where kvs = "[]", unfolded append_Nil2 dec_members.simps(1)]
  note reads = dec_Block_def enc_map_block [OF assms] ordered_block_def Let_def read_members read_entries unknown
    zero_Block_def Block_lookup
  have txs: "dec_list dec_Transaction zero_Transaction strict (JArr (map (enc_RPCTransaction hx) ?ts)) None =
      (if ?blobs then Inl unknown_field else Inr (Some (map (client_transaction hx) ?ts)))"
    using decode_transactions [of strict hx ?ts] by simp
  show ?thesis
  proof (cases ?blobs)
    case True
    with txs have "dec_list dec_Transaction zero_Transaction strict (JArr (map (enc_RPCTransaction hx) ?ts)) None =
      Inl unknown_field" by simp
    then have put: "fld (dec_list dec_Transaction zero_Transaction) blk_Transactions blk_Transactions_update strict
        (JArr (map (enc_RPCTransaction hx) ?ts)) r = Inl unknown_field" if "blk_Transactions r = None" for r
      using that by (simp add: fld_def)
    from True have fails: "strict \<and> (hd_WithdrawalsHash (eb_Header b) \<noteq> None \<or> (\<exists>t \<in> set ?ts. has_blobs t))" by blast
    show ?thesis unfolding if_P [OF fails]
      by (simp add: reads dec_members_fails [OF Block_lookup(13) put] del: dec_members.simps(2) dec_list.simps)
  next
    case False
    with txs have "dec_list dec_Transaction zero_Transaction strict (JArr (map (enc_RPCTransaction hx) ?ts)) None =
      Inr (Some (map (client_transaction hx) ?ts))" by (simp del: dec_list.simps)
    then have put: "fld (dec_list dec_Transaction zero_Transaction) blk_Transactions blk_Transactions_update strict
        (JArr (map (enc_RPCTransaction hx) ?ts)) r = Inr (r\<lparr>blk_Transactions := Some (map (client_transaction hx) ?ts)\<rparr>)"
      if "blk_Transactions r = None" for r
      using that by (simp add: fld_def)
    have uncles: "fld (dec_list dec_string '''') blk_Uncles blk_Uncles_update strict
        (JArr (map (\<lambda>h. JStr (hx_Bytes hx h)) (eb_Uncles b))) r = Inr (r\<lparr>blk_Uncles := Some (map (hx_Bytes hx) (eb_Uncles b))\<rparr>)"
      if "blk_Uncles r = None" for r
      using that by (simp add: fld_def dec_string_list del: dec_list.simps)
    from False show ?thesis
      by (simp add: reads client_block_def dec_members_put [OF Block_lookup(13) put]
          dec_members_put [OF Block_lookup(25) uncles] del: dec_members.simps(2) dec_list.simps)
  qed
qed

subsection \<open>Receipts and the normalized block\<close>

definition client_receipt ::
  "hexutil \<Rightarrow> sender \<Rightarrow> EthReceipt \<Rightarrow> Log list option \<Rightarrow> bytes \<Rightarrow> u64 \<Rightarrow> u64 \<Rightarrow> EthTx \<Rightarrow> Receipt" where
  "client_receipt hx sender r logs blockHash blockNumber index tx = zero_Receipt
    \<lparr>rc_BlockHash := hx_Bytes hx blockHash, rc_BlockNumber := hx_Uint64 hx blockNumber,
     rc_ContractAddress := (if er_ContractAddress r \<noteq> zero_bytes 20 then Some (hx_Bytes hx (er_ContractAddress r)) else None),
     rc_CumulativeGasUsed := hx_Uint64 hx (er_CumulativeGasUsed r),
     rc_EffectiveGasPrice := text_if (\<lambda>price. hx_Uint64 hx (of_int price)) (er_EffectiveGasPrice r),
     rc_From := hx_Bytes hx (getFrom sender tx blockNumber), rc_GasUsed := hx_Uint64 hx (er_GasUsed r),
     rc_Logs := logs, rc_LogsBloom := hx_Bytes hx (er_Bloom r), rc_Status := hx_Uint64 hx (er_Status r),
     rc_To := text_if (hx_Bytes hx) (et_To tx), rc_TransactionHash := hx_Bytes hx (et_Hash tx),
     rc_TransactionIndex := hx_Uint64 hx index, rc_Type := hx_Uint64 hx (er_Type r)\<rparr>"

definition ordered_receipt ::
  "hexutil \<Rightarrow> sender \<Rightarrow> EthReceipt \<Rightarrow> bytes \<Rightarrow> u64 \<Rightarrow> u64 \<Rightarrow> EthTx \<Rightarrow> (string \<times> json) list" where
  "ordered_receipt hx sender receipt blockHash blockNumber index tx =
     (''blockHash'', JStr (hx_Bytes hx blockHash)) #
     (''blockNumber'', JStr (hx_Uint64 hx blockNumber)) #
     (''contractAddress'',
       if er_ContractAddress receipt \<noteq> zero_bytes 20 then JStr (hx_Bytes hx (er_ContractAddress receipt)) else JNull) #
     (''cumulativeGasUsed'', JStr (hx_Uint64 hx (er_CumulativeGasUsed receipt))) #
     entry_if ''effectiveGasPrice'' (\<lambda>price. JStr (hx_Uint64 hx (of_int price))) (er_EffectiveGasPrice receipt) @
     (''from'', JStr (hx_Bytes hx (getFrom sender tx blockNumber))) #
     (''gasUsed'', JStr (hx_Uint64 hx (er_GasUsed receipt))) #
     (''logs'', er_Logs receipt) #
     (''logsBloom'', JStr (hx_Bytes hx (er_Bloom receipt))) #
     (''status'', JStr (hx_Uint64 hx (er_Status receipt))) #
     (''to'', enc_ptr JStr (map_option (hx_Bytes hx) (et_To tx))) #
     (''transactionHash'', JStr (hx_Bytes hx (et_Hash tx))) #
     (''transactionIndex'', JStr (hx_Uint64 hx index)) #
     (''type'', JStr (hx_Uint64 hx (er_Type receipt))) # []"

lemma enc_map_receipt:
  "enc_map (marshalReceipt hx sender r bh n i tx) = JObj (ordered_receipt hx sender r bh n i tx)"
proof (rule enc_map_ordered [OF _ _ keys_sorted(2)])
  show "mset (marshalReceipt hx sender r bh n i tx) = mset (ordered_receipt hx sender r bh n i tx)"
    by (simp add: marshalReceipt_def ordered_receipt_def add_mset_commute)
  show "subseq (map fst (ordered_receipt hx sender r bh n i tx)) receipt_keys"
    unfolding ordered_receipt_def receipt_keys_def by (intro keys_step) simp
qed

lemma dec_address:
  "dec_ptr dec_string '''' strict (if a \<noteq> zero then JStr (f a) else JNull) None =
    Inr (if a \<noteq> zero then Some (f a) else None)"
  by simp

lemma decode_receipt:
  assumes "dec_list dec_Log zero_Log strict (er_Logs r) None = Inr logs"
  shows "dec_Receipt strict (enc_map (marshalReceipt hx sender r bh n i tx)) zero_Receipt =
    Inr (client_receipt hx sender r logs bh n i tx)"
proof -
  have logs: "fld (dec_list dec_Log zero_Log) rc_Logs rc_Logs_update strict (er_Logs r) x = Inr (x\<lparr>rc_Logs := logs\<rparr>)"
    if "rc_Logs x = None" for x
    using that assms by (simp add: fld_def)
  have address: "fld (dec_ptr dec_string '''') rc_ContractAddress rc_ContractAddress_update strict
      (if er_ContractAddress r \<noteq> zero_bytes 20 then JStr (hx_Bytes hx (er_ContractAddress r)) else JNull) x =
      Inr (x\<lparr>rc_ContractAddress := (if er_ContractAddress r \<noteq> zero_bytes 20
        then Some (hx_Bytes hx (er_ContractAddress r)) else None)\<rparr>)"
    if "rc_ContractAddress x = None" for x
    unfolding fld_def that dec_address by simp
  show ?thesis
    unfolding dec_Receipt_def enc_map_receipt ordered_receipt_def dec_struct.simps
    by (simp add: read_members read_entries zero_Receipt_def client_receipt_def Receipt_lookup
        dec_members_put [OF Receipt_lookup(3) address] dec_members_put [OF Receipt_lookup(8) logs]
        del: dec_members.simps(2) if_not_P cong: if_cong)
qed

lemma dec_elems_all:
  "(\<And>i. i < length js \<Longrightarrow> dcd strict (js ! i) zero = Inr (xs ! i)) \<Longrightarrow> length xs = length js \<Longrightarrow>
    dec_elems dcd zero strict js [] = Inr xs"
proof (induction js arbitrary: xs)
  case (Cons j js)
  then obtain y ys where xs: "xs = y # ys" by (cases xs) auto
  have "dec_elems dcd zero strict js [] = Inr ys"
    using Cons.prems(1) [of "Suc _"] Cons.prems(2) xs by (intro Cons.IH) auto
  with Cons.prems(1) [of 0] xs show ?case by simp
qed simp

definition client_receipts ::
  "hexutil \<Rightarrow> sender \<Rightarrow> EthBlock \<Rightarrow> EthReceipt list \<Rightarrow> (nat \<Rightarrow> Log list option) \<Rightarrow> Receipt list" where
  "client_receipts hx sender b receipts logs =
     map (\<lambda>i. client_receipt hx sender (receipts ! i) (logs i) (block_hash b) (block_number_u64 b) (of_nat i)
            (eb_Transactions b ! i))
       [0..<length receipts]"

lemma enc_map_normalized:
  "enc_map [(''block'', j1), (''receipts'', j2), (''traces'', j3)] =
    JObj [(''block'', j1), (''receipts'', j2), (''traces'', j3)]"
  by (rule enc_map_ordered [where ks = "[''block'', ''receipts'', ''traces'']"]) (simp, simp, code_simp)

lemma NormalizedBlock_lookup:
  "map_of NormalizedBlock_fields ''block'' = Some (fld dec_Block nb_Block nb_Block_update)"
  "map_of NormalizedBlock_fields ''traces'' =
    Some (fld (dec_list dec_TraceResultOptional zero_TraceResultOptional) nb_Traces nb_Traces_update)"
  "map_of NormalizedBlock_fields ''receipts'' = Some (fld (dec_list dec_Receipt zero_Receipt) nb_Receipts nb_Receipts_update)"
  by (simp_all add: NormalizedBlock_fields_def)

lemma decode_normalized:
  assumes j: "normalized_block hx sender b receipts tracesRPC = Some j"
    and len: "length (eb_Transactions b) < 18446744073709551616"
    and logs: "\<And>i. i < length receipts \<Longrightarrow> dec_list dec_Log zero_Log False (er_Logs (receipts ! i)) None = Inr (logs i)"
    and traces: "dec_list dec_TraceResultOptional zero_TraceResultOptional False tracesRPC None = Inr traces"
  shows "dec_NormalizedBlock False j zero_NormalizedBlock =
    Inr \<lparr>nb_Block = client_block hx sender b, nb_Traces = traces,
      nb_Receipts = Some (client_receipts hx sender b receipts logs)\<rparr>"
proof -
  let ?rs = "map (\<lambda>(i, receipt). enc_map (marshalReceipt hx sender receipt (block_hash b)
    (block_number_u64 b) (of_nat i) (eb_Transactions b ! i))) (enumerate 0 receipts)"
  have "dec_elems dec_Receipt zero_Receipt False ?rs [] = Inr (client_receipts hx sender b receipts logs)"
    by (rule dec_elems_all)
      (auto simp: client_receipts_def nth_enumerate_eq decode_receipt [OF logs])
  then have receipts: "fld (dec_list dec_Receipt zero_Receipt) nb_Receipts nb_Receipts_update False (JArr ?rs) x =
      Inr (x\<lparr>nb_Receipts := Some (client_receipts hx sender b receipts logs)\<rparr>)" if "nb_Receipts x = None" for x
    using that by (simp add: fld_def)
  have block: "fld dec_Block nb_Block nb_Block_update False (enc_map (RPCMarshalBlock hx sender b True True)) x =
      Inr (x\<lparr>nb_Block := client_block hx sender b\<rparr>)" if "nb_Block x = zero_Block" for x
    using that by (simp add: fld_def decode_block [OF len])
  have trc: "fld (dec_list dec_TraceResultOptional zero_TraceResultOptional) nb_Traces nb_Traces_update False
      tracesRPC x = Inr (x\<lparr>nb_Traces := traces\<rparr>)" if "nb_Traces x = None" for x
    using that traces by (simp add: fld_def)
  have "j = JObj [(''block'', enc_map (RPCMarshalBlock hx sender b True True)), (''receipts'', JArr ?rs),
      (''traces'', tracesRPC)]"
    using j by (simp add: normalized_block_def enc_map_normalized split: if_splits)
  then show ?thesis
    by (simp add: dec_NormalizedBlock_def zero_NormalizedBlock_def
        dec_members_put [OF NormalizedBlock_lookup(1) block] dec_members_put [OF NormalizedBlock_lookup(3) receipts]
        dec_members_put [OF NormalizedBlock_lookup(2) trc] del: dec_members.simps(2))
qed

subsection \<open>The properties\<close>

text \<open>What the documentation of \<open>hexutil\<close> promises: numbers are written in hexadecimal with \<open>0x\<close>.\<close>

locale hexutil_laws =
  fixes hx :: hexutil
  assumes big_number: "parseBlockNumber (hx_Big hx (uint (n :: u64))) = Inr n"

definition demo_hex :: hexutil where
  "demo_hex = \<lparr>hx_Big = (\<lambda>i. ''0x'' @ hex (nat i)), hx_Uint64 = (\<lambda>n. ''0x'' @ hex (unat n)),
     hx_Bytes = (\<lambda>b. ''0x'' @ concat (map (\<lambda>c. [digit_char (of_char c div 16), digit_char (of_char c mod 16)]) b))\<rparr>"

interpretation demo_hex: hexutil_laws demo_hex
  using parseBlockNumber_hex by unfold_locales (simp add: demo_hex_def unat_eq_nat_uint [symmetric])

text \<open>The chain as the plugin reads it, with the encoder of the plugin; a panic ends as an error here.\<close>

definition plugin_chain ::
  "json_text \<Rightarrow> hexutil \<Rightarrow> sender \<Rightarrow> (u64 \<Rightarrow> EthBlock option) \<Rightarrow> (EthBlock \<Rightarrow> EthReceipt list option) \<Rightarrow>
    (u64 \<Rightarrow> json result) option \<Rightarrow> (EthBlock, EthReceipt, json) chain_api" where
  "plugin_chain tx hx sender get_block get_receipts tracer =
     \<lparr>GetBlockByNumber = get_block, GetReceipts = get_receipts, tracerAPI = tracer,
      marshal_normalized = (\<lambda>b rs tr. case normalized_block hx sender b rs tr of
          None \<Rightarrow> Inl (Fail ''index out of range'')
        | Some j \<Rightarrow> Inr (print tx j))\<rparr>"

definition demo_header :: "int \<Rightarrow> Header" where
  "demo_header i = \<lparr>hd_Number = i, hd_Hash = ''H'', hd_ParentHash = ''P'', hd_Nonce = '''', hd_MixDigest = '''',
     hd_UncleHash = '''', hd_Bloom = '''', hd_Root = '''', hd_Coinbase = '''', hd_Difficulty = 1, hd_Extra = '''',
     hd_GasLimit = 0, hd_GasUsed = 0, hd_Time = 5, hd_TxHash = '''', hd_ReceiptHash = '''', hd_BaseFee = Some 25,
     hd_BlockGasCost = None, hd_BlobGasUsed = None, hd_ExcessBlobGas = None, hd_WithdrawalsHash = None,
     hd_ParentBeaconRoot = None\<rparr>"

definition demo_eth_tx :: EthTx where
  "demo_eth_tx = \<lparr>et_Type = DynamicFeeTxType, et_Gas = 0, et_GasPrice = 30, et_GasTipCap = 2, et_GasFeeCap = 30,
     et_Hash = ''T'', et_Data = '''', et_Nonce = 0, et_To = None, et_Value = 0, et_V = 1, et_R = 3, et_S = 4,
     et_AccessList = JArr [], et_ChainId = 1, et_BlobHashes = None, et_json = JNull\<rparr>"

definition eth_block_at :: "int \<Rightarrow> EthBlock" where
  "eth_block_at i = \<lparr>eb_Header = demo_header i, eb_Size = 0, eb_Transactions = [demo_eth_tx], eb_Uncles = []\<rparr>"

abbreviation demo_eth_block :: EthBlock where "demo_eth_block \<equiv> eth_block_at 7"

definition demo_eth_receipt :: EthReceipt where
  "demo_eth_receipt = \<lparr>er_GasUsed = 0, er_CumulativeGasUsed = 0, er_ContractAddress = ''C'', er_Logs = JArr [],
     er_Bloom = '''', er_Type = 2, er_Status = 1, er_EffectiveGasPrice = Some 27\<rparr>"

definition demo_sender :: sender where "demo_sender number time tx = ''S''"

lemma valid_hex: "valid_utf8 (hex n)"
proof (rule valid_utf8_ascii)
  have "byte_in 0 0x7F c" if "c \<in> set (hex n)" for c
    using show_base_range [of 16 c n] that by (simp add: byte_in_def)
  then show "list_all (byte_in 0 0x7F) (hex n)" by (simp add: list_all_iff)
qed

lemmas demo_eth_defs = eth_block_at_def demo_header_def demo_eth_tx_def demo_eth_receipt_def demo_sender_def

lemma demo_block_json:
  "enc_map (RPCMarshalBlock demo_hex demo_sender (eth_block_at i) True True) =
    JObj (ordered_block demo_hex demo_sender (eth_block_at i))"
  by (rule enc_map_block) (simp add: eth_block_at_def)

lemma demo_block_valid:
  "valid_json (JObj (ordered_block demo_hex demo_sender (eth_block_at i)))"
  "json_depth (JObj (ordered_block demo_hex demo_sender (eth_block_at i))) \<le> 10"
  by (simp_all add: ordered_block_def Let_def demo_eth_defs demo_hex_def entry_if_def rpc_transactions_def
      newRPCTransaction_def block_hash_def enc_RPCTransaction_def enc_ptr_def zero_bytes_def valid_hex
      DynamicFeeTxType_def LegacyTxType_def AccessListTxType_def byte_in_def digit_char_def)

text \<open>The line that is stored for a block, decoded by the client library.\<close>

lemma normalized_block_decodes:
  assumes "json_laws tx" "hexutil_laws hx" "hd_Number (eb_Header b) = uint (n :: u64)"
    and "normalized_block hx sender b receipts tracesRPC = Some j" "valid_document j"
    and "length (eb_Transactions b) < 18446744073709551616"
    and "\<And>i. i < length receipts \<Longrightarrow> dec_list dec_Log zero_Log False (er_Logs (receipts ! i)) None = Inr (logs i)"
    and "dec_list dec_TraceResultOptional zero_TraceResultOptional False tracesRPC None = Inr traces"
  shows "unmarshal_block tx (print tx j) = Inr \<lparr>nb_Block = client_block hx sender b, nb_Traces = traces,
      nb_Receipts = Some (client_receipts hx sender b receipts logs)\<rparr>"
    "parseHex (blk_Number (client_block hx sender b)) = Inr n"
proof -
  show "unmarshal_block tx (print tx j) = Inr \<lparr>nb_Block = client_block hx sender b, nb_Traces = traces,
      nb_Receipts = Some (client_receipts hx sender b receipts logs)\<rparr>"
    using decode_normalized [OF assms(4,6-8)] json_laws.scan_all_print [OF assms(1,5)]
    by (simp add: unmarshal_block_def Unmarshal_def)
  show "parseHex (blk_Number (client_block hx sender b)) = Inr n"
    using hexutil_laws.big_number [OF assms(2), of n] assms(3)
    by (simp add: client_block_def Let_def parseHex_parseBlockNumber)
qed

text \<open>C13: What the plugin stores for a block is read back by the client library as exactly that block: its
  number is the height, every field of header, transactions and receipts that the types of the
  library know holds the text of its value, in the order of the transactions, and the fields that
  the plugin does not write are empty.  (The sender in a receipt is computed for block time 0,
  the one in the transaction for the time of the block.)\<close>

theorem plugin_block_is_read_back:
  assumes "json_laws tx" "hexutil_laws hx"
    and "normalized_data (plugin_chain tx hx sender get_block get_receipts tracer) height = Inr data"
    and "get_block height = Some b" "hd_Number (eb_Header b) = uint height" "get_receipts b = Some receipts"
    and "tracer = Some trace" "trace height = Inr tracesRPC"
    and "normalized_block hx sender b receipts tracesRPC = Some j" "valid_document j"
    and "length (eb_Transactions b) < 18446744073709551616"
    and "\<And>i. i < length receipts \<Longrightarrow> dec_list dec_Log zero_Log False (er_Logs (receipts ! i)) None = Inr (logs i)"
    and "dec_list dec_TraceResultOptional zero_TraceResultOptional False tracesRPC None = Inr traces"
  shows "parse_blocks (unmarshal_block tx) block_number [data] =
    Inr [\<lparr>Number = height, Data = \<lparr>nb_Block = client_block hx sender b, nb_Traces = traces,
      nb_Receipts = Some (client_receipts hx sender b receipts logs)\<rparr>\<rparr>]"
proof -
  have data: "data = print tx j"
    using assms(3-9) by (simp add: normalized_data_def plugin_chain_def)
  note decoded = normalized_block_decodes [OF assms(1,2,5,9-13)]
  have "data \<noteq> []" using json_laws.print_line [OF assms(1,10)] by (simp add: data)
  with decoded show ?thesis by (simp add: block_number_def data)
qed

lemma demo_receipt_valid:
  "valid_json (JObj (ordered_receipt demo_hex demo_sender demo_eth_receipt (block_hash (eth_block_at k)) n i demo_eth_tx))"
  "json_depth (JObj (ordered_receipt demo_hex demo_sender demo_eth_receipt (block_hash (eth_block_at k)) n i demo_eth_tx)) \<le> 10"
  by (simp_all add: ordered_receipt_def demo_eth_defs block_hash_def demo_hex_def entry_if_def getFrom_def enc_ptr_def
      valid_hex byte_in_def digit_char_def)

lemma demo_document:
  assumes "valid_json j1" "json_depth j1 \<le> 10" "valid_json j2" "json_depth j2 \<le> 10"
  shows "valid_document (JObj [(''block'', j1), (''receipts'', JArr [j2]), (''traces'', JArr [])])"
  using assms by (simp add: valid_document_def byte_in_def max_def)

lemma demo_normalized:
  obtains j where "normalized_block demo_hex demo_sender (eth_block_at i) [demo_eth_receipt] (JArr []) = Some j"
    "valid_document j"
proof -
  let ?b = "eth_block_at i"
  have "normalized_block demo_hex demo_sender ?b [demo_eth_receipt] (JArr []) =
    Some (JObj [(''block'', JObj (ordered_block demo_hex demo_sender ?b)),
      (''receipts'', JArr [JObj (ordered_receipt demo_hex demo_sender demo_eth_receipt (block_hash ?b)
         (block_number_u64 ?b) 0 demo_eth_tx)]), (''traces'', JArr [])])"
    by (simp add: normalized_block_def enc_map_normalized demo_block_json enc_map_receipt)
      (simp add: eth_block_at_def)
  with that demo_document [OF demo_block_valid demo_receipt_valid] show ?thesis by blast
qed

theorem plugin_block_is_read_back_witness:
  "\<exists>data. normalized_data (plugin_chain demo_text demo_hex demo_sender (\<lambda>_. Some demo_eth_block)
      (\<lambda>_. Some [demo_eth_receipt]) (Some (\<lambda>_. Inr (JArr [])))) 7 = Inr data \<and>
    parse_blocks (unmarshal_block demo_text) block_number [data] =
      Inr [\<lparr>Number = 7, Data = \<lparr>nb_Block = client_block demo_hex demo_sender demo_eth_block, nb_Traces = Some [],
        nb_Receipts = Some (client_receipts demo_hex demo_sender demo_eth_block [demo_eth_receipt] (\<lambda>_. Some []))\<rparr>\<rparr>]"
proof -
  obtain j where j: "normalized_block demo_hex demo_sender demo_eth_block [demo_eth_receipt] (JArr []) = Some j"
    "valid_document j" by (rule demo_normalized)
  have data: "normalized_data (plugin_chain demo_text demo_hex demo_sender (\<lambda>_. Some demo_eth_block)
      (\<lambda>_. Some [demo_eth_receipt]) (Some (\<lambda>_. Inr (JArr [])))) 7 = Inr (print demo_text j)"
    by (simp add: normalized_data_def plugin_chain_def j)
  from plugin_block_is_read_back [OF demo_json.json_laws_axioms demo_hex.hexutil_laws_axioms data refl _ refl refl refl j,
      of "\<lambda>_. Some []" "Some []"]
  show ?thesis using data by (simp add: eth_block_at_def demo_header_def demo_eth_receipt_def)
qed

text \<open>C27: The strict decoder of the fetcher accepts a block in the form that the plugin (a copy of the RPC
  of subnet-evm) gives it if and only if the block has no withdrawals root and no transaction
  with blob hashes: these fields are missing in \<open>types.go\<close>.  It then reads the same block.\<close>

theorem strict_decoder_accepts:
  assumes "json_laws tx" "valid_document (enc_map (RPCMarshalBlock hx sender b True True))"
    and "length (eb_Transactions b) < 18446744073709551616"
  shows "unm_block tx (print tx (enc_map (RPCMarshalBlock hx sender b True True))) =
    (if hd_WithdrawalsHash (eb_Header b) = None \<and>
        (\<forall>t \<in> set (eb_Transactions b). et_Type t = BlobTxType \<longrightarrow> elems (et_BlobHashes t) = [])
     then Inr (client_block hx sender b)
     else Inl (Wrap ''strict unmarshal failed'' unknown_field))"
proof -
  have blobs: "has_blobs (newRPCTransaction sender t bh n time i fee) \<longleftrightarrow>
      et_Type t = BlobTxType \<and> elems (et_BlobHashes t) \<noteq> []" for t bh n time i fee
    by (simp add: has_blobs_def newRPCTransaction_def Let_def elems_def LegacyTxType_def AccessListTxType_def
        DynamicFeeTxType_def BlobTxType_def)
  have "(\<exists>t \<in> set (rpc_transactions sender b). has_blobs t) \<longleftrightarrow>
      (\<exists>t \<in> set (eb_Transactions b). et_Type t = BlobTxType \<and> elems (et_BlobHashes t) \<noteq> [])"
    by (auto simp: rpc_transactions_def blobs set_conv_nth)
  then show ?thesis
    using json_laws.scan_first_print [OF assms(1,2)] decode_block [OF assms(3), of True hx sender]
    by (auto simp: unm_block_def StrictUnmarshal_def)
qed

theorem strict_decoder_accepts_witness:
  "unm_block demo_text (print demo_text (enc_map (RPCMarshalBlock demo_hex demo_sender demo_eth_block True True))) =
     Inr (client_block demo_hex demo_sender demo_eth_block)"
proof -
  have "valid_document (enc_map (RPCMarshalBlock demo_hex demo_sender demo_eth_block True True))"
    using demo_block_valid [of 7] by (simp add: demo_block_json valid_document_def)
  from strict_decoder_accepts [OF demo_json.json_laws_axioms this]
  show ?thesis by (simp add: demo_eth_defs DynamicFeeTxType_def BlobTxType_def)
qed

end
