(* ===== verification/VMCompactor.thy ===== *)
theory VMCompactor
  imports IndexVM Service
begin

section \<open>The compactor inside the plugin\<close>

text \<open>
  In the plugin the compactor writes to the same versioned database as block acceptance, from a
  goroutine of its own.  A failing \<open>Accept\<close> between its \<open>SaveBatch\<close> and its \<open>DeleteBlockRange\<close>
  drops the batch, but not the deletion that follows.
\<close>

context versioned_laws
begin

lemma abort_loses_batch:
  assumes s: "well_keyed (content (vdb s))" "well_keyed (durable (vdb s))"
    and lo: "aligned lo" "unat lo + 99 < 18446744073709551615"
      "batches (kv_abs (durable (vdb s))) (lo, lo + 99) = None"
    and save: "cstep zs (VersionDBStorage av) (CCompressed lo z, s) = (CSaved lo, s1)"
    and abort: "inner_accept ver h s1 = (Some e, s2)"
    and go_on: "cstep zs (VersionDBStorage av) (CSaved lo, s2) = (CMeta lo, s3)"
      "cstep zs (VersionDBStorage av) (CMeta lo, s3) = (CReturned True, s4)"
    and commit: "inner_accept ver h' s4 = (None, s5)"
    and n: "lo \<le> n" "n \<le> lo + 99"
  shows "view zs (kv_abs (durable (vdb s5))) n = None"
proof -
  obtain w db1 where put: "av_put av (vdb s) (batchKey lo (BatchEnd lo)) z = (w, db1)" by fastforce
  have s1: "vdb s1 = db1" using save put by (auto simp: VersionDB_SaveBatch_def split: option.splits)
  have d1: "durable (vdb s1) = durable (vdb s)" using put_pending [OF put] s1 by simp
  obtain db2 where acc: "ver_accept ver h (vdb s1) = (Some e, db2)" "vdb s2 = db2"
    using abort by (auto simp: inner_accept_def split: prod.splits)
  have c2: "content (vdb s2) = durable (vdb s)" using accept_aborts [OF acc(1)] acc(2) d1 by simp
  then have inv2: "well_keyed (content (vdb s2))" using s(2) by simp
  have m: "VersionDB_SaveMeta av s2 (BatchEnd lo) = (None, s3)"
    using go_on(1) by (auto split: prod.splits option.splits)
  have l3: "well_keyed (content (vdb s3))" "kv_abs (content (vdb s3)) = put_meta (lo + 99) (kv_abs (durable (vdb s)))"
    using store.SaveMeta_law [OF inv2, of "BatchEnd lo" None s3] m c2 by (simp_all add: BatchEnd_eq)
  have hi: "unat (lo + 99) = unat lo + 99" using lo(2) unat_add_u64 [of lo 99] by simp
  have range: "lo \<le> lo + 99" "unat (lo + 99) < 18446744073709551615"
    using hi lo(2) by (auto simp: u64_le_iff)
  obtain r where del: "VersionDB_DeleteBlockRange av s3 lo (lo + 99) = (r, s4)"
    using go_on(2) by (auto simp: BatchEnd_eq split: prod.splits)
  moreover have "r = None" using store.DeleteBlockRange_total [OF l3(1) range] del by simp
  ultimately have l4: "kv_abs (content (vdb s4)) = drop_blocks lo (lo + 99) (kv_abs (content (vdb s3)))"
    using store.DeleteBlockRange_law [OF l3(1) range, of r s4] by simp
  obtain db5 where com: "ver_accept ver h' (vdb s4) = (None, db5)" "vdb s5 = db5"
    using commit by (auto simp: inner_accept_def split: prod.splits)
  have "durable (vdb s5) = content (vdb s4)" using accept_commits [OF com(1)] com(2) by simp
  then have final: "kv_abs (durable (vdb s5)) = drop_blocks lo (lo + 99) (put_meta (lo + 99) (kv_abs (durable (vdb s))))"
    using l3(2) l4 by simp
  have "BatchStart n = lo" using n hi by (intro BatchStart_aligned [OF lo(1)]) (auto simp: u64_le_iff)
  with lo(3) n show ?thesis
    by (simp add: final view_def batch_view_def split: option.split)
qed

end

subsection \<open>The properties of the plugin\<close>

context versioned_laws
begin

lemma vm_runs_ok:
  "(vm_step av ver tip api)\<^sup>*\<^sup>* vm vm' \<Longrightarrow> api_faithful api chain \<Longrightarrow> vm_ok content durable tip chain vm \<Longrightarrow>
    vm_ok content durable tip chain vm'"
  by (induction rule: rtranclp_induct) (auto intro: vm_step_ok)

end

text \<open>A demo chain to index, and the plugin on an empty database.\<close>

definition demo_api :: "(u64, unit, unit) chain_api" where
  "demo_api = \<lparr>GetBlockByNumber = Some, GetReceipts = (\<lambda>_. Some []), tracerAPI = Some (\<lambda>_. Inr ()),
     marshal_normalized = (\<lambda>b _ _. Inr (demo_chain b))\<rparr>"

lemma demo_api_faithful: "api_faithful demo_api demo_chain"
  by (simp add: api_faithful_def normalized_data_def demo_api_def)

definition demo_vm :: "memver vdbs vm" where
  "demo_vm = \<lparr>vm_store = \<lparr>vdb = ([], [], 0), latest_cache = 0\<rparr>, vm_server = Some 0,
     lastAcceptedHeight = 0, lastIndexedHeight = 0\<rparr>"

definition demo_vm1 :: "memver vdbs vm" where
  "demo_vm1 = snd (Accept (inner_accept (mem_versioned [])) (VersionDBStorage memver_avadb) demo_api 1 demo_vm)"

lemma demo_vm_ok: "vm_ok (\<lambda>x. map_of (fst x)) (\<lambda>x. map_of (fst (snd x))) (\<lambda>x. snd (snd x)) demo_chain demo_vm"
proof -
  have "(if 1 \<le> n \<and> n \<le> 0 then Some (demo_chain n) else None) = None" for n :: u64
    by (cases "n = 0") simp_all
  then have "indexed_upto demo_chain 0 = empty_store" unfolding indexed_upto_def empty_store_def by presburger
  then show ?thesis by (simp add: vm_ok_def demo_vm_def kv_abs_empty)
qed

lemma demo_vm_run: "(vm_step memver_avadb (mem_versioned []) (\<lambda>x. snd (snd x)) demo_api)\<^sup>*\<^sup>* demo_vm demo_vm1"
proof (rule r_into_rtranclp, rule vm_step.accept)
  show "Accept (inner_accept (mem_versioned [])) (VersionDBStorage memver_avadb) demo_api 1 demo_vm =
    (fst (Accept (inner_accept (mem_versioned [])) (VersionDBStorage memver_avadb) demo_api 1 demo_vm), demo_vm1)"
    by (simp add: demo_vm1_def)
qed (simp_all add: demo_vm_def)

text \<open>The indexer is never behind the chain: after any sequence of block acceptances, failed
  acceptances, retries and restarts of the plugin, every accepted height is durably indexed with its
  data, and the indexer knows exactly the accepted height.\<close>

lemma indexer_never_behind:
  assumes "versioned_laws av content deletes ver durable tip" "api_faithful api chain"
    and "vm_ok content durable tip chain vm" "(vm_step av ver tip api)\<^sup>*\<^sup>* vm vm'"
  shows "lastIndexedHeight vm' = tip (vdb (vm_store vm')) \<and>
    (\<forall>n. 1 \<le> n \<and> n \<le> tip (vdb (vm_store vm')) \<longrightarrow>
      durable (vdb (vm_store vm')) (blockKey n) = Some (chain n))"
proof -
  have ok: "vm_ok content durable tip chain vm'" by (rule versioned_laws.vm_runs_ok [OF assms(1,4,2,3)])
  then have d: "kv_abs (durable (vdb (vm_store vm'))) = indexed_upto chain (tip (vdb (vm_store vm')))"
    "lastIndexedHeight vm' = tip (vdb (vm_store vm'))"
    by (simp_all add: vm_ok_def Let_def)
  have "durable (vdb (vm_store vm')) (blockKey n) = blocks (indexed_upto chain (tip (vdb (vm_store vm')))) n" for n
    unfolding d(1) [symmetric] by simp
  with d(2) show ?thesis by (simp add: indexed_upto_def)
qed

lemma indexer_never_behind_example:
  "lastIndexedHeight demo_vm1 = snd (snd (vdb (vm_store demo_vm1)))"
  using indexer_never_behind [OF memver.versioned_laws_axioms demo_api_faithful demo_vm_ok demo_vm_run]
  by blast

text \<open>A restart of the plugin on the allowed chain, with nothing else failing, is never refused for a gap:
  it restores exactly the accepted height and announces it.\<close>

lemma restart_finds_no_gap:
  assumes "versioned_laws av content deletes ver durable tip" "api_faithful api chain"
    and "vm_ok content durable tip chain vm" "(vm_step av ver tip api)\<^sup>*\<^sup>* vm vm'"
    and "opened_store env = Inr (NewVersionDBStorage av (ver_reopen ver (vdb (vm_store vm'))))"
    and "CurrentBlock env = Some (tip (vdb (vm_store vm')))"
    and "allowedChainID env = ChainID env" "ChainID env \<noteq> []" "inner_init env = None" "eth_found env"
    and "listen env = Inr addr"
  shows "\<exists>vm''. Initialize (VersionDBStorage av) env = Inr vm'' \<and>
    lastIndexedHeight vm'' = tip (vdb (vm_store vm'))"
proof -
  have ok: "vm_ok content durable tip chain vm'" by (rule versioned_laws.vm_runs_ok [OF assms(1,4,2,3)])
  obtain vm'' where vm'': "Initialize (VersionDBStorage av) env = Inr vm''"
    using versioned_laws.restart_ok(2) [OF assms(1) ok assms(5-11)] by blast
  have "vm_ok content durable tip chain vm''"
    by (rule versioned_laws.restart_ok(1) [OF assms(1) ok assms(5,6) vm''])
  then have "lastIndexedHeight vm'' = tip (vdb (vm_store vm''))" by (simp add: vm_ok_def Let_def)
  moreover have "vm_store vm'' = NewVersionDBStorage av (ver_reopen ver (vdb (vm_store vm')))"
    using vm'' assms(5) by (auto simp: Initialize_def Let_def split: if_splits option.splits sum.splits)
  ultimately show ?thesis
    using vm'' versioned_laws.reopen_law [OF assms(1)] by (simp add: NewVersionDBStorage_def)
qed

definition demo_env :: "memver vdbs init_env" where
  "demo_env = \<lparr>allowedChainID = ''C'', ChainID = ''C'', inner_init = None,
     opened_store = Inr (NewVersionDBStorage memver_avadb (ver_reopen (mem_versioned []) (vdb (vm_store demo_vm1)))),
     eth_found = True, CurrentBlock = Some (snd (snd (vdb (vm_store demo_vm1)))), listen = Inr '':9090''\<rparr>"

lemma restart_finds_no_gap_example:
  "\<exists>vm''. Initialize (VersionDBStorage memver_avadb) demo_env = Inr vm'' \<and>
    lastIndexedHeight vm'' = snd (snd (vdb (vm_store demo_vm1)))"
  by (rule restart_finds_no_gap [OF memver.versioned_laws_axioms demo_api_faithful demo_vm_ok
        demo_vm_run, of demo_env "'':9090''"])
    (simp_all add: demo_env_def)

text \<open>C17: A failed acceptance in the middle of a compaction loses blocks: the abort drops the pending
  batch, the compactor goes on to delete its blocks, and the next commit makes the loss durable.\<close>

theorem abort_during_compaction_loses_blocks:
  assumes "versioned_laws av content deletes ver durable tip"
    and "well_keyed (content (vdb s))" "well_keyed (durable (vdb s))"
    and "aligned lo" "unat lo + 99 < 18446744073709551616 - 1"
    and "batches (kv_abs (durable (vdb s))) (lo, lo + 99) = None"
    and "cstep zs (VersionDBStorage av) (CCompressed lo z, s) = (CSaved lo, saved)"
    and "inner_accept ver h saved = (Some e, aborted)"
    and "cstep zs (VersionDBStorage av) (CSaved lo, aborted) = (CMeta lo, marked)"
    and "cstep zs (VersionDBStorage av) (CMeta lo, marked) = (CReturned True, deleted)"
    and "inner_accept ver h' deleted = (None, committed)"
    and "lo \<le> n" "n \<le> lo + 99"
  shows "view zs (kv_abs (durable (vdb committed))) n = None"
  using versioned_laws.abort_loses_batch [OF assms(1-4) _ assms(6-13)] assms(5) by simp

definition demo_before :: "memver vdbs" where
  "demo_before = \<lparr>vdb = ([(blockKey 1, ''b1'')], [(blockKey 1, ''b1'')], 4), latest_cache = 1\<rparr>"

definition demo_saved :: "memver vdbs" where
  "demo_saved = snd (VersionDB_SaveBatch memver_avadb demo_before 1 100 ''z'')"
definition demo_aborted :: "memver vdbs" where
  "demo_aborted = snd (inner_accept (mem_versioned [5]) 5 demo_saved)"
definition demo_deleted :: "memver vdbs" where
  "demo_deleted = snd (VersionDB_DeleteBlockRange memver_avadb (snd (VersionDB_SaveMeta memver_avadb demo_aborted 100)) 1 100)"
definition demo_committed :: "memver vdbs" where
  "demo_committed = snd (inner_accept (mem_versioned [5]) 6 demo_deleted)"

lemma VersionDB_writes_memver:
  "fst (VersionDB_SaveBatch memver_avadb s a b z) = None" "fst (VersionDB_SaveMeta memver_avadb s m) = None"
  by (simp_all add: VersionDB_defs memver_avadb_def mem_set_def split: prod.split)

theorem abort_during_compaction_loses_blocks_witness:
  "view stored_codec (kv_abs (map_of (fst (vdb demo_before)))) 1 = Some ''b1'' \<and>
   view stored_codec (kv_abs (map_of (fst (snd (vdb demo_committed))))) 1 = None"
proof
  show "view stored_codec (kv_abs (map_of (fst (vdb demo_before)))) 1 = Some ''b1''"
    by (simp add: view_def demo_before_def)
  show "view stored_codec (kv_abs (map_of (fst (snd (vdb demo_committed))))) 1 = None"
  proof (rule abort_during_compaction_loses_blocks [OF memver.versioned_laws_axioms,
        where s = demo_before and lo = 1 and z = "''z''" and saved = demo_saved and h = 5
          and e = "Fail ''accept failed''" and aborted = demo_aborted
          and marked = "snd (VersionDB_SaveMeta memver_avadb demo_aborted 100)" and deleted = demo_deleted and h' = 6])
    show "cstep stored_codec (VersionDBStorage memver_avadb) (CCompressed 1 ''z'', demo_before) = (CSaved 1, demo_saved)"
      using VersionDB_writes_memver(1) [of demo_before 1 100 "''z''"]
      by (cases "VersionDB_SaveBatch memver_avadb demo_before 1 100 ''z''") (simp add: BatchEnd_eq demo_saved_def)
    show "cstep stored_codec (VersionDBStorage memver_avadb) (CSaved 1, demo_aborted) =
        (CMeta 1, snd (VersionDB_SaveMeta memver_avadb demo_aborted 100))"
      using VersionDB_writes_memver(2) [of demo_aborted 100]
      by (cases "VersionDB_SaveMeta memver_avadb demo_aborted 100") (simp add: BatchEnd_eq)
    show "cstep stored_codec (VersionDBStorage memver_avadb)
        (CMeta 1, snd (VersionDB_SaveMeta memver_avadb demo_aborted 100)) = (CReturned True, demo_deleted)"
      by (simp add: BatchEnd_eq demo_deleted_def split: prod.split)
    show "inner_accept (mem_versioned [5]) 5 demo_saved = (Some (Fail ''accept failed''), demo_aborted)"
      by (simp add: demo_aborted_def inner_accept_def mem_versioned_def split: prod.split)
    show "inner_accept (mem_versioned [5]) 6 demo_deleted = (None, demo_committed)"
      by (simp add: demo_committed_def inner_accept_def mem_versioned_def split: prod.split)
    show "aligned 1" by (simp add: aligned_def)
  qed (simp_all add: demo_before_def well_keyed_def)
qed

end
