(* ===== verification/Plugin.thy ===== *)
theory Plugin
  imports VMCompactor
begin

section \<open>The running plugin: acceptance, compaction and restarts interleaved\<close>

text \<open>
  In the plugin, block acceptance (\<open>block.go\<close>), the compactor that \<open>Initialize\<close> starts (\<open>vm.go\<close>) and
  the readers share one versioned database.  A step of the running plugin is the indexing of a
  block, the acceptance by the wrapped block, one access of the compactor to the store, or a
  restart; compactor steps may come between the indexing and the acceptance.
\<close>

subsection \<open>Accept in two phases\<close>

text \<open>\<open>AInner height fresh\<close>: the wrapped block's \<open>Accept\<close> comes next; \<open>fresh\<close> if it was indexed before.\<close>

datatype acceptance = AIdle | AInner u64 bool

definition accept_begin ::
  "'s Storage \<Rightarrow> ('blk, 'rc, 'tr) chain_api \<Rightarrow> u64 \<Rightarrow> 's vm \<Rightarrow> error option \<times> acceptance \<times> 's vm" where
  "accept_begin S api height vm =
     (if height \<le> lastIndexedHeight vm then (None, AInner height False, vm)
      else (case indexBlock S api height (vm_store vm, vm_server vm) of
              (Some err, s, server) \<Rightarrow>
                (Some (Wrap ''indexing block'' err), AIdle, vm\<lparr>vm_store := s, vm_server := server\<rparr>)
            | (None, s, server) \<Rightarrow> (None, AInner height True, vm\<lparr>vm_store := s, vm_server := server\<rparr>)))"

definition accept_end ::
  "(u64 \<Rightarrow> 's \<Rightarrow> error option \<times> 's) \<Rightarrow> u64 \<Rightarrow> bool \<Rightarrow> 's vm \<Rightarrow> error option \<times> 's vm" where
  "accept_end inner height fresh vm =
     (case inner height (vm_store vm) of
        (Some err, s) \<Rightarrow> (Some err, vm\<lparr>vm_store := s\<rparr>)
      | (None, s) \<Rightarrow>
          (None, if fresh then vm\<lparr>vm_store := s, lastIndexedHeight := height, lastAcceptedHeight := height\<rparr>
             else vm\<lparr>vm_store := s\<rparr>))"

lemma Accept_phases:
  "Accept inner S api height vm =
     (case accept_begin S api height vm of
        (None, AInner h fresh, vm') \<Rightarrow> accept_end inner h fresh vm'
      | (r, a, vm') \<Rightarrow> (r, vm'))"
  by (simp add: Accept_def accept_begin_def accept_end_def split: prod.split option.split)

subsection \<open>The steps\<close>

record 'db plugin =
  pg_vm :: "'db vdbs vm"
  pg_compactor :: cpc
  pg_accept :: acceptance

abbreviation pg_db :: "'db plugin \<Rightarrow> 'db" where "pg_db x \<equiv> vdb (vm_store (pg_vm x))"

text \<open>
  \<open>allowed\<close> says at which points of the compactor the wrapped block's \<open>Accept\<close> may fail.  The node
  accepts blocks in order of height, and retries a height whose acceptance failed.
\<close>

inductive plugin_step ::
  "'w zstd \<Rightarrow> ('db, 'batch) avadb \<Rightarrow> 'db versioned \<Rightarrow> ('db \<Rightarrow> u64) \<Rightarrow> ('blk, 'rc, 'tr) chain_api \<Rightarrow>
    (cpc \<Rightarrow> bool) \<Rightarrow> 'db plugin \<Rightarrow> 'db plugin \<Rightarrow> bool"
  for zs :: "'w zstd" and av :: "('db, 'batch) avadb" and ver :: "'db versioned" and tip :: "'db \<Rightarrow> u64"
    and api :: "('blk, 'rc, 'tr) chain_api" and allowed :: "cpc \<Rightarrow> bool" where
  compact: "cstep zs (VersionDBStorage av) (pg_compactor x, vm_store (pg_vm x)) = (pc, s) \<Longrightarrow>
    plugin_step zs av ver tip api allowed x (x\<lparr>pg_vm := (pg_vm x)\<lparr>vm_store := s\<rparr>, pg_compactor := pc\<rparr>)"
| compact_again: "pg_compactor x = CReturned b \<Longrightarrow>
    plugin_step zs av ver tip api allowed x (x\<lparr>pg_compactor := CIdle\<rparr>)"
| index: "pg_accept x = AIdle \<Longrightarrow> unat (tip (pg_db x)) < last_batched \<Longrightarrow>
    accept_begin (VersionDBStorage av) api (tip (pg_db x) + 1) (pg_vm x) = (r, a, vm) \<Longrightarrow>
    plugin_step zs av ver tip api allowed x (x\<lparr>pg_vm := vm, pg_accept := a\<rparr>)"
| commit: "pg_accept x = AInner height fresh \<Longrightarrow>
    accept_end (inner_accept ver) height fresh (pg_vm x) = (None, vm) \<Longrightarrow>
    plugin_step zs av ver tip api allowed x (x\<lparr>pg_vm := vm, pg_accept := AIdle\<rparr>)"
| abort: "allowed (pg_compactor x) \<Longrightarrow> pg_accept x = AInner height fresh \<Longrightarrow>
    accept_end (inner_accept ver) height fresh (pg_vm x) = (Some err, vm) \<Longrightarrow>
    plugin_step zs av ver tip api allowed x (x\<lparr>pg_vm := vm, pg_accept := AIdle\<rparr>)"
| restart: "opened_store env = Inr (NewVersionDBStorage av (ver_reopen ver (pg_db x))) \<Longrightarrow>
    CurrentBlock env = Some (tip (pg_db x)) \<Longrightarrow>
    Initialize (VersionDBStorage av) env = Inr vm \<Longrightarrow>
    plugin_step zs av ver tip api allowed x \<lparr>pg_vm = vm, pg_compactor = CIdle, pg_accept = AIdle\<rparr>"

inductive_cases plugin_stepE: "plugin_step zs av ver tip api allowed x y"

text \<open>The points at which a failing acceptance loses nothing: not between the save of a batch and the
  deletion of its blocks.\<close>

fun safe_point :: "cpc \<Rightarrow> bool" where
  "safe_point (CSaved lo) = False"
| "safe_point (CMeta lo) = False"
| "safe_point pc = True"

abbreviation plugin_runs ::
  "'w zstd \<Rightarrow> ('db, 'batch) avadb \<Rightarrow> 'db versioned \<Rightarrow> ('db \<Rightarrow> u64) \<Rightarrow> ('blk, 'rc, 'tr) chain_api \<Rightarrow>
    'db plugin \<Rightarrow> 'db plugin \<Rightarrow> bool" where
  "plugin_runs zs av ver tip api \<equiv> (plugin_step zs av ver tip api safe_point)\<^sup>*\<^sup>*"

subsection \<open>The invariant\<close>

text \<open>
  What is durable holds the chain up to the accepted height; what is visible is one block ahead
  while a block is being accepted.  The cached latest block may stay one ahead after a failure.
\<close>

definition visible_tip :: "('db \<Rightarrow> u64) \<Rightarrow> 'db plugin \<Rightarrow> nat" where
  "visible_tip tip x = unat (tip (pg_db x)) + (case pg_accept x of AIdle \<Rightarrow> 0 | AInner h fresh \<Rightarrow> 1)"

definition cached_tip :: "'db plugin \<Rightarrow> nat" where
  "cached_tip x = unat (latest_cache (vm_store (pg_vm x)))"

definition plugin_ok ::
  "('db \<Rightarrow> (bytes \<rightharpoonup> bytes)) \<Rightarrow> ('db \<Rightarrow> (bytes \<rightharpoonup> bytes)) \<Rightarrow> ('db \<Rightarrow> u64) \<Rightarrow> 'w zstd \<Rightarrow> (u64 \<Rightarrow> bytes) \<Rightarrow>
    'db plugin \<Rightarrow> bool" where
  "plugin_ok content durable tip zs chain x \<longleftrightarrow>
     well_keyed (content (pg_db x)) \<and> well_keyed (durable (pg_db x)) \<and>
     holds_upto zs chain (kv_abs (durable (pg_db x))) (unat (tip (pg_db x))) \<and>
     holds_upto zs chain (kv_abs (content (pg_db x))) (visible_tip tip x) \<and>
     lastIndexedHeight (pg_vm x) = tip (pg_db x) \<and>
     (\<forall>h fresh. pg_accept x = AInner h fresh \<longrightarrow> fresh \<and> unat h = Suc (unat (tip (pg_db x)))) \<and>
     visible_tip tip x \<le> cached_tip x \<and> cached_tip x \<le> Suc (unat (tip (pg_db x))) \<and>
     cached_tip x \<le> last_batched \<and>
     cpc_ok zs chain (kv_abs (content (pg_db x))) (cached_tip x) (pg_compactor x)"

lemma plugin_okD:
  assumes "plugin_ok content durable tip zs chain x"
  shows "well_keyed (content (pg_db x))" "well_keyed (durable (pg_db x))"
    "holds_upto zs chain (kv_abs (durable (pg_db x))) (unat (tip (pg_db x)))"
    "holds_upto zs chain (kv_abs (content (pg_db x))) (visible_tip tip x)"
    "lastIndexedHeight (pg_vm x) = tip (pg_db x)"
    "\<And>h fresh. pg_accept x = AInner h fresh \<Longrightarrow> fresh \<and> unat h = Suc (unat (tip (pg_db x)))"
    "visible_tip tip x \<le> cached_tip x" "cached_tip x \<le> Suc (unat (tip (pg_db x)))"
    "cached_tip x \<le> last_batched"
    "cpc_ok zs chain (kv_abs (content (pg_db x))) (cached_tip x) (pg_compactor x)"
  using assms by (simp_all add: plugin_ok_def)

lemma cpc_ok_safe_point:
  "safe_point pc \<Longrightarrow> cpc_ok zs chain a u pc \<Longrightarrow> cpc_ok zs chain b u pc"
  by (cases pc) (simp_all add: cpc_ok_def)

lemma tip_Suc:
  assumes "unat (n :: u64) < last_batched"
  shows "unat (n + 1) = Suc (unat n)"
  using assms unat_add_u64 [of n 1] by simp

context versioned_laws
begin

text \<open>The compactor writes to the visible data only.\<close>

lemma cstep_pending:
  assumes "cstep zs (VersionDBStorage av) (pc, s) = (pc', s')"
  shows "durable (vdb s') = durable (vdb s) \<and> tip (vdb s') = tip (vdb s) \<and> latest_cache s' = latest_cache s"
proof (cases pc)
  case (CCompressed lo z)
  obtain w db where w: "av_put av (vdb s) (batchKey lo (BatchEnd lo)) z = (w, db)" by fastforce
  with CCompressed assms put_pending [OF w] show ?thesis
    by (auto simp: VersionDB_SaveBatch_def split: option.splits)
next
  case (CSaved lo)
  obtain w db where w: "av_put av (vdb s) metaKey (PutUint64 (BatchEnd lo)) = (w, db)" by fastforce
  with CSaved assms put_pending [OF w] show ?thesis
    by (auto simp: VersionDB_SaveMeta_def split: option.splits)
next
  case (CMeta lo)
  then have "s' = snd (VersionDB_DeleteBlockRange av s lo (BatchEnd lo))"
    using assms by (auto split: prod.splits)
  then show ?thesis
    using write_pending by (auto simp: VersionDB_DeleteBlockRange_def split: option.split prod.split)
qed (use assms in \<open>auto split: option.splits sum.splits if_splits\<close>)

lemma accept_end_db:
  assumes "accept_end (inner_accept ver) h fresh vm0 = (r, vm)"
  obtains db where "ver_accept ver h (vdb (vm_store vm0)) = (r, db)" "vm_store vm = (vm_store vm0)\<lparr>vdb := db\<rparr>"
    "lastIndexedHeight vm = (if r = None \<and> fresh then h else lastIndexedHeight vm0)"
proof -
  obtain r' db where acc: "ver_accept ver h (vdb (vm_store vm0)) = (r', db)" by fastforce
  then show ?thesis using assms that [of db]
    by (cases r') (auto simp: accept_end_def inner_accept_def split: if_splits)
qed

text \<open>Indexing the next block fails without a change, or puts the block into the visible data.\<close>

lemma accept_begin_cases:
  assumes "accept_begin (VersionDBStorage av) api h vm0 = (r, a, vm)" "well_keyed (content (vdb (vm_store vm0)))"
    and "\<not> h \<le> lastIndexedHeight vm0"
  obtains (failed) "vm = vm0" "a = AIdle"
  | (indexed) data s where "normalized_data api h = Inr data" "vm_store vm = s" "a = AInner h True"
      "lastIndexedHeight vm = lastIndexedHeight vm0"
      "kv_abs (content (vdb s)) = put_block h data (kv_abs (content (vdb (vm_store vm0))))"
      "well_keyed (content (vdb s))" "durable (vdb s) = durable (vdb (vm_store vm0))"
      "tip (vdb s) = tip (vdb (vm_store vm0))" "latest_cache s = raise_to (latest_cache (vm_store vm0)) h"
proof (cases "normalized_data api h")
  case (Inl err)
  then show thesis using failed assms(1,3) by (auto simp: accept_begin_def indexBlock_def)
next
  case (Inr data)
  obtain w s where w: "VersionDB_SaveBlock av (vm_store vm0) h data = (w, s)" by fastforce
  have "w = None" using store.SaveBlock_total [OF assms(2), of h data] w by simp
  note sb = SaveBlock_pending [OF w]
  show thesis
  proof (rule indexed [OF Inr])
    show "vm_store vm = s" "lastIndexedHeight vm = lastIndexedHeight vm0" "a = AInner h True"
      using assms(1,3) Inr w \<open>w = None\<close> by (auto simp: accept_begin_def indexBlock_def)
    show "latest_cache s = raise_to (latest_cache (vm_store vm0)) h"
      using w \<open>w = None\<close> by (auto simp: VersionDB_SaveBlock_def split: option.splits prod.splits)
    show "kv_abs (content (vdb s)) = put_block h data (kv_abs (content (vdb (vm_store vm0))))"
      using sb(3) [OF \<open>w = None\<close>] by (simp add: kv_abs_block)
    show "well_keyed (content (vdb s))"
      using store.SaveBlock_law [OF assms(2), of h data w s] w by simp
  qed (rule sb(1,2))+
qed

end

locale running_plugin = versioned_laws av content deletes ver durable tip + zstd_laws zs written
  for av :: "('db, 'batch) avadb" and content :: "'db \<Rightarrow> (bytes \<rightharpoonup> bytes)" and deletes :: "'batch \<Rightarrow> bytes list"
    and ver :: "'db versioned" and durable :: "'db \<Rightarrow> (bytes \<rightharpoonup> bytes)" and tip :: "'db \<Rightarrow> u64"
    and zs :: "'w zstd" and written :: "'w \<Rightarrow> bytes" +
  fixes chain :: "u64 \<Rightarrow> bytes" and api :: "('blk, 'rc, 'tr) chain_api"
  assumes plugin_chain: "valid_chain chain" and faithful: "api_faithful api chain"

sublocale running_plugin \<subseteq> compacting: chain_store "VersionDBStorage av" "vdb_abs content" "vdb_inv content"
  zs written chain
  by unfold_locales (rule plugin_chain)

context running_plugin
begin

lemma compact_ok:
  assumes ok: "plugin_ok content durable tip zs chain x"
    and step: "cstep zs (VersionDBStorage av) (pg_compactor x, vm_store (pg_vm x)) = (pc, s)"
  shows "plugin_ok content durable tip zs chain (x\<lparr>pg_vm := (pg_vm x)\<lparr>vm_store := s\<rparr>, pg_compactor := pc\<rparr>)"
proof -
  note D = plugin_okD [OF ok]
  note p = cstep_pending [OF step]
  have "unat l = cached_tip x" if "LatestBlock (VersionDBStorage av) (vm_store (pg_vm x)) = Some l" for l
    using that by (auto simp: VersionDB_LatestBlock_def Let_def cached_tip_def split: if_splits)
  then have "well_keyed (content (vdb s)) \<and>
      holds_upto zs chain (kv_abs (content (vdb s))) (visible_tip tip x) \<and>
      cpc_ok zs chain (kv_abs (content (vdb s))) (cached_tip x) pc"
    using compacting.cstep_ok [OF _ _ _ D(7) _ D(9) _ step] D by (simp add: visible_tip_def)
  then show ?thesis
    using ok p by (auto simp: plugin_ok_def visible_tip_def cached_tip_def)
qed

lemma index_ok:
  assumes ok: "plugin_ok content durable tip zs chain x" and idle: "pg_accept x = AIdle"
    and room: "unat (tip (pg_db x)) < last_batched"
    and step: "accept_begin (VersionDBStorage av) api (tip (pg_db x) + 1) (pg_vm x) = (r, a, vm)"
  shows "plugin_ok content durable tip zs chain (x\<lparr>pg_vm := vm, pg_accept := a\<rparr>)"
proof -
  note D = plugin_okD [OF ok]
  let ?h = "tip (pg_db x) + 1"
  note h = tip_Suc [OF room]
  have fresh: "\<not> ?h \<le> lastIndexedHeight (pg_vm x)" using h D(5) by (simp add: u64_le_iff)
  from step D(1) fresh show ?thesis
  proof (cases rule: accept_begin_cases)
    case failed
    then show ?thesis using ok idle by (simp add: plugin_ok_def visible_tip_def cached_tip_def)
  next
    case (indexed data s)
    then have c: "kv_abs (content (vdb s)) = put_block ?h (chain ?h) (kv_abs (content (pg_db x)))"
      using faithful by (simp add: api_faithful_def)
    have u: "unat (latest_cache s) = Suc (unat (tip (pg_db x)))"
      using D(8) h by (auto simp: indexed raise_to_max cached_tip_def max_def u64_simps)
    have vis: "visible_tip tip x = unat (tip (pg_db x))" using idle by (simp add: visible_tip_def)
    have upto: "holds_upto zs chain (kv_abs (content (vdb s))) (Suc (unat (tip (pg_db x))))"
      using holds_upto_put_block [OF D(4) plugin_chain, of ?h] h room by (simp add: c vis)
    have "cached_tip x \<le> unat (latest_cache s)" using D(8) u by simp
    then have "cpc_ok zs chain (kv_abs (content (vdb s))) (unat (latest_cache s)) (pg_compactor x)"
      by (rule cpc_ok_mono [OF D(10)]) (simp add: c)
    with upto u room D h indexed show ?thesis
      by (simp add: plugin_ok_def visible_tip_def cached_tip_def)
  qed
qed

lemma commit_ok:
  assumes ok: "plugin_ok content durable tip zs chain x" and acc: "pg_accept x = AInner h fresh"
    and step: "accept_end (inner_accept ver) h fresh (pg_vm x) = (None, vm)"
  shows "plugin_ok content durable tip zs chain (x\<lparr>pg_vm := vm, pg_accept := AIdle\<rparr>)"
proof -
  note D = plugin_okD [OF ok]
  obtain db where db: "ver_accept ver h (pg_db x) = (None, db)" "vm_store vm = (vm_store (pg_vm x))\<lparr>vdb := db\<rparr>"
    "lastIndexedHeight vm = (if fresh then h else lastIndexedHeight (pg_vm x))"
    using accept_end_db [OF step] by auto
  note new = accept_commits [OF db(1)]
  have "visible_tip tip x = unat h" using D(6) [OF acc] acc by (simp add: visible_tip_def)
  then show ?thesis using D D(6) [OF acc] new db(2,3)
    by (simp add: plugin_ok_def visible_tip_def cached_tip_def)
qed

lemma abort_ok:
  assumes ok: "plugin_ok content durable tip zs chain x" and acc: "pg_accept x = AInner h fresh"
    and pc: "safe_point (pg_compactor x)"
    and step: "accept_end (inner_accept ver) h fresh (pg_vm x) = (Some err, vm)"
  shows "plugin_ok content durable tip zs chain (x\<lparr>pg_vm := vm, pg_accept := AIdle\<rparr>)"
proof -
  note D = plugin_okD [OF ok]
  obtain db where db: "ver_accept ver h (pg_db x) = (Some err, db)"
    "vm_store vm = (vm_store (pg_vm x))\<lparr>vdb := db\<rparr>" "lastIndexedHeight vm = lastIndexedHeight (pg_vm x)"
    using accept_end_db [OF step] by auto
  note new = accept_aborts [OF db(1)]
  show ?thesis using D new db(2,3) acc cpc_ok_safe_point [OF pc D(10)]
    by (simp add: plugin_ok_def visible_tip_def cached_tip_def)
qed

text \<open>A restart finds exactly the accepted height, whatever the compactor has done before.\<close>

lemma restored_upto:
  assumes "well_keyed (content db)" "holds_upto zs chain (kv_abs (content db)) (unat t)"
  shows "latest_cache (NewVersionDBStorage av db) = t"
    "restored_height (VersionDBStorage av) (NewVersionDBStorage av db) = t"
proof -
  let ?s = "NewVersionDBStorage av db"
  have vdb: "vdb ?s = db" by (simp add: NewVersionDBStorage_def)
  note H = holds_uptoD [OF assms(2)]
  have cache: "cache_right content ?s" by (rule new_cache_right [OF assms(1)])
  show c: "latest_cache ?s = t"
  proof (cases "t = 0")
    case True
    then have "dom (blocks (kv_abs (content db))) = {}"
      using holds_upto_block [OF assms(2) plugin_chain] by fastforce
    then show ?thesis using cache True by (auto simp: cache_right_def vdb)
  next
    case False
    then have "t \<in> dom (blocks (kv_abs (content db)))" using H(4) by (auto simp: u64_eq_iff)
    moreover have "n \<le> t" if "n \<in> dom (blocks (kv_abs (content db)))" for n
      using holds_upto_block(2) [OF assms(2) plugin_chain that] by (simp add: u64_le_iff)
    ultimately show ?thesis using cache unfolding cache_right_def vdb by (metis antisym empty_iff)
  qed
  have "VersionDB_GetMeta av ?s \<le> t"
    using store.GetMeta_complete [of ?s] assms(1) H(6) by (simp add: vdb u64_le_iff)
  then show "restored_height (VersionDBStorage av) ?s = t"
    using c by (auto simp: restored_height_def VersionDB_LatestBlock_def word_gt_0 Let_def)
qed

lemma restart_ok:
  assumes ok: "plugin_ok content durable tip zs chain x"
    and env: "opened_store env = Inr (NewVersionDBStorage av (ver_reopen ver (pg_db x)))"
      "CurrentBlock env = Some (tip (pg_db x))"
  shows "Initialize (VersionDBStorage av) env = Inr vm \<Longrightarrow>
      plugin_ok content durable tip zs chain \<lparr>pg_vm = vm, pg_compactor = CIdle, pg_accept = AIdle\<rparr> \<and>
      vm_server vm = Some (tip (pg_db x))"
    "allowedChainID env = ChainID env \<Longrightarrow> ChainID env \<noteq> [] \<Longrightarrow> inner_init env = None \<Longrightarrow> eth_found env \<Longrightarrow>
      listen env = Inr addr \<Longrightarrow> \<exists>vm. Initialize (VersionDBStorage av) env = Inr vm"
proof -
  let ?db = "ver_reopen ver (pg_db x)" and ?t = "tip (pg_db x)"
  note D = plugin_okD [OF ok]
  have r: "content ?db = durable (pg_db x)" "durable ?db = durable (pg_db x)" "tip ?db = ?t"
    using reopen_law by auto
  have d: "well_keyed (content ?db)" "holds_upto zs chain (kv_abs (content ?db)) (unat ?t)"
    using D r by simp_all
  note new = restored_upto [OF d]
  have vdb: "vdb (NewVersionDBStorage av ?db) = ?db" by (simp add: NewVersionDBStorage_def)
  have t: "unat ?t \<le> last_batched" using holds_uptoD(3) [OF D(3)] .
  show "plugin_ok content durable tip zs chain \<lparr>pg_vm = vm, pg_compactor = CIdle, pg_accept = AIdle\<rparr> \<and>
      vm_server vm = Some ?t"
    if "Initialize (VersionDBStorage av) env = Inr vm"
  proof -
    have "vm_store vm = NewVersionDBStorage av ?db" "lastIndexedHeight vm = ?t"
      "vm_server vm = Some (if ?t > 0 then UpdateLatestBlock [] 0 ?t else 0)"
      using that env new(2) by (auto simp: Initialize_def Let_def split: if_splits option.splits sum.splits)
    moreover have "(if ?t > 0 then UpdateLatestBlock [] 0 ?t else 0) = ?t"
      by (auto simp: UpdateLatestBlock_def word_gt_0)
    ultimately show ?thesis using d r new(1) t D(3)
      by (simp add: plugin_ok_def visible_tip_def cached_tip_def cpc_ok_def vdb)
  qed
  show "allowedChainID env = ChainID env \<Longrightarrow> ChainID env \<noteq> [] \<Longrightarrow> inner_init env = None \<Longrightarrow> eth_found env \<Longrightarrow>
      listen env = Inr addr \<Longrightarrow> \<exists>vm. Initialize (VersionDBStorage av) env = Inr vm"
    using new(2) env by (simp add: Initialize_def Let_def)
qed

lemma step_ok:
  "plugin_step zs av ver tip api safe_point x y \<Longrightarrow> plugin_ok content durable tip zs chain x \<Longrightarrow>
    plugin_ok content durable tip zs chain y"
proof (induction rule: plugin_step.induct)
  case (compact_again x b)
  then show ?case by (auto simp: plugin_ok_def visible_tip_def cached_tip_def cpc_ok_def)
qed (auto intro: compact_ok index_ok commit_ok abort_ok restart_ok(1) [THEN conjunct1])

lemma runs_ok:
  "plugin_runs zs av ver tip api x y \<Longrightarrow> plugin_ok content durable tip zs chain x \<Longrightarrow>
    plugin_ok content durable tip zs chain y"
  by (induction rule: rtranclp_induct) (auto intro: step_ok)

end

subsection \<open>A run on the in-memory database\<close>

lemma running_pluginI:
  assumes "versioned_laws av content deletes ver durable tip" "zstd_laws zs written" "valid_chain chain"
    "api_faithful api chain"
  shows "running_plugin av content deletes ver durable tip zs written chain api"
  using assms by (simp add: running_plugin_def running_plugin_axioms_def)

text \<open>The plugin as \<open>Initialize\<close> leaves it on an empty database.\<close>

definition empty_plugin :: "memver plugin" where
  "empty_plugin = \<lparr>pg_vm = demo_vm, pg_compactor = CIdle, pg_accept = AIdle\<rparr>"

lemma empty_plugin_ok:
  "plugin_ok (\<lambda>x. map_of (fst x)) (\<lambda>x. map_of (fst (snd x))) (\<lambda>x. snd (snd x)) zs chain empty_plugin"
  by (simp add: plugin_ok_def visible_tip_def cached_tip_def empty_plugin_def demo_vm_def kv_abs_empty
      holds_upto_empty cpc_ok_def well_keyed_def)

text \<open>Indexing and accepting the next block.\<close>

definition demo_accept :: "('blk, 'rc, 'tr) chain_api \<Rightarrow> memver plugin \<Rightarrow> memver plugin" where
  "demo_accept api x =
     (case accept_begin (VersionDBStorage memver_avadb) api (snd (snd (pg_db x)) + 1) (pg_vm x) of
        (r, AInner h fresh, vm) \<Rightarrow>
          x\<lparr>pg_vm := snd (accept_end (inner_accept (mem_versioned [])) h fresh vm), pg_accept := AIdle\<rparr>
      | _ \<Rightarrow> x)"

lemma accept_end_memver: "fst (accept_end (inner_accept (mem_versioned [])) h fresh vm) = None"
  by (simp add: accept_end_def inner_accept_def mem_versioned_def split: prod.split)

lemma demo_accept_runs:
  assumes "pg_accept x = AIdle" "unat (snd (snd (pg_db x))) < last_batched"
  shows "plugin_runs zs memver_avadb (mem_versioned []) (\<lambda>x. snd (snd x)) api x (demo_accept api x)"
proof -
  obtain r a vm where ab:
    "accept_begin (VersionDBStorage memver_avadb) api (snd (snd (pg_db x)) + 1) (pg_vm x) = (r, a, vm)"
    by (metis prod.exhaust)
  show ?thesis
  proof (cases a)
    case AIdle
    then show ?thesis using ab by (simp add: demo_accept_def)
  next
    case (AInner h fresh)
    let ?y = "x\<lparr>pg_vm := vm, pg_accept := AInner h fresh\<rparr>"
    let ?fin = "accept_end (inner_accept (mem_versioned [])) h fresh vm"
    have "plugin_step zs memver_avadb (mem_versioned []) (\<lambda>x. snd (snd x)) api safe_point x ?y"
      using plugin_step.index [where tip = "\<lambda>x. snd (snd x)", OF assms ab] AInner by simp
    moreover have "?fin = (None, snd ?fin)" using accept_end_memver by (metis prod.collapse)
    then have "plugin_step zs memver_avadb (mem_versioned []) (\<lambda>x. snd (snd x)) api safe_point ?y
        (?y\<lparr>pg_vm := snd ?fin, pg_accept := AIdle\<rparr>)"
      by (intro plugin_step.commit [where height = h and fresh = fresh]) simp_all
    ultimately show ?thesis using ab AInner by (simp add: demo_accept_def)
  qed
qed

definition demo_plugin :: "memver plugin" where
  "demo_plugin = demo_accept demo_api empty_plugin"

lemma demo_plugin_runs:
  "plugin_runs stored_codec memver_avadb (mem_versioned []) (\<lambda>x. snd (snd x)) demo_api empty_plugin demo_plugin"
  unfolding demo_plugin_def
  by (rule demo_accept_runs) (simp_all add: empty_plugin_def demo_vm_def)

interpretation demo_running: running_plugin memver_avadb "\<lambda>x. map_of (fst x)" "\<lambda>b. b" "mem_versioned failing"
  "\<lambda>x. map_of (fst (snd x))" "\<lambda>x. snd (snd x)" stored_codec "\<lambda>w. w" demo_chain demo_api for failing
  by unfold_locales (simp_all add: demo_chain_valid demo_api_faithful)

subsection \<open>The properties\<close>

text \<open>C15: The plugin keeps the accepted chain readable, with the compactor running beside block
  acceptance: after any sequence of acceptances, failed acceptances, retries, single accesses of the
  compactor and restarts, in which no acceptance fails between the save of a batch and the deletion of
  its blocks, the durable data holds exactly the blocks up to the accepted height, each with its data,
  the visible data holds at least these, and the indexer knows exactly the accepted height.\<close>

theorem plugin_keeps_chain:
  assumes "versioned_laws av content deletes ver durable tip" "zstd_laws zs written" "valid_chain chain"
    and "api_faithful api chain" "plugin_ok content durable tip zs chain x"
    and "plugin_runs zs av ver tip api x y"
  shows "lastIndexedHeight (pg_vm y) = tip (pg_db y) \<and>
    (\<forall>n. view zs (kv_abs (durable (pg_db y))) n =
      (if 1 \<le> n \<and> n \<le> tip (pg_db y) then Some (chain n) else None)) \<and>
    (\<forall>n. 1 \<le> n \<and> n \<le> tip (pg_db y) \<longrightarrow> view zs (kv_abs (content (pg_db y))) n = Some (chain n))"
proof -
  have "plugin_ok content durable tip zs chain y"
    by (rule running_plugin.runs_ok [OF running_pluginI [OF assms(1-4)] assms(6,5)])
  note D = plugin_okD [OF this]
  show ?thesis
    using holds_upto_view [OF D(3)] holds_upto_view [OF D(4)] D(5) by (simp add: visible_tip_def u64_le_iff)
qed

theorem plugin_keeps_chain_witness:
  "lastIndexedHeight (pg_vm demo_plugin) = snd (snd (pg_db demo_plugin))"
  using plugin_keeps_chain [OF memver.versioned_laws_axioms stored_codec.zstd_laws_axioms demo_chain_valid
      demo_api_faithful empty_plugin_ok demo_plugin_runs]
  by blast

text \<open>C16: A restart of the plugin at any time, also in the middle of a compaction or of an acceptance, on the
  allowed chain and with nothing else failing, is never refused for a gap: it restores exactly the
  accepted height, which it announces to its server.\<close>

theorem plugin_restart_finds_no_gap:
  assumes "versioned_laws av content deletes ver durable tip" "zstd_laws zs written" "valid_chain chain"
    and "api_faithful api chain" "plugin_ok content durable tip zs chain x"
    and "plugin_runs zs av ver tip api x y"
    and "opened_store env = Inr (NewVersionDBStorage av (ver_reopen ver (pg_db y)))"
    and "CurrentBlock env = Some (tip (pg_db y))"
    and "allowedChainID env = ChainID env" "ChainID env \<noteq> []" "inner_init env = None" "eth_found env"
    and "listen env = Inr addr"
  shows "\<exists>vm. Initialize (VersionDBStorage av) env = Inr vm \<and>
    lastIndexedHeight vm = tip (pg_db y) \<and> vm_server vm = Some (tip (pg_db y))"
proof -
  note plugin = running_pluginI [OF assms(1-4)]
  have ok: "plugin_ok content durable tip zs chain y" by (rule running_plugin.runs_ok [OF plugin assms(6,5)])
  obtain vm where vm: "Initialize (VersionDBStorage av) env = Inr vm"
    using running_plugin.restart_ok(2) [OF plugin ok assms(7-13)] by blast
  note restarted = running_plugin.restart_ok(1) [OF plugin ok assms(7,8) vm]
  have "vm_store vm = NewVersionDBStorage av (ver_reopen ver (pg_db y))"
    using vm assms(7) by (auto simp: Initialize_def Let_def split: if_splits option.splits sum.splits)
  then show ?thesis
    using vm restarted versioned_laws.reopen_law [OF assms(1)]
    by (simp add: plugin_ok_def NewVersionDBStorage_def)
qed

definition restart_env :: "memver plugin \<Rightarrow> memver vdbs init_env" where
  "restart_env x = \<lparr>allowedChainID = ''C'', ChainID = ''C'', inner_init = None,
     opened_store = Inr (NewVersionDBStorage memver_avadb (ver_reopen (mem_versioned []) (pg_db x))),
     eth_found = True, CurrentBlock = Some (snd (snd (pg_db x))), listen = Inr '':9090''\<rparr>"

theorem plugin_restart_finds_no_gap_witness:
  "\<exists>vm. Initialize (VersionDBStorage memver_avadb) (restart_env demo_plugin) = Inr vm \<and>
    lastIndexedHeight vm = snd (snd (pg_db demo_plugin)) \<and> vm_server vm = Some (snd (snd (pg_db demo_plugin)))"
  by (rule plugin_restart_finds_no_gap [OF memver.versioned_laws_axioms stored_codec.zstd_laws_axioms
        demo_chain_valid demo_api_faithful empty_plugin_ok demo_plugin_runs, where addr = "'':9090''"])
    (simp_all add: restart_env_def)

end
