(* ===== verification/PluginDelivery.thy ===== *)
theory PluginDelivery
  imports Plugin Marshal
begin

section \<open>What a client of the plugin is handed\<close>

text \<open>
  The running plugin, its server and the client library put together: from the blocks of the
  wrapped chain to the structs that the client hands over, while blocks are accepted and the
  compactor works.
\<close>

subsection \<open>The blocks of the wrapped chain\<close>

text \<open>
  The chain is described by functions of the height: the block, its receipts, its traces, and what
  the client library reads as the logs of a receipt and as the traces.  A height that the chain has
  not reached yet, or whose receipts or traces cannot be had, is not answered by the API.
\<close>

record eth_chain =
  ch_block :: "u64 \<Rightarrow> EthBlock"
  ch_receipts :: "u64 \<Rightarrow> EthReceipt list"
  ch_traces :: "u64 \<Rightarrow> json"
  ch_logs :: "u64 \<Rightarrow> nat \<Rightarrow> Log list option"
  ch_results :: "u64 \<Rightarrow> TraceResultOptional list option"

definition indexed_line :: "json_text \<Rightarrow> hexutil \<Rightarrow> sender \<Rightarrow> eth_chain \<Rightarrow> u64 \<Rightarrow> bytes" where
  "indexed_line tx hx sender ch n =
     print tx (the (normalized_block hx sender (ch_block ch n) (ch_receipts ch n) (ch_traces ch n)))"

definition indexable :: "hexutil \<Rightarrow> sender \<Rightarrow> eth_chain \<Rightarrow> bool" where
  "indexable hx sender ch \<longleftrightarrow>
     (\<forall>n. hd_Number (eb_Header (ch_block ch n)) = uint n \<and>
        length (eb_Transactions (ch_block ch n)) < 18446744073709551616 \<and>
        (\<exists>j. normalized_block hx sender (ch_block ch n) (ch_receipts ch n) (ch_traces ch n) = Some j \<and>
           valid_document j) \<and>
        (\<forall>i < length (ch_receipts ch n).
           dec_list dec_Log zero_Log False (er_Logs (ch_receipts ch n ! i)) None = Inr (ch_logs ch n i)) \<and>
        dec_list dec_TraceResultOptional zero_TraceResultOptional False (ch_traces ch n) None =
          Inr (ch_results ch n))"

definition answers ::
  "eth_chain \<Rightarrow> (u64 \<Rightarrow> EthBlock option) \<Rightarrow> (EthBlock \<Rightarrow> EthReceipt list option) \<Rightarrow> (u64 \<Rightarrow> json result) option \<Rightarrow>
    bool" where
  "answers ch get_block get_receipts tracer \<longleftrightarrow>
     (\<forall>n. get_block n \<in> {None, Some (ch_block ch n)} \<and>
        get_receipts (ch_block ch n) \<in> {None, Some (ch_receipts ch n)} \<and>
        (\<forall>trace t. tracer = Some trace \<longrightarrow> trace n = Inr t \<longrightarrow> t = ch_traces ch n))"

text \<open>What the client library makes of a block.\<close>

definition delivered :: "hexutil \<Rightarrow> sender \<Rightarrow> eth_chain \<Rightarrow> u64 \<Rightarrow> NormalizedBlock" where
  "delivered hx sender ch n =
     \<lparr>nb_Block = client_block hx sender (ch_block ch n), nb_Traces = ch_results ch n,
      nb_Receipts = Some (client_receipts hx sender (ch_block ch n) (ch_receipts ch n) (ch_logs ch n))\<rparr>"

lemma answers_faithful:
  assumes "answers ch get_block get_receipts tracer"
  shows "api_faithful (plugin_chain tx hx sender get_block get_receipts tracer) (indexed_line tx hx sender ch)"
  unfolding api_faithful_def
proof (intro allI impI)
  fix n d
  assume ok: "normalized_data (plugin_chain tx hx sender get_block get_receipts tracer) n = Inr d"
  have a: "get_block n \<in> {None, Some (ch_block ch n)}" "get_receipts (ch_block ch n) \<in> {None, Some (ch_receipts ch n)}"
    "\<And>trace t. tracer = Some trace \<Longrightarrow> trace n = Inr t \<Longrightarrow> t = ch_traces ch n"
    using assms by (simp_all add: answers_def)
  from a(1,2) ok show "d = indexed_line tx hx sender ch n"
    by (auto simp: normalized_data_def plugin_chain_def indexed_line_def dest: a(3)
        split: option.splits sum.splits)
qed

lemma indexed_line_valid:
  assumes "json_laws tx" "indexable hx sender ch"
  shows "valid_chain (indexed_line tx hx sender ch)"
proof -
  have "valid_line (indexed_line tx hx sender ch n)" for n
  proof -
    obtain j where "normalized_block hx sender (ch_block ch n) (ch_receipts ch n) (ch_traces ch n) = Some j"
      "valid_document j" using assms(2) unfolding indexable_def by blast
    then show ?thesis using json_laws.print_line [OF assms(1)] by (simp add: indexed_line_def valid_line_def)
  qed
  then show ?thesis by (simp add: valid_chain_def)
qed

lemma indexed_line_decodes:
  assumes "json_laws tx" "hexutil_laws hx" "indexable hx sender ch"
  shows "decodes (unmarshal_block tx) block_number (indexed_line tx hx sender ch) (delivered hx sender ch)"
  unfolding decodes_def
proof
  fix n
  obtain j where j: "normalized_block hx sender (ch_block ch n) (ch_receipts ch n) (ch_traces ch n) = Some j"
    "valid_document j" using assms(3) unfolding indexable_def by blast
  have ch: "hd_Number (eb_Header (ch_block ch n)) = uint n"
    "length (eb_Transactions (ch_block ch n)) < 18446744073709551616"
    "\<And>i. i < length (ch_receipts ch n) \<Longrightarrow>
      dec_list dec_Log zero_Log False (er_Logs (ch_receipts ch n ! i)) None = Inr (ch_logs ch n i)"
    "dec_list dec_TraceResultOptional zero_TraceResultOptional False (ch_traces ch n) None = Inr (ch_results ch n)"
    using assms(3) by (simp_all add: indexable_def)
  note decoded = normalized_block_decodes [OF assms(1,2) ch(1) j ch(2-4)]
  show "unmarshal_block tx (indexed_line tx hx sender ch n) = Inr (delivered hx sender ch n) \<and>
    parseHex (block_number (delivered hx sender ch n)) = Inr n"
    using decoded j(1) by (simp add: indexed_line_def delivered_def block_number_def)
qed

subsection \<open>Connections to the plugin's server\<close>

definition plugin_served ::
  "'w zstd \<Rightarrow> ('db, 'batch) avadb \<Rightarrow> 'db versioned \<Rightarrow> ('db \<Rightarrow> u64) \<Rightarrow> ('blk, 'rc, 'tr) chain_api \<Rightarrow>
    'db plugin \<Rightarrow> session \<Rightarrow> bool" where
  "plugin_served zs av ver tip api x =
     served_by zs (VersionDBStorage av) (\<lambda>s. \<exists>y. plugin_runs zs av ver tip api x y \<and> s = vm_store (pg_vm y))"

sublocale running_plugin \<subseteq> serve: serving "VersionDBStorage av" "vdb_abs content" "vdb_inv content"
  zs written chain
  by unfold_locales (rule plugin_chain)

context running_plugin
begin

lemma plugin_ok_good: "plugin_ok content durable tip zs chain y \<Longrightarrow> serve.good (vm_store (pg_vm y))"
  by (auto simp: serve.good_def dest: plugin_okD(1,4) holds_uptoD(1))

lemma plugin_client_is_served:
  assumes "plugin_ok content durable tip zs chain x" "decodes unm number chain nb_of"
    and "\<forall>s \<in> set ss. plugin_served zs av ver tip api x s" "first \<noteq> 0"
    and "Stream zs unm number reconnect first ss = (packs, pos, e)"
  shows "\<exists>k. concat packs = map (block_of nb_of) (u64_range first k) \<and>
    ((\<forall>err. e \<noteq> Returned err) \<longrightarrow> pos = first + of_nat k)"
proof -
  have good: "serve.good s" if "\<exists>y. plugin_runs zs av ver tip api x y \<and> s = vm_store (pg_vm y)" for s
    using that runs_ok [OF _ assms(1)] plugin_ok_good by blast
  have "\<exists>nxt. carries zs chain c (received (readings s c)) nxt" if "s \<in> set ss" "c \<noteq> 0" for s c
  proof (rule serve.served_by_carries [OF good _ that(2)])
    show "served_by zs (VersionDBStorage av) (\<lambda>s. \<exists>y. plugin_runs zs av ver tip api x y \<and> s = vm_store (pg_vm y)) s"
      using assms(3) that(1) by (simp add: plugin_served_def)
  qed
  then have "consecutive nb_of first packs pos e"
    by (intro Stream_consecutive [OF assms(2) plugin_chain assms(4) _ assms(5)]) auto
  then show ?thesis unfolding consecutive_def by blast
qed

end

text \<open>C12: A client of the running plugin is handed exactly the consecutive blocks of the wrapped chain from the
  one it asked for, none missing, none twice, each with the fields that \<open>marshal.go\<close> wrote for it:
  while blocks are accepted, while acceptances fail outside the dangerous point of a compaction, while
  the compactor moves blocks into batches, and over restarts of the plugin and reconnections.\<close>

theorem plugin_end_to_end:
  assumes "versioned_laws av content deletes ver durable tip" "zstd_laws zs written"
    and "json_laws tx" "hexutil_laws hx" "indexable hx sender ch"
    and "answers ch get_block get_receipts tracer"
    and "plugin_ok content durable tip zs (indexed_line tx hx sender ch) x"
    and "\<forall>s \<in> set ss. plugin_served zs av ver tip (plugin_chain tx hx sender get_block get_receipts tracer) x s"
    and "first \<noteq> 0" "Stream zs (unmarshal_block tx) block_number reconnect first ss = (packs, pos, e)"
  shows "\<exists>k. concat packs = map (\<lambda>n. \<lparr>Number = n, Data = delivered hx sender ch n\<rparr>) (u64_range first k) \<and>
    ((\<forall>err. e \<noteq> Returned err) \<longrightarrow> pos = first + of_nat k)"
proof -
  note plugin = running_pluginI [OF assms(1,2) indexed_line_valid [OF assms(3,5)] answers_faithful [OF assms(6)]]
  from running_plugin.plugin_client_is_served [OF plugin assms(7) indexed_line_decodes [OF assms(3,4,5)] assms(8-10)]
  show ?thesis by (simp add: block_of_def [abs_def])
qed

definition demo_eth_chain :: eth_chain where
  "demo_eth_chain = \<lparr>ch_block = (\<lambda>n. eth_block_at (uint n)), ch_receipts = (\<lambda>n. [demo_eth_receipt]),
     ch_traces = (\<lambda>n. JArr []), ch_logs = (\<lambda>n i. Some []), ch_results = (\<lambda>n. Some [])\<rparr>"

lemma demo_indexable: "indexable demo_hex demo_sender demo_eth_chain"
  unfolding indexable_def
proof (intro allI conjI)
  fix n :: u64
  show "\<exists>j. normalized_block demo_hex demo_sender (ch_block demo_eth_chain n) (ch_receipts demo_eth_chain n)
      (ch_traces demo_eth_chain n) = Some j \<and> valid_document j"
    using demo_normalized [of "uint n"] by (auto simp: demo_eth_chain_def)
qed (simp_all add: demo_eth_chain_def eth_block_at_def demo_header_def demo_eth_receipt_def)

abbreviation demo_plugin_api :: "(EthBlock, EthReceipt, json) chain_api" where
  "demo_plugin_api \<equiv> plugin_chain demo_text demo_hex demo_sender (\<lambda>n. Some (eth_block_at (uint n)))
     (\<lambda>b. Some [demo_eth_receipt]) (Some (\<lambda>n. Inr (JArr [])))"

text \<open>A connection served from the store after the first block was accepted.\<close>

definition plugin_session :: session where
  "plugin_session =
     \<lparr>dial_done = False, dial = None, readings = (\<lambda>c. map
       (\<lambda>f. \<lparr>read_done = False, message = Inr f, handled = None\<rparr>)
       (fst (streamBlocks stored_codec (VersionDBStorage memver_avadb)
         (replicate 3 \<lparr>tick_done = False, at_block = vm_store (pg_vm (demo_accept demo_plugin_api empty_plugin)),
            at_batch = vm_store (pg_vm (demo_accept demo_plugin_api empty_plugin)), write_result = None\<rparr>) c)))\<rparr>"

lemma plugin_session_served:
  "plugin_served stored_codec memver_avadb (mem_versioned []) (\<lambda>x. snd (snd x)) demo_plugin_api empty_plugin
    plugin_session"
proof -
  let ?y = "demo_accept demo_plugin_api empty_plugin"
  let ?t = "\<lparr>tick_done = False, at_block = vm_store (pg_vm ?y), at_batch = vm_store (pg_vm ?y), write_result = None\<rparr>"
  have "plugin_runs stored_codec memver_avadb (mem_versioned []) (\<lambda>x. snd (snd x)) demo_plugin_api empty_plugin ?y"
    by (rule demo_accept_runs) (simp_all add: empty_plugin_def demo_vm_def)
  then show ?thesis unfolding plugin_served_def served_by_def
    by (intro allI impI exI [of _ "replicate 3 ?t"]) (auto simp: plugin_session_def received_all)
qed

theorem plugin_end_to_end_witness:
  "\<exists>packs pos e k. Stream stored_codec (unmarshal_block demo_text) block_number True 1 [plugin_session] =
      (packs, pos, e) \<and>
    concat packs = map (\<lambda>n. \<lparr>Number = n, Data = delivered demo_hex demo_sender demo_eth_chain n\<rparr>) (u64_range 1 k)"
proof -
  obtain packs pos e where st:
    "Stream stored_codec (unmarshal_block demo_text) block_number True 1 [plugin_session] = (packs, pos, e)"
    by (metis prod.exhaust)
  have answers: "answers demo_eth_chain (\<lambda>n. Some (eth_block_at (uint n))) (\<lambda>b. Some [demo_eth_receipt])
      (Some (\<lambda>n. Inr (JArr [])))"
    by (auto simp: answers_def demo_eth_chain_def)
  from plugin_end_to_end [OF memver.versioned_laws_axioms [of "[]"] stored_codec.zstd_laws_axioms
      demo_json.json_laws_axioms demo_hex.hexutil_laws_axioms demo_indexable answers empty_plugin_ok _ _ st]
  obtain k where "concat packs =
      map (\<lambda>n. \<lparr>Number = n, Data = delivered demo_hex demo_sender demo_eth_chain n\<rparr>) (u64_range 1 k)"
    using plugin_session_served by auto
  with st show ?thesis by blast
qed

end
