(* ===== verification/Validate.thy ===== *)
theory Validate
  imports Plugin Marshal
begin

section \<open>The format validation of the plugin\<close>

text \<open>
  \<open>indexing-subnet-evm/validate.go\<close>: after bootstrapping, the plugin means to compare a stored
  block with a fresh one.  The API backend and the tracer are parameters, as are what \<open>encoding/json\<close>
  makes of a number literal that it reads as a \<open>float64\<close> and writes again (\<open>None\<close> when it is out of
  range), its indented form, and the output of \<open>diff\<close>.
\<close>

subsection \<open>Fetching a block from the API\<close>

text \<open>\<open>rpc.BlockNumber\<close> is an \<open>int64\<close>; a nil slice of receipts is the empty one.\<close>

record api_backend =
  BlockByNumber :: "int \<Rightarrow> EthBlock option result"
  BackendReceipts :: "bytes \<Rightarrow> EthReceipt list result"
  TraceBlockByNumber :: "int \<Rightarrow> json result"

text \<open>\<open>None\<close> is the panic of an index out of range.\<close>

definition fetchBlockViaRPC :: "json_text \<Rightarrow> hexutil \<Rightarrow> sender \<Rightarrow> api_backend \<Rightarrow> u64 \<Rightarrow> bytes result option" where
  "fetchBlockViaRPC tx hx sender be height =
     (let blockNum = sint height in
      case BlockByNumber be blockNum of
        Inl err \<Rightarrow> Some (Inl (Wrap ''BlockByNumber'' err))
      | Inr None \<Rightarrow> Some (Inl (Fail ''block not found''))
      | Inr (Some block) \<Rightarrow>
          (case BackendReceipts be (block_hash block) of
             Inl err \<Rightarrow> Some (Inl (Wrap ''GetReceipts'' err))
           | Inr receipts \<Rightarrow>
               (case TraceBlockByNumber be blockNum of
                  Inl err \<Rightarrow> Some (Inl (Wrap ''TraceBlockByNumber'' err))
                | Inr traces \<Rightarrow>
                    (case normalized_block hx sender block receipts traces of
                       None \<Rightarrow> None
                     | Some normalized \<Rightarrow> Some (Inr (print tx normalized))))))"

subsection \<open>Normalizing\<close>

text \<open>
  Reading into an \<open>interface{}\<close> and writing again: an object becomes a map, in which the last of
  equal keys wins and which is written by key; a number becomes a \<open>float64\<close>.
\<close>

fun set_entry :: "string \<Rightarrow> json \<Rightarrow> (string \<times> json) list \<Rightarrow> (string \<times> json) list" where
  "set_entry k v [] = [(k, v)]"
| "set_entry k v ((k', v') # entries) =
     (if k' = k then (k, v) # entries else (k', v') # set_entry k v entries)"

definition map_of_members :: "(string \<times> json) list \<Rightarrow> (string \<times> json) list" where
  "map_of_members kvs = foldl (\<lambda>m (k, v). set_entry k v m) [] kvs"

fun through_interface :: "(string \<Rightarrow> string option) \<Rightarrow> json \<Rightarrow> json option" where
  "through_interface float_text (JNum s) = map_option JNum (float_text s)"
| "through_interface float_text (JArr js) = map_option JArr (those (map (through_interface float_text) js))"
| "through_interface float_text (JObj kvs) =
     map_option (\<lambda>vs. enc_map (map_of_members (zip (map fst kvs) vs)))
       (those (map (\<lambda>(k, v). through_interface float_text v) kvs))"
| "through_interface float_text j = Some j"

definition unmarshal_interface :: "json_text \<Rightarrow> (string \<Rightarrow> string option) \<Rightarrow> bytes \<Rightarrow> json result" where
  "unmarshal_interface tx float_text data =
     (case scan_all tx data of
        Inl err \<Rightarrow> Inl err
      | Inr j \<Rightarrow> (case through_interface float_text j of None \<Rightarrow> Inl cannot_unmarshal | Some v \<Rightarrow> Inr v))"

definition normalizeJSON :: "json_text \<Rightarrow> (string \<Rightarrow> string option) \<Rightarrow> bytes \<Rightarrow> bytes result" where
  "normalizeJSON tx float_text data =
     (case unmarshal_interface tx float_text data of Inl err \<Rightarrow> Inl err | Inr v \<Rightarrow> Inr (print tx v))"

definition prettyJSON :: "json_text \<Rightarrow> (string \<Rightarrow> string option) \<Rightarrow> (json \<Rightarrow> bytes) \<Rightarrow> bytes \<Rightarrow> bytes" where
  "prettyJSON tx float_text indent data =
     (case unmarshal_interface tx float_text data of Inl err \<Rightarrow> data | Inr v \<Rightarrow> indent v)"

definition truncate_text :: "string \<Rightarrow> nat \<Rightarrow> string" where
  "truncate_text s maxLen = (if length s \<le> maxLen then s else take maxLen s @ ''...'')"

subsection \<open>The validation\<close>

text \<open>What the validation of a run comes to, with what it logs and writes to files.\<close>

datatype validation =
  NoIndexedBlocks
| TipNotIndexed u64 u64
| AlreadySynced
| CannotRead error
| FetchFailed error
| CannotNormalizeDB error
| CannotNormalizeRPC error
| Passed u64
| Mismatch u64 bytes bytes string string
| Panics

text \<open>
  The validation runs in a goroutine of its own, so it reads \<open>lastIndexed\<close>, the current block of the
  chain and the store at three different moments.
\<close>

record valid_env =
  ve_text :: json_text
  ve_hex :: hexutil
  ve_sender :: sender
  ve_backend :: api_backend
  ve_float :: "string \<Rightarrow> string option"
  ve_indent :: "json \<Rightarrow> bytes"
  ve_diff :: "bytes \<Rightarrow> bytes \<Rightarrow> string"

definition compare_formats :: "valid_env \<Rightarrow> u64 \<Rightarrow> bytes \<Rightarrow> bytes \<Rightarrow> validation" where
  "compare_formats env height dbData rpcData =
     (case normalizeJSON (ve_text env) (ve_float env) dbData of
        Inl err \<Rightarrow> CannotNormalizeDB err
      | Inr dbNorm \<Rightarrow>
          (case normalizeJSON (ve_text env) (ve_float env) rpcData of
             Inl err \<Rightarrow> CannotNormalizeRPC err
           | Inr rpcNorm \<Rightarrow>
               if dbNorm = rpcNorm then Passed height
               else let dbFile = prettyJSON (ve_text env) (ve_float env) (ve_indent env) dbData;
                        rpcFile = prettyJSON (ve_text env) (ve_float env) (ve_indent env) rpcData;
                        diffOut = ve_diff env rpcFile dbFile
                 in Mismatch height dbFile rpcFile (truncate_text diffOut 1000) (truncate_text diffOut 500)))"

definition validateAfterBootstrap ::
  "valid_env \<Rightarrow> 's Storage \<Rightarrow> u64 \<Rightarrow> u64 option \<Rightarrow> 's \<Rightarrow> validation" where
  "validateAfterBootstrap env S lastIndexed currentBlock s =
     (if lastIndexed = 0 then NoIndexedBlocks
      else (case currentBlock of
              None \<Rightarrow> Panics
            | Some currentHeight \<Rightarrow>
                if currentHeight > lastIndexed then TipNotIndexed currentHeight lastIndexed
                else if currentHeight = lastIndexed then AlreadySynced
                else (case GetBlock S s currentHeight of
                        Inl err \<Rightarrow> CannotRead err
                      | Inr dbData \<Rightarrow>
                          (case fetchBlockViaRPC (ve_text env) (ve_hex env) (ve_sender env) (ve_backend env)
                              currentHeight of
                             None \<Rightarrow> Panics
                           | Some (Inl err) \<Rightarrow> FetchFailed err
                           | Some (Inr rpcData) \<Rightarrow>
                               compare_formats env currentHeight (slice_bytes dbData) rpcData))))"

text \<open>
  \<open>SetState\<close> (vm.go): the error of the wrapped VM, and whether the validation is started; the states
  are those of the consensus engine.
\<close>

definition SetState :: "('state \<Rightarrow> error option) \<Rightarrow> 'state \<Rightarrow> 'state \<Rightarrow> error option \<times> bool" where
  "SetState inner NormalOp state =
     (case inner state of Some err \<Rightarrow> (Some err, False) | None \<Rightarrow> (None, state = NormalOp))"

subsection \<open>What it validates\<close>

text \<open>
  The fetched block is made by the very functions that the indexer uses, so the comparison could
  only find that the chain answers differently at two times, never that the format differs from
  that of the RPC.
\<close>

lemma fetched_is_indexed:
  assumes "normalized_data (plugin_chain tx hx sender get_block get_receipts tracer) height = Inr data"
    and "get_block height = Some b" "BlockByNumber be (sint height) = Inr (Some b)"
    and "get_receipts b = Some receipts" "BackendReceipts be (block_hash b) = Inr receipts"
    and "tracer = Some trace" "trace height = Inr t" "TraceBlockByNumber be (sint height) = Inr t"
  shows "fetchBlockViaRPC tx hx sender be height = Some (Inr data)"
  using assms by (auto simp: normalized_data_def plugin_chain_def fetchBlockViaRPC_def split: option.splits)

lemma own_format_matches:
  "compare_formats env height data data \<in>
    {Passed height} \<union> range CannotNormalizeDB \<union> range CannotNormalizeRPC"
  by (auto simp: compare_formats_def split: sum.split)

context running_plugin
begin

lemma step_tip:
  assumes "plugin_step zs av ver tip api safe_point x y" "plugin_ok content durable tip zs chain x"
  shows "tip (pg_db x) \<le> tip (pg_db y)"
  using assms(1)
proof cases
  case (compact pc s)
  then show ?thesis using cstep_pending [OF compact(2)] by simp
next
  case (index r a vm)
  note D = plugin_okD [OF assms(2)]
  have "\<not> tip (pg_db x) + 1 \<le> lastIndexedHeight (pg_vm x)"
    using tip_Suc [OF index(3)] D(5) by (simp add: u64_le_iff)
  from index(4) D(1) this have "tip (vdb (vm_store vm)) = tip (pg_db x)"
    by (cases rule: accept_begin_cases) simp_all
  then show ?thesis using index(1) by simp
next
  case (commit h fresh vm)
  obtain db where db: "ver_accept ver h (pg_db x) = (None, db)" "vm_store vm = (vm_store (pg_vm x))\<lparr>vdb := db\<rparr>"
    using accept_end_db [OF commit(3)] by metis
  have "unat h = Suc (unat (tip (pg_db x)))" using plugin_okD(6) [OF assms(2) commit(2)] by simp
  then show ?thesis using commit(1) db accept_commits [OF db(1)] by (simp add: u64_le_iff)
next
  case (abort h fresh err vm)
  obtain db where "ver_accept ver h (pg_db x) = (Some err, db)" "vm_store vm = (vm_store (pg_vm x))\<lparr>vdb := db\<rparr>"
    using accept_end_db [OF abort(4)] by metis
  then show ?thesis using abort(1) accept_aborts by simp
next
  case (restart env vm)
  then have "vm_store vm = NewVersionDBStorage av (ver_reopen ver (pg_db x))"
    by (auto simp: Initialize_def Let_def split: if_splits option.splits sum.splits)
  then show ?thesis using restart(1) reopen_law by (simp add: NewVersionDBStorage_def)
qed simp

lemma runs_tip:
  "plugin_runs zs av ver tip api x y \<Longrightarrow> plugin_ok content durable tip zs chain x \<Longrightarrow>
    tip (pg_db x) \<le> tip (pg_db y)"
proof (induction rule: rtranclp_induct)
  case (step y z)
  then show ?case using step_tip runs_ok by (meson order.trans)
qed simp

end

text \<open>C19: The format validation never compares anything: whenever it is started in a run of the plugin, and
  whatever happens between its reads, the current block of the chain is at or above the last indexed
  one (the head of a chain is never below its last accepted block), and in both cases the function
  returns before it reads the store.\<close>

theorem validation_never_compares:
  assumes "versioned_laws av content deletes ver durable tip" "zstd_laws zs written" "valid_chain chain"
    and "api_faithful api chain" "plugin_ok content durable tip zs chain x"
    and "plugin_runs zs av ver tip api x y" "plugin_runs zs av ver tip api y z"
    and "tip (pg_db z) \<le> current"
  shows "validateAfterBootstrap env S (lastIndexedHeight (pg_vm y)) (Some current) s \<in>
    {NoIndexedBlocks, AlreadySynced, TipNotIndexed current (lastIndexedHeight (pg_vm y))}"
proof -
  note plugin = running_pluginI [OF assms(1-4)]
  have ok: "plugin_ok content durable tip zs chain y" by (rule running_plugin.runs_ok [OF plugin assms(6,5)])
  have "lastIndexedHeight (pg_vm y) \<le> current"
    using running_plugin.runs_tip [OF plugin assms(7) ok] plugin_okD(5) [OF ok] assms(8) by simp
  then show ?thesis by (auto simp: validateAfterBootstrap_def)
qed

theorem validation_never_compares_witness:
  "\<forall>env S s. validateAfterBootstrap env S (lastIndexedHeight (pg_vm demo_plugin)) (Some (snd (snd (pg_db demo_plugin)))) s \<in>
    {NoIndexedBlocks, AlreadySynced,
     TipNotIndexed (snd (snd (pg_db demo_plugin))) (lastIndexedHeight (pg_vm demo_plugin))}"
  by (intro allI validation_never_compares [OF memver.versioned_laws_axioms stored_codec.zstd_laws_axioms demo_chain_valid
        demo_api_faithful empty_plugin_ok demo_plugin_runs rtranclp.rtrancl_refl]) simp

end
