(* ===== verification/Startup.thy ===== *)
theory Startup
  imports Upstream
begin

section \<open>The standalone service from its start\<close>

text \<open>
  \<open>evm-ingestion/main.go\<close>: how \<open>main\<close> reads its configuration and builds the parts, and
  \<open>runIngestion\<close>, the loop that resumes, streams and stores, and starts again when a stream ends.
\<close>

subsection \<open>main\<close>

text \<open>
  What \<open>main\<close> meets: the environment variables, the answers of the node to the two requests, the
  store, and the address the server shall listen on.
\<close>

record 's main_env =
  Getenv :: "string \<Rightarrow> string"
  chainID_resp :: "JSONRPCResponse result result"
  blockNumber_resp :: "JSONRPCResponse result"
  unm_string :: "bytes \<Rightarrow> string result"
  open_pebble :: "string \<Rightarrow> 's result"
  listen_tcp :: "string \<Rightarrow> error option"

record 's service =
  sv_store :: 's
  sv_chainID :: string
  sv_evmChainID :: u64
  sv_chainLabel :: string
  sv_controller :: Controller
  sv_tracker :: HeadTracker
  sv_fetcher :: Fetcher
  sv_lookahead :: int
  sv_addr :: string

text \<open>\<open>log.Fatal\<close>, a call that never returns, or the service with its goroutines started.\<close>

datatype 's started = LogFatal error | Blocks | Serves "'s service"

text \<open>\<open>NewFetcher\<close> of rpc/fetcher.go on its \<open>FetcherConfig\<close>; the rest of it is \<open>NewFetcher\<close> of Rpc.\<close>

record FetcherConfig =
  fc_Controller :: Controller
  fc_ChainID :: u64
  fc_ChainName :: string

definition fetcher_of ::
  "(bytes \<Rightarrow> string result) \<Rightarrow> JSONRPCResponse result \<Rightarrow> FetcherConfig \<Rightarrow> (HeadTracker \<times> Fetcher) result" where
  "fetcher_of unm rpcResp cfg =
     (case NewHeadTracker (URL (fc_Controller cfg)) of
        Inl err \<Rightarrow> Inl (Wrap ''failed to create head tracker'' err)
      | Inr headTracker \<Rightarrow>
          (case Start unm rpcResp headTracker of
             Inl err \<Rightarrow> Inl (Wrap ''failed to start head tracker'' err)
           | Inr headTracker \<Rightarrow> Inr (headTracker, NewFetcher (fc_Controller cfg))))"

definition main :: "'s main_env \<Rightarrow> 's started" where
  "main env =
     (let rpcURL = Getenv env ''RPC_URL''; chainID = Getenv env ''CHAIN_ID'' in
      if rpcURL = [] then LogFatal (Fail ''RPC_URL environment variable is required'')
      else if chainID = [] then LogFatal (Fail ''CHAIN_ID environment variable is required (32-byte Avalanche chain ID)'')
      else
        let pebblePath = getEnvOrDefault (Getenv env) ''PEBBLE_PATH'' ''./data/pebble'';
            serverAddr = getEnvOrDefault (Getenv env) ''SERVER_ADDR'' ServerListenAddr;
            maxParallelism = getEnvIntOrDefault (Getenv env) ''MAX_PARALLELISM'' RPCDefaultMaxParallelism;
            lookahead = getEnvIntOrDefault (Getenv env) ''LOOKAHEAD'' 100
        in case fetchChainID (unm_string env) (chainID_resp env) of
             Inl err \<Rightarrow> LogFatal (Wrap ''Failed to fetch chainID from RPC'' err)
           | Inr evmChainID \<Rightarrow>
               (case NewPebbleStorage (open_pebble env) pebblePath of
                  Inl err \<Rightarrow> LogFatal (Wrap ''Failed to open storage'' err)
                | Inr store \<Rightarrow>
                    let chainLabel = ''chain-'' @ dec (unat evmChainID);
                        chainCfg = \<lparr>cfg_ChainID = evmChainID, cfg_Name = chainLabel, cfg_URL = rpcURL,
                          cfg_MaxParallelism = maxParallelism, cfg_MaxLatencyMs = 0\<rparr>
                    in (case NewController chainCfg of
                       None \<Rightarrow> Blocks
                     | Some controller \<Rightarrow>
                         (case fetcher_of (unm_string env) (blockNumber_resp env)
                             \<lparr>fc_Controller = controller, fc_ChainID = evmChainID, fc_ChainName = chainLabel\<rparr> of
                            Inl err \<Rightarrow> LogFatal (Wrap ''Failed to create fetcher'' err)
                          | Inr (tracker, fetcher) \<Rightarrow>
                              (case listen_tcp env serverAddr of
                                 Some err \<Rightarrow> LogFatal (Wrap ''Failed to start server'' err)
                               | None \<Rightarrow> Serves \<lparr>sv_store = store, sv_chainID = chainID,
                                   sv_evmChainID = evmChainID, sv_chainLabel = chainLabel,
                                   sv_controller = controller, sv_tracker = tracker, sv_fetcher = fetcher,
                                   sv_lookahead = lookahead, sv_addr = serverAddr\<rparr>)))))"

subsection \<open>runIngestion\<close>

text \<open>
  One round: whether the context is done when it starts, how many passes the compactor has made
  since the last one, and what the stream meets.
\<close>

record 'nb ingest_round =
  rd_done :: bool
  rd_passes :: nat
  rd_head :: u64
  rd_turns :: "'nb turn list"

text \<open>
  The blocks received in all rounds, the errors of its streams, the store and the server's latest
  block.  A round ends when its stream has ended or a block could not be stored; a stream that has
  done neither after all its turns is still running, and no later round is reached.  \<open>PanicCall\<close> is
  \<open>make(chan)\<close> with a negative capacity, \<open>HangCall\<close> a stream that never comes back from filling its
  window.
\<close>

fun runIngestion ::
  "'w zstd \<Rightarrow> 's Storage \<Rightarrow> ('nb \<Rightarrow> string) \<Rightarrow> ('nb \<Rightarrow> bytes result) \<Rightarrow> int \<Rightarrow> 'nb ingest_round list \<Rightarrow>
    's \<times> u64 \<Rightarrow> ('nb list \<times> error list \<times> 's \<times> u64) called" where
  "runIngestion zs S num marshal lookahead [] st = Returns ([], [], st)"
| "runIngestion zs S num marshal lookahead (r # rs) (s, latest) =
     (if rd_done r then Returns ([], [], s, latest)
      else
        let s = ((\<lambda>s. snd (compactOneBatch zs S s)) ^^ rd_passes r) s;
            currentBlock = resume_block S s s s
        in if lookahead < 0 then PanicCall
           else (case StreamBlocks lookahead currentBlock (rd_head r) (rd_turns r) of
                   None \<Rightarrow> HangCall
                 | Some (err, got, stream) \<Rightarrow>
                     (case ingest_stream S num marshal got currentBlock (s, latest) of
                        (res, st) \<Rightarrow>
                          if err = None \<and> \<not> isl res then Returns (got, [], st)
                          else (case runIngestion zs S num marshal lookahead rs st of
                                  Returns (bs, errs, st') \<Rightarrow>
                                    Returns (got @ bs, (case err of None \<Rightarrow> errs | Some e \<Rightarrow> e # errs), st')
                                | PanicCall \<Rightarrow> PanicCall
                                | HangCall \<Rightarrow> HangCall))))"

text \<open>A round in which the node delivers the chain, and nothing beyond the last full batch.\<close>

definition honest_round :: "(u64 \<Rightarrow> 'nb) \<Rightarrow> 'nb ingest_round \<Rightarrow> bool" where
  "honest_round nb r \<longleftrightarrow>
     unat (rd_head r) < 18446744073709551615 \<and> heads_ok (rd_turns r) \<and>
     (\<forall>t \<in> set (rd_turns r). \<forall>n b. fetched t n = Inr b \<longrightarrow> b = nb n \<and> unat n \<le> last_batched)"

subsection \<open>What the stream sends\<close>

lemma honest_stream:
  fixes r :: "'nb ingest_round"
  assumes "honest_round nb r" "unat cur \<le> Suc last_batched"
  obtains err st k where "StreamBlocks windowSize cur (rd_head r) (rd_turns r) = Some (err, map nb (u64_range cur k), st)"
    "k = 0 \<or> unat cur + k \<le> Suc last_batched"
proof -
  note r = assms(1) [unfolded honest_round_def]
  obtain st0 where st0: "\<And>turns :: 'nb turn list. StreamBlocks windowSize cur (rd_head r) turns = stream_loop windowSize turns st0"
    "window_ok windowSize cur 0 st0" "full windowSize st0"
    by (rule StreamBlocks_start [OF conjunct1 [OF r]]) blast
  obtain err out st where run: "stream_loop windowSize (rd_turns r) st0 = Some (err, out, st)"
    "run_ok windowSize cur 0 (rd_turns r) err out st"
    using stream_loop_ok [OF st0(2,3)] r by blast
  have got: "\<exists>t \<in> set (rd_turns r). fetched t (cur + of_nat i) = Inr (out ! i)" if "i < length out" for i
    using run(2) that by (simp add: run_ok_def)
  have "out ! i = nb (cur + of_nat i)" if "i < length out" for i using got [OF that] r by blast
  then have out: "out = map nb (u64_range cur (length out))" by (intro nth_equalityI) simp_all
  have "unat cur + length out \<le> Suc last_batched" if ne: "length out \<noteq> 0"
  proof -
    let ?i = "length out - 1"
    have fits: "unat cur + length out \<le> 18446744073709551615" using run(2) ne by (simp add: run_ok_def)
    obtain turn where "turn \<in> set (rd_turns r)" "fetched turn (cur + of_nat ?i) = Inr (out ! ?i)"
      using got [of ?i] ne by auto
    then have "unat (cur + of_nat ?i) \<le> last_batched" using r by blast
    moreover have "unat (cur + of_nat ?i) = unat cur + ?i"
      using fits ne by (simp add: unat_add_u64 unat_of_nat_u64)
    ultimately show ?thesis using ne by linarith
  qed
  moreover have "StreamBlocks windowSize cur (rd_head r) (rd_turns r) = Some (err, map nb (u64_range cur (length out)), st)"
    using run(1) st0(1) out by simp
  ultimately show thesis by (intro that) auto
qed

subsection \<open>Rounds\<close>

context pipeline
begin

lemma compact_steps_ok:
  assumes "inv s" "holds_upto zs chain (abs s) t" "cpc_ok zs chain (abs s) t pc"
    and "(cstep zs S ^^ n) (pc, s) = (pc', s')"
  shows "inv s' \<and> holds_upto zs chain (abs s') t \<and> cpc_ok zs chain (abs s') t pc'"
  using assms(4)
proof (induction n arbitrary: pc' s')
  case 0
  with assms(1-3) show ?case by simp
next
  case (Suc n)
  obtain pc1 s1 where one: "(cstep zs S ^^ n) (pc, s) = (pc1, s1)" by fastforce
  then have "cstep zs S (pc1, s1) = (pc', s')" using Suc.prems by simp
  with Suc.IH [OF one] show ?case using compact_ok by blast
qed

text \<open>Any number of passes of the compactor keeps the tip.\<close>

lemma passes_ok:
  assumes "inv s" "holds_upto zs chain (abs s) t"
  shows "inv (((\<lambda>s. snd (compactOneBatch zs S s)) ^^ n) s) \<and>
    holds_upto zs chain (abs (((\<lambda>s. snd (compactOneBatch zs S s)) ^^ n) s)) t"
proof (induction n)
  case (Suc n)
  let ?s = "((\<lambda>s. snd (compactOneBatch zs S s)) ^^ n) s"
  have "(cstep zs S ^^ 106) (CIdle, ?s) = (CReturned (fst (compactOneBatch zs S ?s)), snd (compactOneBatch zs S ?s))"
    by (rule cstep_sequential) simp
  with compact_steps_ok [of ?s t CIdle] Suc show ?case by (auto simp: cpc_ok_def)
qed (use assms in simp)

end

context healthy_pipeline
begin

text \<open>A stream of the following blocks is stored without a break.\<close>

lemma ingest_stream_extends:
  assumes "\<forall>n. parseBlockNumber (num (nb n)) = Inr n \<and> marshal (nb n) = Inr (chain n)"
    and "inv s" "holds_upto zs chain (abs s) t" "unat latest \<le> t" "t + k \<le> last_batched"
  shows "\<exists>s' l. ingest_stream S num marshal (map nb (u64_range (of_nat t + 1) k)) (of_nat t + 1) (s, latest) =
      (Inr (of_nat (t + k) + 1), s', l) \<and> inv s' \<and> holds_upto zs chain (abs s') (t + k) \<and> unat l \<le> t + k"
  using assms(2-5)
proof (induction k arbitrary: t s latest)
  case (Suc k)
  let ?c = "of_nat t + 1 :: u64"
  have c: "unat ?c = Suc t" "of_nat (Suc t) = ?c" using Suc.prems(4) by (simp_all add: unat_add_u64 unat_of_nat_u64 add.commute)
  obtain s1 where s1: "SaveBlock S s ?c (chain ?c) = (None, s1)"
    using SaveBlock_total [OF Suc.prems(1)] by (metis prod.collapse)
  note law = SaveBlock_law [OF Suc.prems(1) s1]
  then have a1: "inv s1" "abs s1 = put_block ?c (chain ?c) (abs s)" by simp_all
  have h1: "holds_upto zs chain (abs s1) (Suc t)"
    using holds_upto_put_block [OF Suc.prems(2) chain, of ?c] Suc.prems(4) c(1) a1(2) by simp
  let ?l = "UpdateLatestBlock [] latest ?c"
  have one: "ingest_block S num marshal [] (nb ?c) ?c (s, latest) = (Inr (?c + 1), s1, ?l)"
    using assms(1) s1 by (simp add: ingest_block_def)
  have l: "unat ?l \<le> Suc t" using Suc.prems(3) c(1) by (auto simp: UpdateLatestBlock_def)
  obtain s' l' where rest: "ingest_stream S num marshal (map nb (u64_range (of_nat (Suc t) + 1) k)) (of_nat (Suc t) + 1) (s1, ?l) =
      (Inr (of_nat (Suc t + k) + 1), s', l')" "inv s'" "holds_upto zs chain (abs s') (Suc t + k)" "unat l' \<le> Suc t + k"
    using Suc.IH [OF a1(1) h1 l] Suc.prems(4) by auto
  have "u64_range ?c (Suc k) = ?c # u64_range (of_nat (Suc t) + 1) k" using c(2) by (simp only: u64_range_Suc)
  with one rest c(2) show ?case by (intro exI [of _ s'] exI [of _ l']) simp
qed simp

lemma runIngestion_extends:
  assumes "\<forall>n. parseBlockNumber (num (nb n)) = Inr n \<and> marshal (nb n) = Inr (chain n)"
    and "0 \<le> lookahead" "\<forall>r \<in> set rounds. honest_round nb r"
    and "inv s" "holds_upto zs chain (abs s) t" "unat latest \<le> t"
  shows "\<exists>k errs s' l. runIngestion zs S num marshal lookahead rounds (s, latest) =
      Returns (map nb (u64_range (of_nat t + 1) k), errs, s', l) \<and>
    inv s' \<and> holds_upto zs chain (abs s') (t + k) \<and> unat l \<le> t + k"
  using assms(3-6)
proof (induction rounds arbitrary: s t latest)
  case Nil
  then show ?case by (intro exI [of _ 0] exI [of _ "[]"] exI [of _ s] exI [of _ latest]) simp
next
  case (Cons r rs)
  show ?case
  proof (cases "rd_done r")
    case True
    with Cons.prems show ?thesis by (intro exI [of _ 0] exI [of _ "[]"] exI [of _ s] exI [of _ latest]) simp
  next
    case False
    define s1 where "s1 = ((\<lambda>s. snd (compactOneBatch zs S s)) ^^ rd_passes r) s"
    have s1: "inv s1" "holds_upto zs chain (abs s1) t"
      using passes_ok [OF Cons.prems(2,3)] by (simp_all add: s1_def)
    let ?cur = "of_nat t + 1 :: u64"
    note t = holds_uptoD(3) [OF Cons.prems(3)]
    have cur: "unat ?cur = Suc t" using t by (simp add: unat_add_u64 unat_of_nat_u64)
    have "honest_round nb r" "unat ?cur \<le> Suc last_batched" using Cons.prems(1) cur t by simp_all
    then obtain err st k where sb:
      "StreamBlocks lookahead ?cur (rd_head r) (rd_turns r) = Some (err, map nb (u64_range ?cur k), st)"
      "k = 0 \<or> unat ?cur + k \<le> Suc last_batched" by (rule honest_stream)
    have "t + k \<le> last_batched" using sb(2) cur t by auto
    from ingest_stream_extends [OF assms(1) s1 Cons.prems(4) this]
    obtain s2 l2 where ing: "ingest_stream S num marshal (map nb (u64_range ?cur k)) ?cur (s1, latest) =
        (Inr (of_nat (t + k) + 1), s2, l2)" "inv s2" "holds_upto zs chain (abs s2) (t + k)" "unat l2 \<le> t + k" by blast
    show ?thesis
    proof (cases err)
      case None
      then have "runIngestion zs S num marshal lookahead (r # rs) (s, latest) =
          Returns (map nb (u64_range ?cur k), [], s2, l2)"
        using False sb(1) ing(1) assms(2) resume_exact [OF s1] by (simp add: Let_def flip: s1_def)
      with ing(2-4) show ?thesis by (intro exI [of _ k] exI [of _ "[]"] exI [of _ s2] exI [of _ l2]) simp
    next
      case (Some e)
      from Cons.IH [OF _ ing(2-4)] Cons.prems(1)
      obtain j errs s' l where rest: "runIngestion zs S num marshal lookahead rs (s2, l2) =
          Returns (map nb (u64_range (of_nat (t + k) + 1) j), errs, s', l)" "inv s'"
        "holds_upto zs chain (abs s') (t + k + j)" "unat l \<le> t + k + j" by auto
      have "u64_range ?cur (k + j) = u64_range ?cur k @ u64_range (of_nat (t + k) + 1) j"
        using u64_range_add [of ?cur k j] by (simp add: ac_simps(2,3))
      then have "runIngestion zs S num marshal lookahead (r # rs) (s, latest) =
          Returns (map nb (u64_range ?cur (k + j)), e # errs, s', l)"
        using False sb(1) ing(1) rest(1) assms(2) resume_exact [OF s1] Some by (simp add: Let_def flip: s1_def)
      then show ?thesis using rest(2-4)
        by (intro exI [of _ "k + j"] exI [of _ "e # errs"] exI [of _ s'] exI [of _ l]) (simp add: add.assoc)
    qed
  qed
qed

end

subsection \<open>The properties\<close>

lemma main_starts:
  assumes "Getenv env ''RPC_URL'' \<noteq> []" "Contains (Getenv env ''RPC_URL'') ''/rpc''" "Getenv env ''CHAIN_ID'' \<noteq> []"
    and "fetchChainID (unm_string env) (chainID_resp env) = Inr n"
    and "open_pebble env (getEnvOrDefault (Getenv env) ''PEBBLE_PATH'' ''./data/pebble'') = Inr store"
    and "getEnvIntOrDefault (Getenv env) ''MAX_PARALLELISM'' RPCDefaultMaxParallelism \<noteq> 1"
    and "fetchBlockNumberRPC (unm_string env) (blockNumber_resp env) = Inr h"
    and "listen_tcp env (getEnvOrDefault (Getenv env) ''SERVER_ADDR'' '':9090'') = None"
  shows "\<exists>sv. main env = Serves sv \<and> sv_evmChainID sv = n"
proof -
  define cfg where "cfg = \<lparr>cfg_ChainID = n, cfg_Name = ''chain-'' @ dec (unat n), cfg_URL = Getenv env ''RPC_URL'',
    cfg_MaxParallelism = getEnvIntOrDefault (Getenv env) ''MAX_PARALLELISM'' RPCDefaultMaxParallelism,
    cfg_MaxLatencyMs = 0\<rparr>"
  obtain c where "NewController cfg = Some c" using NewController_None [of cfg] assms(6) by (auto simp: cfg_def)
  moreover from this have "URL c = Getenv env ''RPC_URL''" by (simp add: NewController_URL cfg_def)
  ultimately show ?thesis using assms
    by (simp add: main_def Let_def fetcher_of_def NewHeadTracker_def Start_def ServerListenAddr_def NewPebbleStorage_def cfg_def)
qed

text \<open>C35: \<open>main\<close> starts the service exactly when RPC_URL and CHAIN_ID are set (README.md of evm-ingestion lists
  RPC_URL alone as required, and its quick start sets nothing else: that is fatal), the node tells
  its chain ID, the store opens, the maximal parallelism is not 1 (for which it blocks for ever), the
  address of the node contains the path /rpc, the node tells its block number and the server can
  listen; a fatal end means that one of these failed.  The started service has the configured
  address, look-ahead and parallelism (200 for one that is not positive), its controller and fetcher
  work on RPC_URL, and its head starts at the number the node told.\<close>

theorem service_starts_iff:
  "(case main env of
      Serves sv \<Rightarrow>
        Getenv env ''RPC_URL'' \<noteq> [] \<and> Contains (Getenv env ''RPC_URL'') ''/rpc'' \<and>
        Getenv env ''CHAIN_ID'' = sv_chainID sv \<and> sv_chainID sv \<noteq> [] \<and>
        fetchChainID (unm_string env) (chainID_resp env) = Inr (sv_evmChainID sv) \<and>
        open_pebble env (getEnvOrDefault (Getenv env) ''PEBBLE_PATH'' ''./data/pebble'') = Inr (sv_store sv) \<and>
        getEnvIntOrDefault (Getenv env) ''MAX_PARALLELISM'' 200 \<noteq> 1 \<and>
        fetchBlockNumberRPC (unm_string env) (blockNumber_resp env) = Inr (headLatest (sv_tracker sv)) \<and>
        listen_tcp env (sv_addr sv) = None \<and> sv_lookahead sv = getEnvIntOrDefault (Getenv env) ''LOOKAHEAD'' 100 \<and>
        sv_addr sv = getEnvOrDefault (Getenv env) ''SERVER_ADDR'' '':9090'' \<and>
        sv_chainLabel sv = ''chain-'' @ dec (unat (sv_evmChainID sv)) \<and>
        URL (sv_controller sv) = Getenv env ''RPC_URL'' \<and>
        max_parallelism (sv_controller sv) =
          (if getEnvIntOrDefault (Getenv env) ''MAX_PARALLELISM'' 200 \<le> 0 then 200
           else getEnvIntOrDefault (Getenv env) ''MAX_PARALLELISM'' 200) \<and>
        sv_fetcher sv = NewFetcher (sv_controller sv)
    | Blocks \<Rightarrow> getEnvIntOrDefault (Getenv env) ''MAX_PARALLELISM'' 200 = 1
    | LogFatal err \<Rightarrow>
        Getenv env ''RPC_URL'' = [] \<or> Getenv env ''CHAIN_ID'' = [] \<or>
        isl (fetchChainID (unm_string env) (chainID_resp env)) \<or>
        isl (open_pebble env (getEnvOrDefault (Getenv env) ''PEBBLE_PATH'' ''./data/pebble'')) \<or>
        (getEnvIntOrDefault (Getenv env) ''MAX_PARALLELISM'' 200 \<noteq> 1 \<and>
          (\<not> Contains (Getenv env ''RPC_URL'') ''/rpc'' \<or>
           isl (fetchBlockNumberRPC (unm_string env) (blockNumber_resp env)) \<or>
           listen_tcp env (getEnvOrDefault (Getenv env) ''SERVER_ADDR'' '':9090'') \<noteq> None)))"
proof -
  have some: "NewController cfg = Some c \<Longrightarrow> cfg_MaxParallelism cfg \<noteq> 1 \<and> URL c = cfg_URL cfg \<and>
      max_parallelism c = (if cfg_MaxParallelism cfg \<le> 0 then 200 else cfg_MaxParallelism cfg)" for cfg c
    using NewController_None [of cfg] NewController_URL [of cfg c] NewController_max [of cfg c] by auto
  show ?thesis
    by (auto simp: main_def Let_def fetcher_of_def NewHeadTracker_def Start_def RPCDefaultMaxParallelism_def ServerListenAddr_def
        NewController_None NewPebbleStorage_def dest!: some split: option.split sum.split prod.split if_split)
qed

definition demo_main_env :: "nat main_env" where
  "demo_main_env =
     \<lparr>Getenv = (\<lambda>k. if k = ''RPC_URL'' then ''http://node/rpc'' else if k = ''CHAIN_ID'' then ''C'' else []),
      chainID_resp = Inr (Inr \<lparr>rs_ID = 1, rs_Result = demo_chain 43114, rs_Error = None\<rparr>),
      blockNumber_resp = Inr \<lparr>rs_ID = 1, rs_Result = demo_chain 7, rs_Error = None\<rparr>,
      unm_string = Inr, open_pebble = (\<lambda>path. Inr (length path)), listen_tcp = (\<lambda>addr. None)\<rparr>"

lemma demo_env:
  "Getenv demo_main_env ''RPC_URL'' = ''http://node/rpc''" "Getenv demo_main_env ''CHAIN_ID'' = ''C''"
  "getEnvOrDefault (Getenv demo_main_env) ''PEBBLE_PATH'' d = d"
  "getEnvIntOrDefault (Getenv demo_main_env) ''LOOKAHEAD'' i = i"
  "open_pebble demo_main_env path = Inr (length path)" "listen_tcp demo_main_env addr = None"
  by (simp_all add: demo_main_env_def getEnvOrDefault_def getEnvIntOrDefault_def)

lemma demo_node:
  "fetchChainID (unm_string demo_main_env) (chainID_resp demo_main_env) = Inr 43114"
  "fetchBlockNumberRPC (unm_string demo_main_env) (blockNumber_resp demo_main_env) = Inr 7"
  "Contains (Getenv demo_main_env ''RPC_URL'') ''/rpc''"
  "getEnvIntOrDefault (Getenv demo_main_env) ''MAX_PARALLELISM'' 200 = 200"
proof -
  have url: "Contains ''http://node/rpc'' ''/rpc''" by code_simp
  have num: "parseBlockNumber (demo_chain n) = Inr n" for n
    using parseBlockNumber_hex by (simp add: demo_chain_def)
  then have "ParseUint (TrimPrefix (demo_chain n) ''0x'') 16 = Inr n" for n
    by (simp add: parseBlockNumber_def Let_def)
  then show "fetchChainID (unm_string demo_main_env) (chainID_resp demo_main_env) = Inr 43114"
    "fetchBlockNumberRPC (unm_string demo_main_env) (blockNumber_resp demo_main_env) = Inr 7"
    using num by (simp_all add: demo_main_env_def fetchChainID_def fetchBlockNumberRPC_def)
  show "Contains (Getenv demo_main_env ''RPC_URL'') ''/rpc''" unfolding demo_env(1) by (rule url)
  show "getEnvIntOrDefault (Getenv demo_main_env) ''MAX_PARALLELISM'' 200 = 200"
    by (simp add: getEnvIntOrDefault_def demo_main_env_def)
qed

theorem service_starts_iff_witness:
  "\<exists>sv. main demo_main_env = Serves sv \<and> sv_evmChainID sv = 43114 \<and> headLatest (sv_tracker sv) = 7 \<and>
    sv_lookahead sv = 100"
  using service_starts_iff [of demo_main_env]
  by (cases "main demo_main_env") (simp_all add: demo_node(1,2,4) demo_env has_prefix_def)

lemma demo_service: "\<exists>sv. main demo_main_env = Serves sv \<and> sv_evmChainID sv = 43114"
  by (rule main_starts [OF _ demo_node(3) _ demo_node(1) demo_env(5) _ demo_node(2) demo_env(6)])
    (simp_all add: demo_env demo_node(4) RPCDefaultMaxParallelism_def)

text \<open>C7: The ingestion loop extends the chain without gaps over any number of rounds: however its streams
  end, and however many passes the compactor makes in between, it resumes each time exactly after
  the last block it has stored, receives each block once and in order, and stores it.\<close>

theorem ingestion_extends_chain:
  assumes "healthy_pebble pb content" "healthy_zstd zs written" "valid_chain chain"
    and "\<forall>n. parseBlockNumber (num (nb n)) = Inr n \<and> marshal (nb n) = Inr (chain n)"
    and "well_keyed (content db)" "holds_upto zs chain (kv_abs (content db)) t" "unat latest \<le> t"
    and "0 \<le> lookahead" "\<forall>r \<in> set rounds. honest_round nb r"
  shows "\<exists>k errs db' l. runIngestion zs (PebbleStorage pb) num marshal lookahead rounds (db, latest) =
      Returns (map nb (u64_range (of_nat t + 1) k), errs, db', l) \<and>
    well_keyed (content db') \<and> holds_upto zs chain (kv_abs (content db')) (t + k) \<and> unat l \<le> t + k"
  using healthy_pipeline.runIngestion_extends [OF healthy_pipelineI [OF assms(1-3)] assms(4,8,9,5-7)] .

definition chain_turn :: "u64 turn" where
  "chain_turn = demo_turn\<lparr>fetched := (\<lambda>n. if unat n \<le> last_batched then Inr n else Inl (Fail ''no block''))\<rparr>"

definition demo_rounds :: "u64 ingest_round list" where
  "demo_rounds = [\<lparr>rd_done = False, rd_passes = 2, rd_head = 5, rd_turns = [chain_turn, chain_turn, demo_turn\<lparr>fetched := (\<lambda>n. Inl (Fail ''timeout''))\<rparr>]\<rparr>,
     \<lparr>rd_done = False, rd_passes = 1, rd_head = 9, rd_turns = [chain_turn, chain_turn]\<rparr>,
     \<lparr>rd_done = True, rd_passes = 0, rd_head = 5, rd_turns = []\<rparr>]"

theorem ingestion_extends_chain_witness:
  "\<exists>k errs db' l. runIngestion stored_codec (PebbleStorage mem_pebble) demo_chain (\<lambda>n. Inr (demo_chain n)) 10 demo_rounds
      (demo_db 4, 4) = Returns (u64_range 5 k, errs, db', l) \<and>
    holds_upto stored_codec demo_chain (kv_abs (map_of db')) (4 + k)"
proof -
  have num: "\<forall>n. parseBlockNumber (demo_chain n) = Inr n \<and> Inr (demo_chain n) = (Inr (demo_chain n) :: bytes result)"
    using parseBlockNumber_hex by (simp add: demo_chain_def)
  have honest: "\<forall>r \<in> set demo_rounds. honest_round (\<lambda>n. n) r"
    by (simp add: demo_rounds_def honest_round_def chain_turn_def demo_turn_def heads_ok_def)
  show ?thesis
    using ingestion_extends_chain [OF mem_pebble.healthy_pebble_axioms stored_codec.healthy_zstd_axioms demo_chain_valid
        num demo_db_keyed demo_db_holds [of 4] _ _ honest, of 4 10] by fastforce
qed

text \<open>With an empty window no round receives a block.\<close>

lemma lookahead_zero_rounds:
  "\<exists>n errs. runIngestion zs S num marshal 0 rounds (s, latest) =
      Returns ([], errs, ((\<lambda>s. snd (compactOneBatch zs S s)) ^^ n) s, latest) \<and> set errs \<subseteq> {ctx_err}"
proof (induction rounds arbitrary: s)
  case Nil
  then show ?case by (intro exI [of _ 0] exI [of _ "[]"]) simp
next
  case (Cons r rs)
  let ?f = "\<lambda>s. snd (compactOneBatch zs S s)"
  let ?s = "(?f ^^ rd_passes r) s"
  obtain st where st: "StreamBlocks 0 (resume_block S ?s ?s ?s) (rd_head r) (rd_turns r) =
      Some (if \<exists>t \<in> set (rd_turns r). ctx_done t then Some ctx_err else None, [], st)"
    using StreamBlocks_zero by blast
  obtain n errs where rest: "runIngestion zs S num marshal 0 rs (?s, latest) = Returns ([], errs, (?f ^^ n) ?s, latest)"
    "set errs \<subseteq> {ctx_err}" using Cons.IH by blast
  consider "rd_done r" | "\<not> rd_done r" "\<exists>t \<in> set (rd_turns r). ctx_done t"
    | "\<not> rd_done r" "\<not> (\<exists>t \<in> set (rd_turns r). ctx_done t)" by blast
  then show ?case
  proof cases
    case 1
    then show ?thesis by (intro exI [of _ 0] exI [of _ "[]"]) simp
  next
    case 2
    with st rest show ?thesis
      by (intro exI [of _ "n + rd_passes r"] exI [of _ "ctx_err # errs"]) (simp add: Let_def funpow_add)
  next
    case 3
    with st show ?thesis by (intro exI [of _ "rd_passes r"] exI [of _ "[]"]) (simp add: Let_def)
  qed
qed

text \<open>C34: The look-ahead is not checked.  With LOOKAHEAD=0 the window of the stream is empty: no block is ever
  received, the announced latest block stays, the compactor alone touches the store, and a stream
  ends with no other error than that of its context.  As long as the context is not done (\<open>main\<close>
  never cancels it), the first round is still running after any number of turns of its stream, with
  no error reported (a stream ends with one only), and no later round is reached.  A negative look-ahead panics in the first round
  whose context is not done.\<close>

theorem lookahead_zero_ingests_nothing:
  "(\<exists>n errs. runIngestion zs S num marshal 0 rounds (s, latest) =
      Returns ([], errs, ((\<lambda>s. snd (compactOneBatch zs S s)) ^^ n) s, latest) \<and> set errs \<subseteq> {ctx_err}) \<and>
    ((\<forall>t \<in> set (rd_turns r). \<not> ctx_done t) \<longrightarrow>
      runIngestion zs S num marshal 0 (r\<lparr>rd_done := False\<rparr> # rounds) (s, latest) =
        Returns ([], [], ((\<lambda>s. snd (compactOneBatch zs S s)) ^^ rd_passes r) s, latest)) \<and>
    runIngestion zs S num marshal (- int (Suc k)) (r\<lparr>rd_done := False\<rparr> # rounds) (s, latest) = PanicCall"
proof -
  let ?f = "\<lambda>s. snd (compactOneBatch zs S s)"
  note lookahead_zero_rounds [of zs S num marshal rounds s latest]
  moreover have "runIngestion zs S num marshal 0 (r\<lparr>rd_done := False\<rparr> # rounds) (s, latest) =
      Returns ([], [], (?f ^^ rd_passes r) s, latest)" if "\<forall>t \<in> set (rd_turns r). \<not> ctx_done t"
  proof -
    let ?s = "(?f ^^ rd_passes r) s"
    obtain st where "StreamBlocks 0 (resume_block S ?s ?s ?s) (rd_head r) (rd_turns r) =
        Some (if \<exists>t \<in> set (rd_turns r). ctx_done t then Some ctx_err else None, [], st)"
      using StreamBlocks_zero by blast
    with that show ?thesis by (simp add: Let_def)
  qed
  ultimately show ?thesis by simp
qed

theorem lookahead_zero_ingests_nothing_witness:
  "runIngestion stored_codec (PebbleStorage mem_pebble) demo_chain (\<lambda>n. Inr (demo_chain n)) 0
      [\<lparr>rd_done = False, rd_passes = 0, rd_head = 9, rd_turns = [chain_turn, chain_turn]\<rparr>] (demo_db 4, 4) =
    Returns ([], [], demo_db 4, 4)"
  using lookahead_zero_ingests_nothing [of stored_codec "PebbleStorage mem_pebble" demo_chain "\<lambda>n. Inr (demo_chain n)"
      "[]" "demo_db 4" 4 "\<lparr>rd_done = False, rd_passes = 0, rd_head = 9, rd_turns = [chain_turn, chain_turn]\<rparr>" 0]
  by (simp add: chain_turn_def demo_turn_def)

end
