(* ===== verification/Lifecycle.thy ===== *)
theory Lifecycle
  imports Service IndexVM
begin

section \<open>Starting and stopping the compactor and the plugin\<close>

text \<open>
  The loop that \<open>Compactor.Start\<close> starts and \<open>Compactor.Stop\<close> ends (evm-ingestion/storage/compactor.go),
  the shutdown of the plugin, which waits for it, and the wrapping of blocks (vm.go, block.go of
  indexing-subnet-evm).
\<close>

subsection \<open>The loop of the compactor\<close>

text \<open>
  What the \<open>select\<close> of \<open>run\<close> takes next: the stop, the end of the context, or a tick, at which the
  store has been changed by the other goroutines and \<open>ctx.Done()\<close> is asked by \<open>compactAll\<close>.
\<close>

datatype 's selected = StopRequested | ContextDone | Tick "nat \<Rightarrow> bool" "'s \<Rightarrow> 's"

text \<open>Whether the loop has ended, and the store; \<open>None\<close> if a pass of \<open>compactAll\<close> does not return.\<close>

fun compactor_run :: "'w zstd \<Rightarrow> 's Storage \<Rightarrow> 's selected list \<Rightarrow> 's \<Rightarrow> (bool \<times> 's) option" where
  "compactor_run zs S [] s = Some (False, s)"
| "compactor_run zs S (StopRequested # es) s = Some (True, s)"
| "compactor_run zs S (ContextDone # es) s = Some (True, s)"
| "compactor_run zs S (Tick ctx_done others # es) s =
     (case compactAll zs S ctx_done 0 (others s) of
        None \<Rightarrow> None
      | Some s' \<Rightarrow> compactor_run zs S es s')"

text \<open>
  \<open>Stop\<close> closes \<open>stopCh\<close> and waits for the loop to end; some ticks may be taken before the stop is.
\<close>

definition Stop :: "'w zstd \<Rightarrow> 's Storage \<Rightarrow> 's selected list \<Rightarrow> 's \<Rightarrow> 's option" where
  "Stop zs S before s =
     (case compactor_run zs S (before @ [StopRequested]) s of
        None \<Rightarrow> None
      | Some (ended, s') \<Rightarrow> if ended then Some s' else None)"

subsection \<open>The shutdown of the plugin\<close>

datatype shutdown_call = StopCompactor | StopServer | CloseStore | ShutdownInner

text \<open>
  The calls made, and the result if \<open>Shutdown\<close> returns.  The compactor is nil before \<open>Initialize\<close> has
  made it; otherwise what matters is whether its \<open>Stop\<close> returns.
\<close>

definition Shutdown ::
  "'s option option \<Rightarrow> bool \<Rightarrow> bool \<Rightarrow> error option \<Rightarrow> shutdown_call list \<times> error option option" where
  "Shutdown compactor server store inner =
     (let rest = (if server then [StopServer] else []) @ (if store then [CloseStore] else []) @ [ShutdownInner] in
      case compactor of
        None \<Rightarrow> (rest, Some inner)
      | Some None \<Rightarrow> ([StopCompactor], None)
      | Some (Some s) \<Rightarrow> (StopCompactor # rest, Some inner))"

subsection \<open>Wrapped blocks\<close>

text \<open>
  The VM hands out the blocks of the wrapped VM as \<open>IndexingBlock\<close>s, so that every \<open>Accept\<close> of the
  consensus engine goes through the indexer; \<open>Reject\<close> and \<open>Verify\<close> are those of the wrapped block.
\<close>

datatype 'b IndexingBlock = IndexingBlock (wrapped: 'b)

definition BuildBlock :: "'b result \<Rightarrow> 'b IndexingBlock result" where
  "BuildBlock inner = (case inner of Inl err \<Rightarrow> Inl err | Inr blk \<Rightarrow> Inr (IndexingBlock blk))"

definition ParseBlock :: "(bytes \<Rightarrow> 'b result) \<Rightarrow> bytes \<Rightarrow> 'b IndexingBlock result" where
  "ParseBlock inner b = (case inner b of Inl err \<Rightarrow> Inl err | Inr blk \<Rightarrow> Inr (IndexingBlock blk))"

definition GetWrappedBlock :: "('id \<Rightarrow> 'b result) \<Rightarrow> 'id \<Rightarrow> 'b IndexingBlock result" where
  "GetWrappedBlock inner ident = (case inner ident of Inl err \<Rightarrow> Inl err | Inr blk \<Rightarrow> Inr (IndexingBlock blk))"

definition Reject :: "('b \<Rightarrow> 's \<Rightarrow> error option \<times> 's) \<Rightarrow> 'b IndexingBlock \<Rightarrow> 's \<Rightarrow> error option \<times> 's" where
  "Reject inner b = inner (wrapped b)"

definition Verify :: "('b \<Rightarrow> 's \<Rightarrow> error option \<times> 's) \<Rightarrow> 'b IndexingBlock \<Rightarrow> 's \<Rightarrow> error option \<times> 's" where
  "Verify inner b = inner (wrapped b)"

subsection \<open>When the compactor stops\<close>

text \<open>
  On a healthy store every pass ends, so the stop is taken after finitely many ticks, as long as
  the other goroutines keep the individual blocks contiguous and aligned.
\<close>

definition compactable :: "('s \<Rightarrow> absstore) \<Rightarrow> ('s \<Rightarrow> bool) \<Rightarrow> ('s \<Rightarrow> bool) \<Rightarrow> 's \<Rightarrow> bool" where
  "compactable absf okf tracked s \<longleftrightarrow>
     okf s \<and> tracked s \<and> sound_blocks (absf s) \<and> (\<exists>lo hi. contiguous (absf s) lo hi \<and> aligned lo)"

lemma compactable_tick:
  assumes "healthy_store S absf okf tracked" "healthy_zstd zs written" "compactable absf okf tracked s"
  shows "\<exists>s'. compactAll zs S (\<lambda>_. False) k s = Some s' \<and> compactable absf okf tracked s'"
proof -
  obtain lo hi where "okf s" "tracked s" "sound_blocks (absf s)" "contiguous (absf s) lo hi" "aligned lo"
    using assms(3) by (auto simp: compactable_def)
  from healthy_compaction.compactAll_total [OF healthy_compactionI [OF assms(1,2)] this, where k = k]
  show ?thesis unfolding compactable_def by blast
qed

lemma Stop_returns:
  assumes "healthy_store S absf okf tracked" "healthy_zstd zs written" "compactable absf okf tracked s"
    and "\<forall>e \<in> set ticks. \<exists>others. e = Tick (\<lambda>_. False) others \<and>
      (\<forall>x. compactable absf okf tracked x \<longrightarrow> compactable absf okf tracked (others x))"
  shows "\<exists>s'. Stop zs S ticks s = Some s' \<and> compactable absf okf tracked s'"
  using assms(3,4)
proof (induction ticks arbitrary: s)
  case (Cons e ticks)
  obtain others where e: "e = Tick (\<lambda>_. False) others" "compactable absf okf tracked (others s)"
    using Cons.prems by auto
  obtain s' where "compactAll zs S (\<lambda>_. False) 0 (others s) = Some s'" "compactable absf okf tracked s'"
    using compactable_tick [OF assms(1,2) e(2)] by blast
  then show ?case using Cons.IH [of s'] Cons.prems(2) e(1) by (simp add: Stop_def)
qed (simp add: Stop_def)

lemma demo_compactable:
  "compactable (\<lambda>s. kv_abs (map_of s)) (\<lambda>s. well_keyed (map_of s)) (\<lambda>_. True) (demo_db 1200)"
proof -
  note d = demo_db_contiguous [of 1200]
  show ?thesis
    unfolding compactable_def using d demo_db_keyed by (intro conjI exI [of _ 1] exI [of _ "of_nat 1200"]) simp_all
qed

text \<open>C21: If deletions fail and everything else works, the plugin cannot be shut down once the compactor has a
  batch to move: \<open>compactAll\<close> never returns, since each pass reports more work, it never looks at
  the stop, and \<open>Shutdown\<close> waits for it for ever, with the server not stopped, the store not
  closed and the wrapped VM not shut down.\<close>

theorem shutdown_hangs_if_deletes_fail:
  fixes err :: error
  assumes "healthy_store S absf okf tracked" "healthy_zstd zs written"
    and "okf (others s)" "tracked (others s)" "sound_blocks (absf (others s))"
    and "contiguous (absf (others s)) lo hi" "aligned lo" "1099 \<le> unat hi - unat lo"
  shows "Shutdown (Some (Stop zs (S\<lparr>DeleteBlockRange := \<lambda>s a b. (Some err, s)\<rparr>) (Tick (\<lambda>_. False) others # later) s))
      server store inner = ([StopCompactor], None)"
proof -
  have "compactAll zs (S\<lparr>DeleteBlockRange := \<lambda>s a b. (Some err, s)\<rparr>) (\<lambda>_. False) 0 (others s) = None"
    by (rule healthy_compaction.compactAll_stuck [OF healthy_compactionI [OF assms(1,2)] assms(3-8)])
  then show ?thesis by (simp add: Stop_def Shutdown_def)
qed

theorem shutdown_hangs_if_deletes_fail_witness:
  "Shutdown (Some (Stop stored_codec
      ((PebbleStorage mem_pebble)\<lparr>DeleteBlockRange := \<lambda>s a b. (Some (Fail ''disk full''), s)\<rparr>)
      [Tick (\<lambda>_. False) (\<lambda>s. s)] (demo_db 1200))) True True None = ([StopCompactor], None)"
proof -
  note d = demo_db_contiguous [of 1200]
  have "1099 \<le> unat (of_nat 1200 :: u64) - unat (1 :: u64)" using d(4) by simp
  from shutdown_hangs_if_deletes_fail [where later = "[]" and others = "\<lambda>s. s" and s = "demo_db 1200",
      OF mem_pebble.refines_healthy stored_codec.healthy_zstd_axioms demo_db_keyed _ d(3,1,2) this]
  show ?thesis by simp
qed

end
