(* ===== verification/LatePlugin.thy ===== *)
theory LatePlugin
  imports Plugin
begin

section \<open>The plugin on a chain that already has blocks\<close>

text \<open>
  \<open>Initialize\<close> (vm.go) refuses a gap between the indexed and the accepted blocks only if something
  was indexed before.  On a chain whose first \<open>t\<close> blocks were accepted without the plugin it starts
  with an empty index; these are the states that follow.
\<close>

subsection \<open>The states\<close>

text \<open>The individual blocks are those after \<open>t\<close> up to \<open>n\<close>, and there is nothing else.\<close>

definition only_after :: "u64 \<Rightarrow> nat \<Rightarrow> absstore \<Rightarrow> bool" where
  "only_after t n a \<longleftrightarrow>
     dom (blocks a) = {m. unat t < unat m \<and> unat m \<le> n} \<and> batches a = Map.empty \<and> meta a = 0"

fun late_pc :: "u64 \<Rightarrow> cpc \<Rightarrow> bool" where
  "late_pc t CIdle = True"
| "late_pc t (CFirst f) = (f = t + 1)"
| "late_pc t (CReading lo bs) = (lo = BatchStart (t + 1) \<and> bs = [])"
| "late_pc t (CReturned b) = True"
| "late_pc t pc = False"

definition late_ok ::
  "('db \<Rightarrow> (bytes \<rightharpoonup> bytes)) \<Rightarrow> ('db \<Rightarrow> (bytes \<rightharpoonup> bytes)) \<Rightarrow> ('db \<Rightarrow> u64) \<Rightarrow> u64 \<Rightarrow> 'db plugin \<Rightarrow> bool" where
  "late_ok content durable tip t x \<longleftrightarrow>
     well_keyed (content (pg_db x)) \<and> well_keyed (durable (pg_db x)) \<and> t \<le> tip (pg_db x) \<and>
     only_after t (unat (tip (pg_db x))) (kv_abs (durable (pg_db x))) \<and>
     only_after t (visible_tip tip x) (kv_abs (content (pg_db x))) \<and>
     lastIndexedHeight (pg_vm x) \<in> {0, tip (pg_db x)} \<and>
     (\<forall>h fresh. pg_accept x = AInner h fresh \<longrightarrow> fresh \<and> unat h = Suc (unat (tip (pg_db x)))) \<and>
     late_pc t (pg_compactor x)"

lemma late_okD:
  assumes "late_ok content durable tip t x"
  shows "well_keyed (content (pg_db x))" "well_keyed (durable (pg_db x))" "t \<le> tip (pg_db x)"
    "only_after t (unat (tip (pg_db x))) (kv_abs (durable (pg_db x)))"
    "only_after t (visible_tip tip x) (kv_abs (content (pg_db x)))"
    "lastIndexedHeight (pg_vm x) \<in> {0, tip (pg_db x)}"
    "\<And>h fresh. pg_accept x = AInner h fresh \<Longrightarrow> fresh \<and> unat h = Suc (unat (tip (pg_db x)))"
    "late_pc t (pg_compactor x)"
  using assms by (simp_all add: late_ok_def)

lemma only_after_empty: "only_after t (unat t) empty_store"
  by (auto simp: only_after_def)

lemma only_after_absent:
  assumes "only_after t n a" "m \<le> t"
  shows "blocks a m = None"
proof -
  have "m \<notin> dom (blocks a)" using assms by (simp add: only_after_def u64_le_iff)
  then show ?thesis by (simp add: domIff)
qed

lemma only_after_put:
  assumes "only_after t (unat n) a" "unat n < last_batched" "t \<le> n"
  shows "only_after t (Suc (unat n)) (put_block (n + 1) d a)"
  using assms tip_Suc [OF assms(2)]
  by (auto simp: only_after_def u64_le_iff le_Suc_eq u64_eq_iff)

context block_store
begin

text \<open>What is below is neither an individual block nor in a batch, so it is never sent.\<close>

lemma below_is_not_sent:
  assumes "inv s1" "inv s2" "only_after t m (abs s1)" "only_after t n (abs s2)" "cur \<le> t"
  shows "next_frame zs S s1 s2 cur = None"
proof -
  have "blocks (abs s1) cur = None" by (rule only_after_absent [OF assms(3,5)])
  then obtain e1 where e1: "GetBlock S s1 cur = Inl e1" using GetBlock_absent [OF assms(1)] by blast
  have "batches (abs s2) (BatchStart cur, BatchStart cur + 99) = None" using assms(4) by (simp add: only_after_def)
  then obtain e2 where "GetBatchCompressed S s2 (BatchStart cur) = Inl e2" using GetBatch_absent [OF assms(2)] by blast
  with e1 show ?thesis by (simp add: next_frame_def Let_def)
qed

lemma first_after:
  assumes "inv s" "only_after t n (abs s)" "unat t < last_batched" "FirstBlock S s = Some f"
  shows "f = t + 1"
proof -
  note F = FirstBlock_sound [OF assms(1,4)]
  have t: "unat (t + 1) = Suc (unat t)" by (rule tip_Suc [OF assms(3)])
  have f: "unat t < unat f" "unat f \<le> n" using F assms(2) by (auto simp: only_after_def)
  then have "t + 1 \<in> dom (blocks (abs s))" using assms(2) t by (simp add: only_after_def)
  then have "f \<le> t + 1" using F by blast
  with f t show ?thesis by (simp add: u64_le_iff u64_eq_iff)
qed

text \<open>The compactor gives up before it writes: the first batch starts below the first block.\<close>

lemma late_cstep:
  assumes "inv s" "only_after t n (abs s)" "unat t < last_batched" "BatchStart (t + 1) \<noteq> t + 1"
    and "late_pc t pc" "cstep zs S (pc, s) = (pc', s')"
  shows "s' = s \<and> late_pc t pc'"
  using assms(5)
proof (cases rule: late_pc.cases [of "(t, pc)"])
  case (3 t' lo bs)
  have "t + 1 \<noteq> 0" using tip_Suc [OF assms(3)] by auto
  then have "BatchStart (t + 1) \<le> t + 1" using BatchStart_le [of "t + 1"] by (simp add: u64_le_iff)
  then have "BatchStart (t + 1) \<le> t" using assms(4) tip_Suc [OF assms(3)] by (auto simp: u64_le_iff u64_eq_iff)
  then have "blocks (abs s) (BatchStart (t + 1)) = None" by (rule only_after_absent [OF assms(2)])
  then obtain e where "GetBlock S s (BatchStart (t + 1)) = Inl e" using GetBlock_absent [OF assms(1)] by blast
  with 3 assms(5,6) show ?thesis by auto
qed (use assms(5,6) first_after [OF assms(1-3)] in
    \<open>auto simp: pick_range_def Let_def split: option.splits if_splits\<close>)

end

subsection \<open>Every step keeps them\<close>

context versioned_laws
begin

lemma late_restored:
  assumes "well_keyed (content db)" "only_after t (unat n) (kv_abs (content db))" "t \<le> n"
  shows "restored_height (VersionDBStorage av) (NewVersionDBStorage av db) \<in> {0, n}"
proof -
  let ?s = "NewVersionDBStorage av db"
  have vdb: "vdb ?s = db" by (simp add: NewVersionDBStorage_def)
  have D: "dom (blocks (kv_abs (content db))) = {m. t < m \<and> m \<le> n}"
    using assms(2) by (simp add: only_after_def u64_simps)
  have "cache_right content ?s" by (rule new_cache_right [OF assms(1)])
  then consider "latest_cache ?s = 0"
    | "t < latest_cache ?s" "latest_cache ?s \<le> n" "\<forall>m. t < m \<and> m \<le> n \<longrightarrow> m \<le> latest_cache ?s"
    unfolding cache_right_def vdb D by blast
  then have "latest_cache ?s \<in> {0, n}"
    using assms(3) by cases (auto intro: antisym)
  moreover have "VersionDB_GetMeta av ?s = 0"
    using store.GetMeta_complete [of ?s] assms(1,2) by (simp add: vdb only_after_def)
  ultimately show ?thesis
    by (auto simp: restored_height_def VersionDB_LatestBlock_def word_gt_0 Let_def)
qed

text \<open>Nothing was indexed, so there is no gap to refuse.\<close>

lemma late_Initialize:
  assumes "well_keyed (content db)" "only_after t (unat t) (kv_abs (content db))"
    and "opened_store env = Inr (NewVersionDBStorage av db)" "CurrentBlock env = Some t"
    and "allowedChainID env = ChainID env" "ChainID env \<noteq> []" "inner_init env = None" "eth_found env"
    and "listen env = Inr addr"
  shows "\<exists>vm. Initialize (VersionDBStorage av) env = Inr vm"
  using late_restored [OF assms(1,2) order_refl] assms(3-9) by (auto simp: Initialize_def Let_def)

lemma late_compact:
  assumes ok: "late_ok content durable tip t x" and t: "unat t < last_batched" "BatchStart (t + 1) \<noteq> t + 1"
    and step: "cstep zs (VersionDBStorage av) (pg_compactor x, vm_store (pg_vm x)) = (pc, s)"
  shows "late_ok content durable tip t (x\<lparr>pg_vm := (pg_vm x)\<lparr>vm_store := s\<rparr>, pg_compactor := pc\<rparr>)"
proof -
  note D = late_okD [OF ok]
  have "s = vm_store (pg_vm x) \<and> late_pc t pc"
    using store.late_cstep [OF _ _ t D(8) step] D(1,5) by simp
  then show ?thesis using ok by (auto simp: late_ok_def visible_tip_def)
qed

lemma late_index:
  assumes ok: "late_ok content durable tip t x" and idle: "pg_accept x = AIdle"
    and room: "unat (tip (pg_db x)) < last_batched"
    and step: "accept_begin (VersionDBStorage av) api (tip (pg_db x) + 1) (pg_vm x) = (r, a, vm)"
  shows "late_ok content durable tip t (x\<lparr>pg_vm := vm, pg_accept := a\<rparr>)"
proof -
  note D = late_okD [OF ok] and h = tip_Suc [OF room]
  have "\<not> tip (pg_db x) + 1 \<le> lastIndexedHeight (pg_vm x)" using D(6) h by (auto simp: u64_le_iff)
  from step D(1) this show ?thesis
  proof (cases rule: accept_begin_cases)
    case failed
    then show ?thesis using ok idle by (simp add: late_ok_def visible_tip_def)
  next
    case (indexed data s)
    have "only_after t (unat (tip (pg_db x))) (kv_abs (content (pg_db x)))"
      using D(5) idle by (simp add: visible_tip_def)
    then have "only_after t (Suc (unat (tip (pg_db x)))) (kv_abs (content (vdb s)))"
      using only_after_put [OF _ room D(3)] by (simp add: indexed)
    with D h indexed show ?thesis by (simp add: late_ok_def visible_tip_def)
  qed
qed

lemma late_commit:
  assumes ok: "late_ok content durable tip t x" and acc: "pg_accept x = AInner h fresh"
    and step: "accept_end (inner_accept ver) h fresh (pg_vm x) = (r, vm)"
  shows "late_ok content durable tip t (x\<lparr>pg_vm := vm, pg_accept := AIdle\<rparr>)"
proof -
  note D = late_okD [OF ok]
  obtain db where db: "ver_accept ver h (pg_db x) = (r, db)" "vm_store vm = (vm_store (pg_vm x))\<lparr>vdb := db\<rparr>"
    "lastIndexedHeight vm = (if r = None \<and> fresh then h else lastIndexedHeight (pg_vm x))"
    using accept_end_db [OF step] by auto
  show ?thesis
  proof (cases r)
    case None
    have "visible_tip tip x = unat h" "t \<le> h" using D(3) D(6) D(7) [OF acc] acc
      by (simp_all add: visible_tip_def u64_le_iff)
    then show ?thesis using None D D(7) [OF acc] accept_commits [OF db(1) [unfolded None]] db(2,3)
      by (simp add: late_ok_def visible_tip_def)
  next
    case (Some err)
    then show ?thesis using D accept_aborts [OF db(1) [unfolded Some]] db(2,3)
      by (simp add: late_ok_def visible_tip_def)
  qed
qed

lemma late_restart:
  assumes db: "well_keyed (durable db)" "only_after t (unat (tip db)) (kv_abs (durable db))" "t \<le> tip db"
    and env: "opened_store env = Inr (NewVersionDBStorage av (ver_reopen ver db))"
    and init: "Initialize (VersionDBStorage av) env = Inr vm"
  shows "late_ok content durable tip t \<lparr>pg_vm = vm, pg_compactor = CIdle, pg_accept = AIdle\<rparr>"
proof -
  let ?db = "ver_reopen ver db"
  have r: "content ?db = durable db" "durable ?db = durable db" "tip ?db = tip db" using reopen_law by auto
  have "restored_height (VersionDBStorage av) (NewVersionDBStorage av ?db) \<in> {0, tip db}"
    using late_restored [of ?db t "tip db"] db r by simp
  moreover have "vm_store vm = NewVersionDBStorage av ?db"
    "lastIndexedHeight vm = restored_height (VersionDBStorage av) (NewVersionDBStorage av ?db)"
    using init env by (auto simp: Initialize_def Let_def split: if_splits option.splits sum.splits)
  moreover have "vdb (NewVersionDBStorage av ?db) = ?db" by (simp add: NewVersionDBStorage_def)
  ultimately show ?thesis using db r by (simp add: late_ok_def visible_tip_def)
qed

lemma late_step:
  assumes t: "unat t < last_batched" "BatchStart (t + 1) \<noteq> t + 1"
  shows "plugin_step zs av ver tip api allowed x y \<Longrightarrow> late_ok content durable tip t x \<Longrightarrow>
    late_ok content durable tip t y"
proof (induction rule: plugin_step.induct)
  case (compact x pc s)
  then show ?case using late_compact [OF _ t] by blast
next
  case (compact_again x b)
  then show ?case by (auto simp: late_ok_def visible_tip_def)
next
  case (restart env x vm)
  note D = late_okD [OF restart.prems]
  show ?case by (rule late_restart [OF D(2,4,3) restart.hyps(1,3)])
qed (auto intro: late_index late_commit)

lemma late_runs:
  assumes "unat t < last_batched" "BatchStart (t + 1) \<noteq> t + 1"
    and "(plugin_step zs av ver tip api allowed)\<^sup>*\<^sup>* x y" "late_ok content durable tip t x"
  shows "late_ok content durable tip t y"
  using assms(3,4) by (induction rule: rtranclp_induct) (auto intro: late_step [OF assms(1,2)])

lemma late_compactOneBatch:
  assumes ok: "late_ok content durable tip t x" and t: "unat t < last_batched" "BatchStart (t + 1) \<noteq> t + 1"
  shows "compactOneBatch zs (VersionDBStorage av) (vm_store (pg_vm x)) = (False, vm_store (pg_vm x))"
proof (cases "FirstBlock (VersionDBStorage av) (vm_store (pg_vm x))")
  case None
  then show ?thesis by (simp add: compactOneBatch_def pick_batch_def Let_def)
next
  case (Some f)
  note D = late_okD [OF ok]
  have "f = t + 1" using store.first_after [OF _ _ t(1) Some] D(1,5) by simp
  moreover from this have "f \<noteq> 0" using tip_Suc [OF t(1)] by auto
  ultimately show ?thesis
    using compaction_needs_alignment [OF store.block_store_axioms _ Some] D(1) t(2) by simp
qed

lemma late_next_frame:
  assumes "late_ok content durable tip t x" "late_ok content durable tip t y" "n \<le> t"
  shows "next_frame zs (VersionDBStorage av) (vm_store (pg_vm x)) (vm_store (pg_vm y)) n = None"
  using late_okD(1,5) [OF assms(1)] late_okD(1,5) [OF assms(2)] by (intro store.below_is_not_sent [OF _ _ _ _ assms(3)])

end

subsection \<open>Nothing is ever served from below\<close>

text \<open>
  A weaker invariant, for any height \<open>t\<close>: what is stored, one by one or in batches, lies above \<open>t\<close>.
  The compactor may run here, and an acceptance may fail at any of its points.
\<close>

definition nothing_below :: "u64 \<Rightarrow> absstore \<Rightarrow> bool" where
  "nothing_below t a \<longleftrightarrow> (\<forall>m \<in> dom (blocks a). t < m \<and> unat m \<le> last_batched) \<and>
     (\<forall>(b, e) \<in> dom (batches a). t < b)"

definition above_pc :: "u64 \<Rightarrow> cpc \<Rightarrow> bool" where
  "above_pc t pc = (case pc of
       CFirst f \<Rightarrow> unat f \<le> last_batched
     | CReading lo bs \<Rightarrow> unat lo + 99 \<le> last_batched \<and> (bs \<noteq> [] \<longrightarrow> t < lo)
     | CCompressed lo z \<Rightarrow> unat lo + 99 \<le> last_batched \<and> t < lo
     | CSaved lo \<Rightarrow> unat lo + 99 \<le> last_batched \<and> t < lo
     | CMeta lo \<Rightarrow> unat lo + 99 \<le> last_batched \<and> t < lo
     | _ \<Rightarrow> True)"

definition above_ok ::
  "('db \<Rightarrow> (bytes \<rightharpoonup> bytes)) \<Rightarrow> ('db \<Rightarrow> (bytes \<rightharpoonup> bytes)) \<Rightarrow> ('db \<Rightarrow> u64) \<Rightarrow> u64 \<Rightarrow> 'db plugin \<Rightarrow> bool" where
  "above_ok content durable tip t x \<longleftrightarrow>
     well_keyed (content (pg_db x)) \<and> well_keyed (durable (pg_db x)) \<and> t \<le> tip (pg_db x) \<and>
     nothing_below t (kv_abs (durable (pg_db x))) \<and> nothing_below t (kv_abs (content (pg_db x))) \<and>
     (\<forall>h fresh. pg_accept x = AInner h fresh \<longrightarrow> t \<le> h) \<and> above_pc t (pg_compactor x)"

lemma above_okD:
  assumes "above_ok content durable tip t x"
  shows "well_keyed (content (pg_db x))" "well_keyed (durable (pg_db x))" "t \<le> tip (pg_db x)"
    "nothing_below t (kv_abs (durable (pg_db x)))" "nothing_below t (kv_abs (content (pg_db x)))"
    "\<And>h fresh. pg_accept x = AInner h fresh \<Longrightarrow> t \<le> h" "above_pc t (pg_compactor x)"
  using assms by (simp_all add: above_ok_def)

lemma nothing_below_simps [simp]:
  "nothing_below t empty_store"
  "nothing_below t (put_meta m a) = nothing_below t a"
  "nothing_below t a \<Longrightarrow> nothing_below t (drop_blocks lo hi a)"
  "nothing_below t a \<Longrightarrow> t < n \<Longrightarrow> unat n \<le> last_batched \<Longrightarrow> nothing_below t (put_block n d a)"
  "nothing_below t a \<Longrightarrow> t < lo \<Longrightarrow> nothing_below t (put_batch lo hi z a)"
  by (auto simp: nothing_below_def dom_drop_blocks)

lemma above_pc_simps [simp]:
  "above_pc t CIdle" "above_pc t (CReturned b)"
  "above_pc t (CFirst f) \<longleftrightarrow> unat f \<le> last_batched"
  "above_pc t (CReading lo bs) \<longleftrightarrow> unat lo + 99 \<le> last_batched \<and> (bs \<noteq> [] \<longrightarrow> t < lo)"
  "above_pc t (CCompressed lo z) \<longleftrightarrow> unat lo + 99 \<le> last_batched \<and> t < lo"
  "above_pc t (CSaved lo) \<longleftrightarrow> unat lo + 99 \<le> last_batched \<and> t < lo"
  "above_pc t (CMeta lo) \<longleftrightarrow> unat lo + 99 \<le> last_batched \<and> t < lo"
  by (simp_all add: above_pc_def)

context block_store
begin

lemma above_read:
  assumes "inv s" "nothing_below t (abs s)" "above_pc t (CReading lo bs)"
    and "cstep zs S (CReading lo bs, s) = (pc', s')"
  shows "s' = s \<and> above_pc t pc'"
proof -
  have "t < lo" if "bs = []" "GetBlock S s lo = Inr (Some d)" for d
    using GetBlock_sound [OF assms(1) that(2)] assms(2) by (force simp: nothing_below_def)
  with assms(3,4) show ?thesis by (auto split: if_splits sum.splits option.splits)
qed

lemma above_cstep:
  assumes "inv s" "nothing_below t (abs s)" "above_pc t pc" "cstep zs S (pc, s) = (pc', s')"
  shows "nothing_below t (abs s') \<and> inv s' \<and> above_pc t pc'"
proof (cases pc)
  case CIdle
  have "unat f \<le> last_batched" if "FirstBlock S s = Some f" for f
    using FirstBlock_sound [OF assms(1) that] assms(2) by (auto simp: nothing_below_def)
  with CIdle assms show ?thesis by (auto split: option.splits)
next
  case (CFirst f)
  then have "unat (BatchStart f) + 99 \<le> last_batched" using assms(3) by (intro BatchStart_fits) simp
  with CFirst assms show ?thesis by (auto simp: pick_range_def Let_def split: option.splits if_splits)
next
  case (CReading lo bs)
  with assms above_read [of s t lo bs] show ?thesis by auto
next
  case (CCompressed lo z)
  obtain r w where w: "SaveBatch S s lo (BatchEnd lo) z = (r, w)" by fastforce
  from SaveBatch_law [OF assms(1) w] CCompressed assms(2,3) have "inv w \<and> nothing_below t (abs w)"
    by (auto simp: write_outcome_def)
  with w CCompressed assms show ?thesis by (auto split: option.splits)
next
  case (CSaved lo)
  obtain r w where w: "SaveMeta S s (BatchEnd lo) = (r, w)" by fastforce
  from SaveMeta_law [OF assms(1) w] assms(2) have "inv w \<and> nothing_below t (abs w)"
    by (auto simp: write_outcome_def)
  with w CSaved assms show ?thesis by (auto split: option.splits)
next
  case (CMeta lo)
  obtain r w where w: "DeleteBlockRange S s lo (BatchEnd lo) = (r, w)" by fastforce
  have e: "unat (BatchEnd lo) = unat lo + 99" using CMeta assms(3) by (intro unat_BatchEnd) simp
  then have "lo \<le> BatchEnd lo" "unat (BatchEnd lo) < 18446744073709551615"
    using CMeta assms(3) by (simp_all add: u64_le_iff)
  from DeleteBlockRange_law [OF assms(1) this w] assms(2) have "inv w \<and> nothing_below t (abs w)"
    by (auto simp: write_outcome_def)
  with w CMeta assms show ?thesis by auto
qed (use assms in auto)

lemma above_is_not_sent:
  assumes "inv s1" "inv s2" "nothing_below t (abs s1)" "nothing_below t (abs s2)" "cur \<le> t" "t \<noteq> 0"
  shows "next_frame zs S s1 s2 cur = None"
proof -
  have "cur \<notin> dom (blocks (abs s1))" using assms(3,5) unfolding nothing_below_def by (meson leD)
  then obtain e1 where e1: "GetBlock S s1 cur = Inl e1" using GetBlock_absent [OF assms(1)] by (auto simp: domIff)
  have "BatchStart cur \<le> t"
    using BatchStart_le [of cur] assms(5,6) by (cases "cur = 0") (auto simp: u64_simps u64_eq_iff)
  then have "\<not> t < BatchStart cur" by simp
  then have "batches (abs s2) (BatchStart cur, BatchStart cur + 99) = None"
    using assms(4) unfolding nothing_below_def by (metis (mono_tags, lifting) case_prodD domIff)
  then obtain e2 where "GetBatchCompressed S s2 (BatchStart cur) = Inl e2" using GetBatch_absent [OF assms(2)] by blast
  with e1 show ?thesis by (simp add: next_frame_def Let_def)
qed

end

context versioned_laws
begin

lemma above_compact:
  assumes ok: "above_ok content durable tip t x"
    and step: "cstep zs (VersionDBStorage av) (pg_compactor x, vm_store (pg_vm x)) = (pc, s)"
  shows "above_ok content durable tip t (x\<lparr>pg_vm := (pg_vm x)\<lparr>vm_store := s\<rparr>, pg_compactor := pc\<rparr>)"
proof -
  note D = above_okD [OF ok] and p = cstep_pending [OF step]
  show ?thesis using store.above_cstep [OF _ _ D(7) step] D p by (auto simp: above_ok_def)
qed

lemma above_index:
  assumes ok: "above_ok content durable tip t x" and idle: "pg_accept x = AIdle"
    and room: "unat (tip (pg_db x)) < last_batched"
    and step: "accept_begin (VersionDBStorage av) api (tip (pg_db x) + 1) (pg_vm x) = (r, a, vm)"
  shows "above_ok content durable tip t (x\<lparr>pg_vm := vm, pg_accept := a\<rparr>)"
proof -
  note D = above_okD [OF ok] and h = tip_Suc [OF room]
  have above: "t < tip (pg_db x) + 1" using D(3) h by (simp add: u64_simps)
  show ?thesis
  proof (cases "tip (pg_db x) + 1 \<le> lastIndexedHeight (pg_vm x)")
    case True
    then have "a = AInner (tip (pg_db x) + 1) False" "vm = pg_vm x" using step by (auto simp: accept_begin_def)
    then show ?thesis using D above by (auto simp: above_ok_def)
  next
    case False
    from step D(1) this show ?thesis
    proof (cases rule: accept_begin_cases)
      case failed
      then show ?thesis using D by (simp add: above_ok_def)
    next
      case (indexed data s)
      then show ?thesis using D above h room by (auto simp: above_ok_def)
    qed
  qed
qed

lemma above_commit:
  assumes ok: "above_ok content durable tip t x" and acc: "pg_accept x = AInner h fresh"
    and step: "accept_end (inner_accept ver) h fresh (pg_vm x) = (r, vm)"
  shows "above_ok content durable tip t (x\<lparr>pg_vm := vm, pg_accept := AIdle\<rparr>)"
proof -
  note D = above_okD [OF ok]
  obtain db where db: "ver_accept ver h (pg_db x) = (r, db)" "vm_store vm = (vm_store (pg_vm x))\<lparr>vdb := db\<rparr>"
    using accept_end_db [OF step] by auto
  then show ?thesis
    using D(1-5,7) D(6) [OF acc] accept_commits [of h "pg_db x" db] accept_aborts [of h "pg_db x" _ db]
    by (cases r) (simp_all add: above_ok_def)
qed

lemma above_restart:
  assumes db: "well_keyed (durable db)" "nothing_below t (kv_abs (durable db))" "t \<le> tip db"
    and env: "opened_store env = Inr (NewVersionDBStorage av (ver_reopen ver db))"
    and init: "Initialize (VersionDBStorage av) env = Inr vm"
  shows "above_ok content durable tip t \<lparr>pg_vm = vm, pg_compactor = CIdle, pg_accept = AIdle\<rparr>"
proof -
  have "vm_store vm = NewVersionDBStorage av (ver_reopen ver db)"
    using init env by (auto simp: Initialize_def Let_def split: if_splits option.splits sum.splits)
  then have "vdb (vm_store vm) = ver_reopen ver db" by (simp add: NewVersionDBStorage_def)
  then show ?thesis using db reopen_law [of db] by (simp add: above_ok_def)
qed

lemma above_step:
  "plugin_step zs av ver tip api allowed x y \<Longrightarrow> above_ok content durable tip t x \<Longrightarrow>
    above_ok content durable tip t y"
proof (induction rule: plugin_step.induct)
  case (compact_again x b)
  then show ?case by (simp add: above_ok_def)
next
  case (restart env x vm)
  note D = above_okD [OF restart.prems]
  show ?case by (rule above_restart [OF D(2,4,3) restart.hyps(1,3)])
qed (auto intro: above_compact above_index above_commit)

lemma above_runs:
  "(plugin_step zs av ver tip api allowed)\<^sup>*\<^sup>* x y \<Longrightarrow> above_ok content durable tip t x \<Longrightarrow>
    above_ok content durable tip t y"
  by (induction rule: rtranclp_induct) (auto intro: above_step)

lemma above_next_frame:
  assumes "above_ok content durable tip t x" "above_ok content durable tip t y" "n \<le> t" "t \<noteq> 0"
  shows "next_frame zs (VersionDBStorage av) (vm_store (pg_vm x)) (vm_store (pg_vm y)) n = None"
  using above_okD(1,5) [OF assms(1)] above_okD(1,5) [OF assms(2)]
  by (intro store.above_is_not_sent [OF _ _ _ _ assms(3,4)])

end

subsection \<open>The property\<close>

text \<open>C18: The gap check of \<open>Initialize\<close> sees only what was indexed.  On a chain that has blocks, up to the
  height \<open>t\<close>, a plugin with an empty index starts without an error; whatever happens then
  (acceptances, failures at any point of a compaction, compactor steps, restarts), it never serves a
  block up to \<open>t\<close>, so a client that asks for one is never sent a frame.  If \<open>t\<close> is not the end of a
  batch, moreover, its compactor never compacts a batch.\<close>

theorem late_plugin_never_serves_below:
  assumes "versioned_laws av content deletes ver durable tip" and "t \<noteq> 0" "unat t < last_batched"
    and "well_keyed (content db)" "kv_abs (content db) = empty_store" "durable db = content db" "tip db = t"
    and "opened_store env = Inr (NewVersionDBStorage av (ver_reopen ver db))" "CurrentBlock env = Some t"
    and "allowedChainID env = ChainID env" "ChainID env \<noteq> []" "inner_init env = None" "eth_found env"
    and "listen env = Inr addr"
  shows "\<exists>vm. Initialize (VersionDBStorage av) env = Inr vm \<and>
    (\<forall>y z. (plugin_step zs av ver tip api allowed)\<^sup>*\<^sup>*
         \<lparr>pg_vm = vm, pg_compactor = CIdle, pg_accept = AIdle\<rparr> y \<and>
       (plugin_step zs av ver tip api allowed)\<^sup>*\<^sup>*
         \<lparr>pg_vm = vm, pg_compactor = CIdle, pg_accept = AIdle\<rparr> z \<longrightarrow>
       (\<forall>n \<le> t. next_frame zs (VersionDBStorage av) (vm_store (pg_vm y)) (vm_store (pg_vm z)) n = None) \<and>
       (BatchStart (t + 1) \<noteq> t + 1 \<longrightarrow>
         compactOneBatch zs (VersionDBStorage av) (vm_store (pg_vm y)) = (False, vm_store (pg_vm y))))"
proof -
  note late = versioned_laws.late_restart [OF assms(1)] versioned_laws.late_runs [OF assms(1,3)]
    versioned_laws.late_compactOneBatch [OF assms(1) _ assms(3)]
  note above = versioned_laws.above_restart [OF assms(1)] versioned_laws.above_runs [OF assms(1)]
    versioned_laws.above_next_frame [OF assms(1) _ _ _ assms(2)]
  have r: "content (ver_reopen ver db) = content db"
    using versioned_laws.reopen_law [OF assms(1)] assms(6) by simp
  have e: "only_after t (unat t) (kv_abs (content db))" by (simp add: assms(5) only_after_empty)
  obtain vm where vm: "Initialize (VersionDBStorage av) env = Inr vm"
    using versioned_laws.late_Initialize [OF assms(1), of "ver_reopen ver db", OF _ _ assms(8-14)] r e assms(4) by auto
  have x: "late_ok content durable tip t \<lparr>pg_vm = vm, pg_compactor = CIdle, pg_accept = AIdle\<rparr>"
    using late(1) [OF _ _ _ assms(8) vm] assms(4,6,7) e by simp
  have x': "above_ok content durable tip t \<lparr>pg_vm = vm, pg_compactor = CIdle, pg_accept = AIdle\<rparr>"
    using above(1) [OF _ _ _ assms(8) vm] assms(4-7) by simp
  show ?thesis
    by (intro exI [of _ vm] conjI vm allI impI; elim conjE) (blast intro: above(2,3) x' late(2,3) x)+
qed

text \<open>An index opened for the first time when seven blocks are accepted.\<close>

definition late_env :: "memver vdbs init_env" where
  "late_env = \<lparr>allowedChainID = ''C'', ChainID = ''C'', inner_init = None,
     opened_store = Inr (NewVersionDBStorage memver_avadb (ver_reopen (mem_versioned []) ([], [], 7))),
     eth_found = True, CurrentBlock = Some 7, listen = Inr '':9090''\<rparr>"

theorem late_plugin_never_serves_below_witness:
  "\<exists>vm. Initialize (VersionDBStorage memver_avadb) late_env = Inr vm \<and>
    next_frame stored_codec (VersionDBStorage memver_avadb) (vm_store vm) (vm_store vm) 3 = None"
proof -
  obtain vm where vm: "Initialize (VersionDBStorage memver_avadb) late_env = Inr vm"
    "\<forall>n \<le> 7. next_frame stored_codec (VersionDBStorage memver_avadb) (vm_store vm) (vm_store vm) n = None"
    using late_plugin_never_serves_below [OF memver.versioned_laws_axioms, where t = 7 and db = "([], [], 7)" and
      env = late_env and zs = stored_codec and api = demo_api and allowed = safe_point and addr = "'':9090''"]
    by (fastforce simp: late_env_def kv_abs_empty well_keyed_def)
  moreover have "(3 :: u64) \<le> 7" by (simp add: u64_le_iff)
  ultimately show ?thesis by blast
qed

end
