(* ===== verification/Metrics.thy ===== *)
theory Metrics
  imports Startup
begin

section \<open>The metrics of the standalone service\<close>

text \<open>
  \<open>evm-ingestion/metrics/metrics.go\<close> and the places that count: one request per HTTP attempt in
  \<open>batchRpcCall\<close> and \<open>batchRpcCallDebug\<close> (rpc/fetcher.go), one block per ingested block and the
  gauges of the progress report (main.go).  The registry itself is the Prometheus library, a
  parameter with the documented behaviour of counters and gauges.
\<close>

subsection \<open>The registry\<close>

datatype metric = BlocksTotal | BlocksBehind | LastIngestedBlock | ChainHead | RPCRequestsTotal

text \<open>
  \<open>WithLabelValues\<close> finds or makes the series of the label values, with value 0; a series that was
  never asked for has no value.  Values are the whole numbers that \<open>float64\<close> holds exactly.
\<close>

record 'r prometheus =
  prom_add :: "metric \<Rightarrow> string list \<Rightarrow> int \<Rightarrow> 'r \<Rightarrow> 'r"
  prom_set :: "metric \<Rightarrow> string list \<Rightarrow> int \<Rightarrow> 'r \<Rightarrow> 'r"
  prom_value :: "'r \<Rightarrow> metric \<Rightarrow> string list \<Rightarrow> int option"

definition or_zero :: "int option \<Rightarrow> int" where
  "or_zero v = (case v of None \<Rightarrow> 0 | Some n \<Rightarrow> n)"

lemma or_zero_simps [simp]: "or_zero None = 0" "or_zero (Some n) = n"
  by (simp_all add: or_zero_def)

locale prometheus_laws =
  fixes P :: "'r prometheus"
  assumes add_value: "0 \<le> or_zero (prom_value P r m ls) \<Longrightarrow> 0 \<le> n \<Longrightarrow>
      or_zero (prom_value P r m ls) + n \<le> 2 ^ 53 \<Longrightarrow>
      prom_value P (prom_add P m ls n r) m ls = Some (or_zero (prom_value P r m ls) + n)"
    and set_value: "prom_value P (prom_set P m ls n r) m ls = Some n"
    and add_other: "(m', ls') \<noteq> (m, ls) \<Longrightarrow> prom_value P (prom_add P m ls n r) m' ls' = prom_value P r m' ls'"
    and set_other: "(m', ls') \<noteq> (m, ls) \<Longrightarrow> prom_value P (prom_set P m ls n r) m' ls' = prom_value P r m' ls'"

text \<open>A registry in memory.\<close>

definition mem_prometheus :: "(metric \<times> string list \<Rightarrow> int option) prometheus" where
  "mem_prometheus = \<lparr>prom_add = (\<lambda>m ls n r. r((m, ls) \<mapsto> or_zero (r (m, ls)) + n)),
     prom_set = (\<lambda>m ls n r. r((m, ls) \<mapsto> n)), prom_value = (\<lambda>r m ls. r (m, ls))\<rparr>"

interpretation mem_prometheus: prometheus_laws mem_prometheus
  by unfold_locales (auto simp: mem_prometheus_def)

lemma mem_prometheus_empty: "prom_value mem_prometheus Map.empty m ls = None"
  by (simp add: mem_prometheus_def)

subsection \<open>The code\<close>

text \<open>
  \<open>init\<close> registers the five collectors; \<open>MustRegister\<close> panics for one that is registered already.
\<close>

definition MustRegister :: "metric \<Rightarrow> metric list \<Rightarrow> metric list called" where
  "MustRegister m registered = (if m \<in> set registered then PanicCall else Returns (registered @ [m]))"

fun register_all :: "metric list \<Rightarrow> metric list \<Rightarrow> metric list called" where
  "register_all [] registered = Returns registered"
| "register_all (m # ms) registered =
     (case MustRegister m registered of Returns registered' \<Rightarrow> register_all ms registered' | stuck \<Rightarrow> stuck)"

definition init_metrics :: "metric list \<Rightarrow> metric list called" where
  "init_metrics = register_all [BlocksTotal, BlocksBehind, LastIngestedBlock, ChainHead, RPCRequestsTotal]"

lemma init_metrics_once:
  "init_metrics [] = Returns [BlocksTotal, BlocksBehind, LastIngestedBlock, ChainHead, RPCRequestsTotal]"
  "init_metrics [BlocksTotal, BlocksBehind, LastIngestedBlock, ChainHead, RPCRequestsTotal] = PanicCall"
  by (simp_all add: init_metrics_def MustRegister_def)

text \<open>
  \<open>StartServer\<close> only starts a goroutine, which logs that it listens and, when \<open>ListenAndServe\<close> ends,
  with what error; a port that is taken is thus not noticed by \<open>main\<close>.
\<close>

datatype metrics_log = MetricsListening string | MetricsServerError error

definition StartServer :: "(string \<Rightarrow> error option) \<Rightarrow> string \<Rightarrow> metrics_log list" where
  "StartServer listenAndServe addr =
     MetricsListening addr #
     (case listenAndServe addr of None \<Rightarrow> [] | Some err \<Rightarrow> [MetricsServerError err])"

definition main_metrics_log :: "(string \<Rightarrow> error option) \<Rightarrow> 's started \<Rightarrow> metrics_log list" where
  "main_metrics_log listenAndServe r =
     (case r of Serves sv \<Rightarrow> StartServer listenAndServe MetricsListenAddr | _ \<Rightarrow> [])"

definition ChainLabel :: "string \<Rightarrow> u64 \<Rightarrow> string" where
  "ChainLabel name ident = name @ ''_'' @ dec (unat ident)"

definition InitChain :: "'r prometheus \<Rightarrow> string \<Rightarrow> 'r \<Rightarrow> 'r" where
  "InitChain P chainLabel r =
     (let r = prom_add P BlocksTotal [chainLabel] 0 r;
          r = prom_set P BlocksBehind [chainLabel] 0 r;
          r = prom_set P LastIngestedBlock [chainLabel] 0 r;
          r = prom_set P ChainHead [chainLabel] 0 r;
          r = prom_add P RPCRequestsTotal [chainLabel, ''success''] 0 r
      in prom_add P RPCRequestsTotal [chainLabel, ''error''] 0 r)"

text \<open>
  What the attempts of a call count: nothing if the request could not be made, \<open>success\<close> for the
  attempt whose responses are returned, \<open>error\<close> for every other one.
\<close>

fun request_statuses ::
  "(reply \<Rightarrow> JSONRPCResponse list \<Rightarrow> verdict \<times> JSONRPCResponse list \<times> JSONRPCResponse list) \<Rightarrow>
    JSONRPCResponse list \<Rightarrow> reply list \<Rightarrow> string list" where
  "request_statuses att buf [] = []"
| "request_statuses att buf (rep # reps) =
     (case att rep buf of
        (Accepted, responses, buf') \<Rightarrow> [''success'']
      | (Fatal err, responses, buf') \<Rightarrow> (case rep of BadRequest e \<Rightarrow> [] | _ \<Rightarrow> [''error''])
      | (Again err, responses, buf') \<Rightarrow> ''error'' # request_statuses att buf' reps)"

text \<open>A call of one of the two functions, a block that \<open>runIngestion\<close> has saved, a progress report.\<close>

datatype counted =
    BatchCall "JSONRPCRequest list" "nat \<Rightarrow> reply"
  | DebugCall "JSONRPCRequest list" "nat \<Rightarrow> reply"
  | Ingested u64
  | Progress u64 u64

fun call_statuses ::
  "Fetcher \<Rightarrow> (JSONRPCResponse list \<Rightarrow> JSONRPCResponse list) \<Rightarrow> counted \<Rightarrow> string list" where
  "call_statuses f srt (BatchCall requests rps) =
     (if requests = [] then [] else request_statuses (call_attempt srt requests) [] (attempts f rps))"
| "call_statuses f srt (DebugCall requests rps) =
     (if requests = [] then [] else request_statuses (debug_attempt srt requests) [] (attempts f rps))"
| "call_statuses f srt _ = []"

definition float64 :: "u64 \<Rightarrow> int" where
  "float64 n = fl_trunc (fl_of_int (uint n))"

text \<open>
  \<open>main\<close> passes its label to \<open>InitChain\<close> and \<open>runIngestion\<close>; the fetcher makes its own from the
  same label and the chain ID.
\<close>

fun count ::
  "'r prometheus \<Rightarrow> (JSONRPCResponse list \<Rightarrow> JSONRPCResponse list) \<Rightarrow> 's service \<Rightarrow> counted \<Rightarrow> 'r \<Rightarrow> 'r" where
  "count P srt sv (Ingested blockNum) r =
     prom_set P LastIngestedBlock [sv_chainLabel sv] (float64 blockNum)
       (prom_add P BlocksTotal [sv_chainLabel sv] 1 r)"
| "count P srt sv (Progress newest cur) r =
     prom_set P ChainHead [sv_chainLabel sv] (float64 newest)
       (prom_set P BlocksBehind [sv_chainLabel sv]
          (fl_trunc (fl_of_int (blocks_remaining newest cur))) r)"
| "count P srt sv call r =
     fold (\<lambda>status. prom_add P RPCRequestsTotal [ChainLabel (sv_chainLabel sv) (sv_evmChainID sv), status] 1)
       (call_statuses (sv_fetcher sv) srt call) r"

definition metrics_after ::
  "'r prometheus \<Rightarrow> (JSONRPCResponse list \<Rightarrow> JSONRPCResponse list) \<Rightarrow> 's service \<Rightarrow> counted list \<Rightarrow> 'r \<Rightarrow> 'r" where
  "metrics_after P srt sv evs r = fold (count P srt sv) evs (InitChain P (sv_chainLabel sv) r)"

subsection \<open>What is counted\<close>

lemma float64_exact:
  assumes "uint n < 2 ^ 53"
  shows "float64 n = uint n"
proof (cases "n = 0")
  case True
  then show ?thesis by (simp add: float64_def fl_of_int_def fl_def fl_trunc_def)
next
  case False
  then have "0 < uint n" using uint_0_iff [of n] uint_ge_0 [of n] by linarith
  from fl_of_int_exact [OF this assms] show ?thesis by (auto simp: float64_def fl_trunc_def)
qed

text \<open>Every attempt that was made is counted once, with success exactly if the call returns responses.\<close>

lemma request_statuses_result:
  "(''success'' \<in> set (request_statuses att buf reps) \<longleftrightarrow> (\<exists>rs. retry_loop att msg buf lastErr reps = Inr rs)) \<and>
    count_list (request_statuses att buf reps) ''success'' \<le> 1 \<and>
    length (request_statuses att buf reps) \<le> length reps \<and>
    set (request_statuses att buf reps) \<subseteq> {''success'', ''error''}"
proof (induction reps arbitrary: buf lastErr)
  case (Cons rep reps)
  obtain v rs b where a: "att rep buf = (v, rs, b)" by (metis prod.exhaust)
  show ?case
  proof (cases v)
    case (Again err)
    then show ?thesis using a Cons.IH [of b err] by auto
  qed (use a in \<open>auto split: reply.split\<close>)
qed simp

text \<open>
  The other side, without a word of counting: how many HTTP attempts a call makes, and whether it
  returns responses.  An attempt is followed by another one only if its outcome is to be retried, and
  a request that could not be built is not one.
\<close>

fun http_attempts ::
  "(reply \<Rightarrow> JSONRPCResponse list \<Rightarrow> verdict \<times> JSONRPCResponse list \<times> JSONRPCResponse list) \<Rightarrow>
    JSONRPCResponse list \<Rightarrow> reply list \<Rightarrow> nat" where
  "http_attempts att buf [] = 0"
| "http_attempts att buf (BadRequest err # reps) = 0"
| "http_attempts att buf (rep # reps) =
     (case att rep buf of (Again err, responses, buf') \<Rightarrow> Suc (http_attempts att buf' reps) | _ \<Rightarrow> 1)"

fun call_attempts :: "Fetcher \<Rightarrow> (JSONRPCResponse list \<Rightarrow> JSONRPCResponse list) \<Rightarrow> counted \<Rightarrow> nat" where
  "call_attempts f srt (BatchCall requests rps) =
     (if requests = [] then 0 else http_attempts (call_attempt srt requests) [] (attempts f rps))"
| "call_attempts f srt (DebugCall requests rps) =
     (if requests = [] then 0 else http_attempts (debug_attempt srt requests) [] (attempts f rps))"
| "call_attempts f srt _ = 0"

fun call_returns :: "Fetcher \<Rightarrow> (JSONRPCResponse list \<Rightarrow> JSONRPCResponse list) \<Rightarrow> counted \<Rightarrow> bool" where
  "call_returns f srt (BatchCall requests rps) \<longleftrightarrow> requests \<noteq> [] \<and> \<not> isl (batchRpcCall f srt requests rps)"
| "call_returns f srt (DebugCall requests rps) \<longleftrightarrow> requests \<noteq> [] \<and> \<not> isl (batchRpcCallDebug f srt requests rps)"
| "call_returns f srt _ \<longleftrightarrow> False"

definition attempts_made :: "(JSONRPCResponse list \<Rightarrow> JSONRPCResponse list) \<Rightarrow> 's service \<Rightarrow> counted list \<Rightarrow> nat" where
  "attempts_made srt sv evs = sum_list (map (call_attempts (sv_fetcher sv) srt) evs)"

definition calls_returned :: "(JSONRPCResponse list \<Rightarrow> JSONRPCResponse list) \<Rightarrow> 's service \<Rightarrow> counted list \<Rightarrow> nat" where
  "calls_returned srt sv evs = length (filter (call_returns (sv_fetcher sv) srt) evs)"

text \<open>A request that cannot be built ends the call without a count.\<close>

lemma bad_request_is_fatal:
  "\<exists>e rs b. call_attempt srt requests (BadRequest err) buf = (Fatal e, rs, b)"
  "\<exists>e rs b. debug_attempt srt requests (BadRequest err) buf = (Fatal e, rs, b)"
  by (simp_all add: call_attempt_def debug_attempt_def)

lemma request_statuses_counts:
  assumes "\<And>err buf. \<exists>e rs b. att (BadRequest err) buf = (Fatal e, rs, b)"
  shows "count_list (request_statuses att buf reps) ''success'' = (if isl (retry_loop att msg buf lastErr reps) then 0 else 1) \<and>
    count_list (request_statuses att buf reps) ''success'' + count_list (request_statuses att buf reps) ''error'' =
      http_attempts att buf reps"
proof (induction reps arbitrary: buf lastErr)
  case (Cons rep reps)
  obtain v rs b where a: "att rep buf = (v, rs, b)" by (metis prod.exhaust)
  show ?case
  proof (cases rep)
    case (BadRequest err)
    then show ?thesis using assms [of err buf] by auto
  next
    case (NoReply err)
    then show ?thesis using a Cons.IH [of b] by (cases v) auto
  next
    case (Reply err body)
    then show ?thesis using a Cons.IH [of b] by (cases v) auto
  qed
qed simp

lemma call_statuses_counts:
  "count_list (call_statuses f srt e) ''success'' = (if call_returns f srt e then 1 else 0) \<and>
    count_list (call_statuses f srt e) ''success'' + count_list (call_statuses f srt e) ''error'' = call_attempts f srt e"
proof (cases e)
  case (BatchCall q rps)
  have "\<exists>e rs b. call_attempt srt q (BadRequest err) buf = (Fatal e, rs, b)" for err buf
    by (rule bad_request_is_fatal)
  from request_statuses_counts [where att = "call_attempt srt q" and buf = "[]" and reps = "attempts f rps" and
      msg = "''batch request failed after retries''" and lastErr = "Fail ''''", OF this] BatchCall
  show ?thesis by (simp add: batchRpcCall_def)
next
  case (DebugCall q rps)
  have "\<exists>e rs b. debug_attempt srt q (BadRequest err) buf = (Fatal e, rs, b)" for err buf
    by (rule bad_request_is_fatal)
  from request_statuses_counts [where att = "debug_attempt srt q" and buf = "[]" and reps = "attempts f rps" and
      msg = "''debug batch request failed after retries''" and lastErr = "Fail ''''", OF this] DebugCall
  show ?thesis by (simp add: batchRpcCallDebug_def)
qed simp_all

definition ingested_blocks :: "counted list \<Rightarrow> u64 list" where
  "ingested_blocks evs = concat (map (\<lambda>e. case e of Ingested n \<Rightarrow> [n] | _ \<Rightarrow> []) evs)"

definition all_statuses ::
  "(JSONRPCResponse list \<Rightarrow> JSONRPCResponse list) \<Rightarrow> 's service \<Rightarrow> counted list \<Rightarrow> string list" where
  "all_statuses srt sv evs = concat (map (call_statuses (sv_fetcher sv) srt) evs)"

lemma counted_simps [simp]:
  "ingested_blocks [] = []" "ingested_blocks (Ingested n # es) = n # ingested_blocks es"
  "ingested_blocks (Progress l c # es) = ingested_blocks es"
  "ingested_blocks (BatchCall q r # es) = ingested_blocks es"
  "ingested_blocks (DebugCall q r # es) = ingested_blocks es"
  "all_statuses srt sv [] = []"
  "all_statuses srt sv (e # es) = call_statuses (sv_fetcher sv) srt e @ all_statuses srt sv es"
  by (simp_all add: ingested_blocks_def all_statuses_def)

lemma all_statuses_counts:
  "count_list (all_statuses srt sv evs) ''success'' = calls_returned srt sv evs \<and>
    calls_returned srt sv evs + count_list (all_statuses srt sv evs) ''error'' = attempts_made srt sv evs"
proof (induction evs)
  case (Cons e es)
  then show ?case using call_statuses_counts [of "sv_fetcher sv" srt e]
    by (auto simp: calls_returned_def attempts_made_def)
qed (simp add: calls_returned_def attempts_made_def)

lemma all_statuses_others: "s \<notin> {''success'', ''error''} \<Longrightarrow> count_list (all_statuses srt sv evs) s = 0"
proof -
  have "set (call_statuses f srt e) \<subseteq> {''success'', ''error''}" for f e
    using request_statuses_result by (cases e) auto
  then have "set (all_statuses srt sv evs) \<subseteq> {''success'', ''error''}" by (auto simp: all_statuses_def)
  then show "s \<notin> {''success'', ''error''} \<Longrightarrow> ?thesis" by (auto simp: count_list_0_iff)
qed

text \<open>A call makes at most 21 attempts.\<close>

lemma length_all_statuses:
  assumes "main env = Serves sv"
  shows "length (all_statuses srt sv evs) \<le> 21 * length evs"
proof -
  have "maxRetries (sv_fetcher sv) = 20"
    using assms by (auto simp: main_def fetcher_of_def NewFetcher_def FetcherMaxRetries_def Let_def
        split: if_splits sum.splits option.splits prod.splits)
  then have "length (attempts (sv_fetcher sv) rps) = 21" for rps by (simp add: attempts_def)
  then have "length (request_statuses att [] (attempts (sv_fetcher sv) rps)) \<le> 21" for att rps
    using request_statuses_result [of att "[]" "attempts (sv_fetcher sv) rps"] by simp
  then have "length (call_statuses (sv_fetcher sv) srt e) \<le> 21" for e by (cases e) simp_all
  then show ?thesis by (induction evs) (auto intro: add_mono)
qed

text \<open>A series that nothing was added to does not exist.\<close>

definition series :: "nat \<Rightarrow> int option" where
  "series k = (if k = 0 then None else Some (int k))"

lemma or_zero_series [simp]: "or_zero (series k) = int k" by (simp add: series_def)

context prometheus_laws
begin

lemma add_statuses:
  assumes "prom_value P r m [l, s] = series k" "k + length sts \<le> 2 ^ 53"
  shows "prom_value P (fold (\<lambda>s. prom_add P m [l, s] 1) sts r) m [l, s] = series (k + count_list sts s)"
  using assms
proof (induction sts arbitrary: k r)
  case (Cons s' sts)
  show ?case
  proof (cases "s' = s")
    case True
    have "prom_value P (prom_add P m [l, s] 1 r) m [l, s] = series (Suc k)"
      using add_value [of r m "[l, s]" 1] Cons.prems by (simp add: series_def)
    from Cons.IH [OF this] show ?thesis using True Cons.prems(2) by simp
  next
    case False
    have "prom_value P (prom_add P m [l, s'] 1 r) m [l, s] = series k"
      using add_other [of m "[l, s]" m "[l, s']"] False Cons.prems(1) by simp
    from Cons.IH [OF this] show ?thesis using False Cons.prems(2) by simp
  qed
qed simp

lemma add_statuses_other:
  "(m', ls) \<notin> {(m, [l, s]) | s. True} \<Longrightarrow>
    prom_value P (fold (\<lambda>s. prom_add P m [l, s] 1) sts r) m' ls = prom_value P r m' ls"
proof (induction sts arbitrary: r)
  case (Cons s sts)
  then show ?case using add_other [of m' ls m "[l, s]"] by simp
qed simp

text \<open>One event.\<close>

lemma count_request:
  assumes "prom_value P r RPCRequestsTotal [ChainLabel (sv_chainLabel sv) (sv_evmChainID sv), s] = series k"
    and "k + length (call_statuses (sv_fetcher sv) srt e) \<le> 2 ^ 53"
  shows "prom_value P (count P srt sv e r) RPCRequestsTotal [ChainLabel (sv_chainLabel sv) (sv_evmChainID sv), s] =
    series (k + count_list (call_statuses (sv_fetcher sv) srt e) s)"
  using assms
  by (cases e) (auto simp: add_statuses add_other set_other simp del: call_statuses.simps(1,2))

lemma ChainLabel_differs: "ChainLabel name n \<noteq> name"
  by (simp add: ChainLabel_def)

lemma count_initial_request:
  "prom_value P (count P srt sv e r) RPCRequestsTotal [sv_chainLabel sv, s] =
    prom_value P r RPCRequestsTotal [sv_chainLabel sv, s]"
  by (cases e) (auto simp: add_statuses_other add_other set_other ChainLabel_differs [THEN not_sym]
      simp del: call_statuses.simps(1,2))

lemma count_block:
  assumes "prom_value P r BlocksTotal [sv_chainLabel sv] = Some (int k)" "k < 2 ^ 53"
  shows "prom_value P (count P srt sv e r) BlocksTotal [sv_chainLabel sv] = Some (int (k + length (ingested_blocks [e])))"
  using assms add_value [of r BlocksTotal "[sv_chainLabel sv]" 1]
  by (cases e) (auto simp: add_statuses_other add_other set_other simp del: call_statuses.simps(1,2))

lemma count_last:
  "prom_value P (count P srt sv e r) LastIngestedBlock [sv_chainLabel sv] =
    (case ingested_blocks [e] of [] \<Rightarrow> prom_value P r LastIngestedBlock [sv_chainLabel sv] | n # ns \<Rightarrow> Some (float64 n))"
  by (cases e) (auto simp: add_statuses_other add_other set_other set_value simp del: call_statuses.simps(1,2))

text \<open>A whole run.\<close>

lemma count_requests:
  assumes "prom_value P r RPCRequestsTotal [ChainLabel (sv_chainLabel sv) (sv_evmChainID sv), s] = series k"
    and "k + length (all_statuses srt sv evs) \<le> 2 ^ 53"
  shows "prom_value P (fold (count P srt sv) evs r) RPCRequestsTotal
      [ChainLabel (sv_chainLabel sv) (sv_evmChainID sv), s] = series (k + count_list (all_statuses srt sv evs) s)"
  using assms
proof (induction evs arbitrary: k r)
  case (Cons e es)
  note one = count_request [OF Cons.prems(1), of srt e]
  show ?case using Cons.IH [OF one] Cons.prems(2) count_le_length [of "call_statuses (sv_fetcher sv) srt e" s]
    by (simp add: add.assoc)
qed simp

lemma count_initial_requests:
  "prom_value P (fold (count P srt sv) evs r) RPCRequestsTotal [sv_chainLabel sv, s] =
    prom_value P r RPCRequestsTotal [sv_chainLabel sv, s]"
  by (induction evs arbitrary: r) (simp_all add: count_initial_request)

lemma count_blocks:
  assumes "prom_value P r BlocksTotal [sv_chainLabel sv] = Some (int k)" "k + length evs \<le> 2 ^ 53"
  shows "prom_value P (fold (count P srt sv) evs r) BlocksTotal [sv_chainLabel sv] =
    Some (int (k + length (ingested_blocks evs)))"
  using assms
proof (induction evs arbitrary: k r)
  case (Cons e es)
  have one: "prom_value P (count P srt sv e r) BlocksTotal [sv_chainLabel sv] = Some (int (k + length (ingested_blocks [e])))"
    using count_block [OF Cons.prems(1)] Cons.prems(2) by simp
  have "length (ingested_blocks [e]) \<le> 1" "ingested_blocks (e # es) = ingested_blocks [e] @ ingested_blocks es"
    by (cases e, simp_all)+
  then show ?case using Cons.IH [OF one] Cons.prems(2) by (simp add: add.assoc)
qed simp

lemma count_lasts:
  "prom_value P (fold (count P srt sv) evs r) LastIngestedBlock [sv_chainLabel sv] =
    (if ingested_blocks evs = [] then prom_value P r LastIngestedBlock [sv_chainLabel sv]
     else Some (float64 (last (ingested_blocks evs))))"
proof (induction evs arbitrary: r)
  case (Cons e es)
  show ?case using count_last [of srt sv e r] by (cases e) (simp_all add: Cons.IH)
qed simp

lemma InitChain_values:
  assumes "\<And>m ls. prom_value P r m ls = None" "label' \<noteq> label"
  shows "prom_value P (InitChain P label r) BlocksTotal [label] = Some 0"
    "prom_value P (InitChain P label r) LastIngestedBlock [label] = Some 0"
    "prom_value P (InitChain P label r) RPCRequestsTotal [label, ''success''] = Some 0"
    "prom_value P (InitChain P label r) RPCRequestsTotal [label, ''error''] = Some 0"
    "prom_value P (InitChain P label r) RPCRequestsTotal [label', s] = None"
  using assms by (simp_all add: InitChain_def Let_def add_value set_value add_other set_other)

end

subsection \<open>The property\<close>

text \<open>C36: Over any sequence of calls, ingested blocks and progress reports the metrics of the service count the
  ingested blocks and show the last one, and count every HTTP attempt of the batch calls: success as
  many times as there are calls that return responses, error for each of the other attempts, and no
  other status.  But the requests are counted under the label chain-N_N, while the series that \<open>main\<close>
  initializes carry the label chain-N of the other metrics: they stay at zero for ever.\<close>

theorem metrics_of_a_run:
  fixes P :: "'r prometheus" and sv :: "'s service"
  assumes "prometheus_laws P" "main env = Serves sv" "\<forall>m ls. prom_value P r m ls = None"
    and "21 * length evs \<le> 2 ^ 53"
  shows "prom_value P (metrics_after P srt sv evs r) BlocksTotal [''chain-'' @ dec (unat (sv_evmChainID sv))] =
      Some (int (length (ingested_blocks evs))) \<and>
    prom_value P (metrics_after P srt sv evs r) LastIngestedBlock [''chain-'' @ dec (unat (sv_evmChainID sv))] =
      Some (if ingested_blocks evs = [] then 0 else float64 (last (ingested_blocks evs))) \<and>
    (\<forall>s. prom_value P (metrics_after P srt sv evs r) RPCRequestsTotal
        [''chain-'' @ dec (unat (sv_evmChainID sv)) @ ''_'' @ dec (unat (sv_evmChainID sv)), s] =
      series (if s = ''success'' then calls_returned srt sv evs
        else if s = ''error'' then attempts_made srt sv evs - calls_returned srt sv evs else 0)) \<and>
    calls_returned srt sv evs \<le> attempts_made srt sv evs \<and>
    prom_value P (metrics_after P srt sv evs r) RPCRequestsTotal
      [''chain-'' @ dec (unat (sv_evmChainID sv)), ''success''] = Some 0 \<and>
    prom_value P (metrics_after P srt sv evs r) RPCRequestsTotal
      [''chain-'' @ dec (unat (sv_evmChainID sv)), ''error''] = Some 0"
proof -
  have label: "sv_chainLabel sv = ''chain-'' @ dec (unat (sv_evmChainID sv))"
    using assms(2) by (auto simp: main_def Let_def split: if_splits sum.splits option.splits prod.splits)
  let ?own = "ChainLabel (sv_chainLabel sv) (sv_evmChainID sv)"
  have own: "?own = ''chain-'' @ dec (unat (sv_evmChainID sv)) @ ''_'' @ dec (unat (sv_evmChainID sv))"
    by (simp add: ChainLabel_def label)
  let ?r = "InitChain P (sv_chainLabel sv) r"
  note P = prometheus_laws.InitChain_values [OF assms(1)] prometheus_laws.count_blocks [OF assms(1)]
    prometheus_laws.count_lasts [OF assms(1)] prometheus_laws.count_requests [OF assms(1)]
    prometheus_laws.count_initial_requests [OF assms(1)] prometheus_laws.ChainLabel_differs [OF assms(1)]
  note init = P(1-5) [of r ?own "sv_chainLabel sv", OF assms(3) [rule_format] P(10)]
  have "prom_value P (fold (count P srt sv) evs ?r) RPCRequestsTotal [?own, s] =
      series (count_list (all_statuses srt sv evs) s)" for s
    using P(8) [of ?r sv s 0 srt evs] init(5) assms(4) length_all_statuses [OF assms(2), of srt evs]
    by (simp add: series_def)
  moreover have "count_list (all_statuses srt sv evs) s = (if s = ''success'' then calls_returned srt sv evs
      else if s = ''error'' then attempts_made srt sv evs - calls_returned srt sv evs else 0)" for s
    using all_statuses_counts [of srt sv evs] all_statuses_others [of s srt sv evs] by auto
  moreover have "calls_returned srt sv evs \<le> attempts_made srt sv evs" using all_statuses_counts [of srt sv evs] by simp
  ultimately show ?thesis
    unfolding metrics_after_def label [symmetric] own [symmetric]
    using P(6) [of ?r sv 0 evs srt] P(7) [of srt sv evs ?r] P(9) [of srt sv evs ?r] init(1-4) assms(4)
    by simp
qed

text \<open>Two blocks are ingested and one request fails because nothing answers.\<close>

definition demo_events :: "counted list" where
  "demo_events = [BatchCall [\<lparr>rq_Method = ''eth_chainId'', rq_Params = [], rq_ID = 1\<rparr>] (\<lambda>k. NoReply (Fail ''refused'')),
     Ingested 8, Ingested 9]"

lemma demo_blocks: "ingested_blocks demo_events = [8, 9]" "length demo_events = 3"
  by (simp_all add: demo_events_def)

theorem metrics_of_a_run_witness:
  "\<exists>sv. main demo_main_env = Serves sv \<and>
    prom_value mem_prometheus (metrics_after mem_prometheus (sort_key rs_ID) sv demo_events Map.empty)
      BlocksTotal [''chain-43114''] = Some 2"
proof -
  obtain sv where sv: "main demo_main_env = Serves sv" "sv_evmChainID sv = 43114" using demo_service by blast
  have label: "dec 43114 = ''43114''" by (simp add: show_base.simps digit_char_def char_of_def bit_iff_odd)
  have "prom_value mem_prometheus (metrics_after mem_prometheus (sort_key rs_ID) sv demo_events Map.empty)
      BlocksTotal [''chain-'' @ dec (unat (sv_evmChainID sv))] = Some (int (length (ingested_blocks demo_events)))"
    by (rule metrics_of_a_run [OF mem_prometheus.prometheus_laws_axioms sv(1), THEN conjunct1])
      (simp_all add: demo_blocks(2) mem_prometheus_empty)
  then have "prom_value mem_prometheus (metrics_after mem_prometheus (sort_key rs_ID) sv demo_events Map.empty)
      BlocksTotal [''chain-43114''] = Some 2"
    unfolding sv(2) by (simp add: label demo_blocks(1))
  with sv(1) show ?thesis by blast
qed

end
