(* ===== verification/Reports.thy ===== *)
theory Reports
  imports GoText GoFloat Consts
begin

section \<open>What the programs report about their progress\<close>

text \<open>
  The texts and statistics that go into log lines: \<open>formatDuration\<close> (evm-ingestion/main.go),
  \<open>formatSize\<close> (evm-ingestion/storage/compactor.go) and \<open>updateStats\<close> (indexing-subnet-evm/indexer.go).
\<close>

subsection \<open>Printing\<close>

text \<open>\<open>%d\<close> of an int, and \<open>%.1f\<close> of a non-negative \<open>float64\<close>: the nearest tenth, ties to even.\<close>

definition fmt_d :: "int \<Rightarrow> string" where
  "fmt_d n = (if n < 0 then CHR ''-'' # dec (nat (- n)) else dec (nat n))"

definition fmt_1f :: "fraction \<Rightarrow> string" where
  "fmt_1f x = (let tenths = round_even (10 * fst x) (snd x) in fmt_d (tenths div 10) @ ''.'' @ fmt_d (tenths mod 10))"

subsection \<open>Sizes\<close>

function unit_exp :: "int \<Rightarrow> nat" where
  "unit_exp n = (if 1024 \<le> n then Suc (unit_exp (n div 1024)) else 0)"
  by pat_completeness auto
termination by (relation "measure nat") auto

declare unit_exp.simps [simp del]

text \<open>\<open>None\<close> is the panic of indexing the three letters out of range.\<close>

definition formatSize :: "int \<Rightarrow> string option" where
  "formatSize n =
     (if n < 1024 then Some (fmt_d n @ '' B'')
      else let ex = unit_exp (n div 1024); dv = 1024 ^ Suc ex in
        if ex < 3 then Some (fmt_1f (fl_div (fl_of_int n) (fl_of_int dv)) @ '' '' @ [''KMG'' ! ex] @ ''B'')
        else None)"

lemma div_1024: "(n :: int) div 1024 < k \<longleftrightarrow> n < 1024 * k"
proof -
  define q r where "q = n div 1024" "r = n mod 1024"
  then have "n = 1024 * q + r" "0 \<le> r" "r < 1024" by simp_all
  then show ?thesis unfolding \<open>q = n div 1024\<close> [symmetric] by linarith
qed

lemma unit_exp_less: "unit_exp n < k \<longleftrightarrow> 0 < k \<and> n < 1024 ^ k"
proof (induction k arbitrary: n)
  case (Suc k)
  show ?case
  proof (cases "1024 \<le> n")
    case True
    then have "unit_exp n = Suc (unit_exp (n div 1024))" by (subst unit_exp.simps) simp
    moreover have "n div 1024 < 1024 ^ k \<longleftrightarrow> n < 1024 ^ Suc k" by (simp add: div_1024)
    moreover have "0 < k" if "n < 1024 ^ Suc k" using that True by (cases k) simp_all
    ultimately show ?thesis using Suc.IH by auto
  next
    case False
    have "1 \<le> (1024 :: int) ^ k" by simp
    then have "n < 1024 ^ Suc k" using False unfolding power_Suc by linarith
    then show ?thesis using False by (subst unit_exp.simps) simp
  qed
qed simp

text \<open>The units end at gigabytes: a size is printed if and only if it is below a tebibyte.\<close>

lemma formatSize_panics: "formatSize n = None \<longleftrightarrow> 1099511627776 \<le> n"
proof -
  have "unit_exp (n div 1024) < 3 \<longleftrightarrow> n < 1099511627776"
    using unit_exp_less [of "n div 1024" 3] by (simp add: div_1024)
  then show ?thesis by (auto simp: formatSize_def Let_def)
qed

subsection \<open>Durations\<close>

definition max_duration :: int where "max_duration = 9223372036854775807"
definition min_duration :: int where "min_duration = - 9223372036854775808"

text \<open>\<open>Duration.Round\<close>: to the nearest multiple of \<open>m\<close>, halves away from zero, saturating.\<close>

definition Round :: "int \<Rightarrow> int \<Rightarrow> int" where
  "Round d m =
     (if m \<le> 0 then d
      else if d < 0
      then let r = (- d) mod m in
        if 2 * r < m then d + r else if d - m + r \<ge> min_duration then d - m + r else min_duration
      else let r = d mod m in
        if 2 * r < m then d - r else if d + m - r \<le> max_duration then d + m - r else max_duration)"

text \<open>\<open>Duration.String\<close> of whole seconds.\<close>

definition show_seconds :: "int \<Rightarrow> string" where
  "show_seconds d =
     (let u = nat (\<bar>d\<bar> div Second); m = u div 60; h = m div 60 in
      (if d < 0 then ''-'' else []) @
      (if m > 0 then (if h > 0 then dec h @ ''h'' else []) @ dec (m mod 60) @ ''m'' else []) @
      dec (u mod 60) @ ''s'')"

definition formatDuration :: "int \<Rightarrow> string" where
  "formatDuration d =
     (if d < Minute then show_seconds (Round d Second)
      else
        let d = Round d Minute;
            days = d div (24 * Hour); d = d - days * 24 * Hour;
            hours = d div Hour; d = d - hours * Hour;
            minutes = d div Minute
        in if days > 0 then fmt_d days @ ''d'' @ fmt_d hours @ ''h'' @ fmt_d minutes @ ''m''
           else if hours > 0 then fmt_d hours @ ''h'' @ fmt_d minutes @ ''m''
           else fmt_d minutes @ ''m'')"

subsection \<open>Statistics of the plugin\<close>

text \<open>
  Milliseconds are whole numbers, which \<open>float64\<close> holds exactly below \<open>2 ^ 53\<close>; \<open>statsStart\<close> enters
  through the time since it was set.
\<close>

record stats =
  statsBlocks :: int
  statsMinMs :: int
  statsMaxMs :: int
  statsTotalMs :: int
  statsSizeMB :: fraction

definition no_stats :: stats where
  "no_stats = \<lparr>statsBlocks = 0, statsMinMs = 0, statsMaxMs = 0, statsTotalMs = 0, statsSizeMB = (0, 1)\<rparr>"

text \<open>The log line, if one is written, and the statistics that go on.\<close>

definition updateStats :: "int \<Rightarrow> int \<Rightarrow> int \<Rightarrow> stats \<Rightarrow> stats option \<times> stats" where
  "updateStats sz ms sinceLast st =
     (let st = st\<lparr>statsBlocks := statsBlocks st + 1, statsTotalMs := statsTotalMs st + ms,
            statsSizeMB := fl_add (statsSizeMB st)
              (fl_div (fl_div (fl_of_int sz) (fl_of_int 1024)) (fl_of_int 1024))\<rparr>;
          st = (if statsMinMs st = 0 \<or> ms < statsMinMs st then st\<lparr>statsMinMs := ms\<rparr> else st);
          st = (if ms > statsMaxMs st then st\<lparr>statsMaxMs := ms\<rparr> else st)
      in if statsBlocks st \<ge> 100 \<or> sinceLast \<ge> 5 * Second
         then (if statsBlocks st > 0 then Some st else None, no_stats)
         else (None, st))"

text \<open>
  Blocks that are indexed without a line in between.  Total and maximum are right, but the minimum
  is that of the blocks after the last one that took less than a millisecond.
\<close>

definition indexed_quietly :: "(int \<times> int) list \<Rightarrow> stats" where
  "indexed_quietly us = fold (\<lambda>(sz, ms) st. snd (updateStats sz ms 0 st)) us no_stats"

definition min_after_zero :: "int list \<Rightarrow> int" where
  "min_after_zero ms = (case takeWhile (\<lambda>m. m \<noteq> 0) (rev ms) of [] \<Rightarrow> 0 | x # xs \<Rightarrow> Min (set (x # xs)))"

lemma min_after_zero_snoc:
  "min_after_zero (ms @ [m]) =
    (if m = 0 then 0 else if takeWhile (\<lambda>m. m \<noteq> 0) (rev ms) = [] then m else min m (min_after_zero ms))"
  by (auto simp: min_after_zero_def split: list.splits)

lemma min_after_zero_0:
  assumes "\<forall>m \<in> set ms. 0 \<le> m"
  shows "min_after_zero ms = 0 \<longleftrightarrow> takeWhile (\<lambda>m. m \<noteq> 0) (rev ms) = []"
proof (cases "takeWhile (\<lambda>m. m \<noteq> 0) (rev ms)")
  case (Cons x xs)
  have "Min (set (x # xs)) \<in> set (takeWhile (\<lambda>m. m \<noteq> 0) (rev ms))" unfolding Cons by (rule Min_in) simp_all
  then have "Min (set (x # xs)) \<noteq> 0" by (auto dest: set_takeWhileD)
  then show ?thesis using Cons by (simp add: min_after_zero_def)
qed (simp add: min_after_zero_def)

lemma min_after_zero_nonneg: "\<forall>m \<in> set ms. 0 \<le> m \<Longrightarrow> 0 \<le> min_after_zero ms"
  by (induction ms rule: rev_induct) (auto simp: min_after_zero_snoc min_after_zero_def [of "[]"])

lemma indexed_quietly_stats:
  assumes "length us < 100" "\<forall>m \<in> set (map snd us). 0 \<le> m"
  shows "statsBlocks (indexed_quietly us) = int (length us) \<and>
    statsTotalMs (indexed_quietly us) = sum_list (map snd us) \<and>
    statsMaxMs (indexed_quietly us) = fold max (map snd us) 0 \<and>
    statsMinMs (indexed_quietly us) = min_after_zero (map snd us)"
  using assms
proof (induction us rule: rev_induct)
  case Nil
  then show ?case by (simp add: indexed_quietly_def no_stats_def min_after_zero_def)
next
  case (snoc u us)
  obtain sz m where u: "u = (sz, m)" by fastforce
  have step: "indexed_quietly (us @ [(sz, m)]) = snd (updateStats sz m 0 (indexed_quietly us))"
    by (simp add: indexed_quietly_def)
  have ms: "\<forall>m \<in> set (map snd us). 0 \<le> m" "0 \<le> m" using snoc.prems(2) u by auto
  note IH = snoc.IH [OF _ ms(1)]
  have zero: "min_after_zero (map snd us) = 0 \<longleftrightarrow> takeWhile (\<lambda>m. m \<noteq> 0) (rev (map snd us)) = []"
    by (rule min_after_zero_0 [OF ms(1)])
  have pos: "0 \<le> min_after_zero (map snd us)" by (rule min_after_zero_nonneg [OF ms(1)])
  show ?case
    using IH snoc.prems(1) ms(2) pos zero
    by (auto simp: step updateStats_def Let_def u min_after_zero_snoc max_def min_def Second_def Millisecond_def)
qed

text \<open>A block of less than a millisecond, then slower ones: the minimum shown is not the minimum.\<close>

lemma minimum_is_wrong: "statsMinMs (indexed_quietly [(1000, 0), (1000, 7)]) = 7"
  using indexed_quietly_stats [of "[(1000, 0), (1000, 7)]"] by (simp add: min_after_zero_def)

text \<open>The text of a duration of at least a minute gives its nearest number of minutes.\<close>

lemma Round_minutes:
  assumes "0 \<le> d" "d \<le> max_duration - Minute"
  shows "Round d Minute = (d + 30 * Second) div Minute * Minute"
proof -
  have m: "Minute = 60000000000" "Second = 1000000000"
    by (simp_all add: Minute_def Second_def Millisecond_def)
  define q r where qr: "q = d div 60000000000" "r = d mod 60000000000"
  then have d: "d = 60000000000 * q + r" "0 \<le> r" "r < 60000000000" by simp_all
  have "(d + 30000000000) div 60000000000 = (if 2 * r < 60000000000 then q else q + 1)"
  proof (cases "2 * r < 60000000000")
    case True
    then show ?thesis using d by (intro trans [OF int_div_pos_eq [of _ _ q "r + 30000000000"]]) simp_all
  next
    case False
    then show ?thesis using d by (intro trans [OF int_div_pos_eq [of _ _ "q + 1" "r - 30000000000"]]) simp_all
  qed
  then show ?thesis using assms d unfolding Round_def m max_duration_def Let_def qr(2) [symmetric] by simp
qed

lemma formatDuration_reads:
  assumes "Minute \<le> d" "d \<le> max_duration - Minute"
  obtains days hours minutes :: int where "0 \<le> minutes" "minutes < 60" "0 \<le> hours" "hours < 24"
    "days * 1440 + hours * 60 + minutes = (d + 30 * Second) div Minute"
    "formatDuration d =
      (if days > 0 then fmt_d days @ ''d'' @ fmt_d hours @ ''h'' @ fmt_d minutes @ ''m''
       else if hours > 0 then fmt_d hours @ ''h'' @ fmt_d minutes @ ''m'' else fmt_d minutes @ ''m'')"
proof -
  define n where "n = (d + 30 * Second) div Minute"
  have m: "0 < Minute" by (simp add: Minute_def Second_def Millisecond_def)
  have h: "24 * Hour = 1440 * Minute" "Hour = 60 * Minute" by (simp_all add: Hour_def)
  have r: "Round d Minute = n * Minute" using Round_minutes [OF _ assms(2)] assms(1) m by (simp add: n_def)
  have days: "n * Minute div (24 * Hour) = n div 1440" unfolding h(1) using m by simp
  have rest: "n * Minute - n div 1440 * 24 * Hour = n mod 1440 * Minute"
    by (simp add: h(2) minus_div_mult_eq_mod [symmetric] left_diff_distrib)
  have hours: "n mod 1440 * Minute div Hour = n mod 1440 div 60" unfolding h(2) using m by simp
  have rest2: "n mod 1440 * Minute - n mod 1440 div 60 * Hour = n mod 1440 mod 60 * Minute"
    by (simp add: h(2) minus_div_mult_eq_mod [symmetric] left_diff_distrib)
  have mins: "n mod 1440 mod 60 * Minute div Minute = n mod 1440 mod 60" using m by simp
  have n: "n div 1440 * 1440 + n mod 1440 div 60 * 60 + n mod 1440 mod 60 = n"
    by (metis add.assoc div_mult_mod_eq)
  show thesis
  proof (rule that [of "n mod 1440 mod 60" "n mod 1440 div 60" "n div 1440"])
    show "n mod 1440 div 60 < 24" "0 \<le> n mod 1440 div 60" by (simp_all add: pos_imp_zdiv_nonneg_iff div_less_iff_less_mult)
    show "formatDuration d =
      (if n div 1440 > 0 then fmt_d (n div 1440) @ ''d'' @ fmt_d (n mod 1440 div 60) @ ''h'' @ fmt_d (n mod 1440 mod 60) @ ''m''
       else if n mod 1440 div 60 > 0 then fmt_d (n mod 1440 div 60) @ ''h'' @ fmt_d (n mod 1440 mod 60) @ ''m''
       else fmt_d (n mod 1440 mod 60) @ ''m'')"
      using assms(1) by (simp only: formatDuration_def Let_def r days rest hours rest2 mins not_less [symmetric] if_not_P if_False)
  qed (use n in \<open>simp_all add: n_def\<close>)
qed

end
