(* ===== verification/Handles.thy ===== *)
theory Handles
  imports Lifecycle Reports
begin

section \<open>The compactor as an object: its logger, its channels and its goroutine\<close>

text \<open>
  \<open>evm-ingestion/storage/compactor.go\<close>: the constructors, \<open>Start\<close> and \<open>Stop\<close> with the two channels
  that \<open>Stop\<close> and the loop of Lifecycle close, and the two loggers, \<open>defaultLogger\<close> of the same
  file and \<open>pluginLogger\<close> of indexing-subnet-evm/vm.go.
\<close>

subsection \<open>Loggers\<close>

text \<open>A line of the standard logger, or of a level of avalanchego's.\<close>

datatype log_line = Printf string | LogInfo string | LogWarn string | LogError string

text \<open>The arguments are given as \<open>%v\<close> prints each; a slice of them is printed in brackets.\<close>

record CompactorLogger =
  lg_Info :: "string \<Rightarrow> string list \<Rightarrow> log_line"
  lg_Warn :: "string \<Rightarrow> string list \<Rightarrow> log_line"
  lg_Error :: "string \<Rightarrow> string list \<Rightarrow> log_line"

fun spaced :: "string list \<Rightarrow> string" where
  "spaced [] = []"
| "spaced [a] = a"
| "spaced (a # as) = a @ '' '' @ spaced as"

definition sprint_slice :: "string list \<Rightarrow> string" where
  "sprint_slice args = ''['' @ spaced args @ '']''"

definition defaultLogger :: CompactorLogger where
  "defaultLogger =
     \<lparr>lg_Info = (\<lambda>msg args. Printf (''[Compactor] '' @ msg @ '' '' @ sprint_slice args)),
      lg_Warn = (\<lambda>msg args. Printf (''[Compactor] WARN '' @ msg @ '' '' @ sprint_slice args)),
      lg_Error = (\<lambda>msg args. Printf (''[Compactor] ERROR '' @ msg @ '' '' @ sprint_slice args))\<rparr>"

definition pluginLogger :: CompactorLogger where
  "pluginLogger =
     \<lparr>lg_Info = (\<lambda>msg args. LogInfo (''Compactor: '' @ msg @ '' '' @ sprint_slice args)),
      lg_Warn = (\<lambda>msg args. LogWarn (''Compactor: '' @ msg @ '' '' @ sprint_slice args)),
      lg_Error = (\<lambda>msg args. LogError (''Compactor: '' @ msg @ '' '' @ sprint_slice args))\<rparr>"

subsection \<open>The object\<close>

text \<open>Whether \<open>stopCh\<close> and \<open>doneCh\<close> are closed, and how many loops run.\<close>

record 's Compactor =
  cp_store :: "'s Storage"
  cp_logger :: CompactorLogger
  stopCh :: bool
  doneCh :: bool
  cp_loops :: nat

definition NewCompactorWithLogger :: "'s Storage \<Rightarrow> CompactorLogger \<Rightarrow> 's Compactor" where
  "NewCompactorWithLogger store logger =
     \<lparr>cp_store = store, cp_logger = logger, stopCh = False, doneCh = False, cp_loops = 0\<rparr>"

definition NewCompactor :: "'s Storage \<Rightarrow> 's Compactor" where
  "NewCompactor store = NewCompactorWithLogger store defaultLogger"

definition StartCompactor :: "'s Compactor \<Rightarrow> 's Compactor" where
  "StartCompactor c = c\<lparr>cp_loops := cp_loops c + 1\<rparr>"

text \<open>A loop that returns closes \<open>doneCh\<close>, deferred in \<open>run\<close>.\<close>

definition loop_ends :: "'s Compactor \<Rightarrow> 's Compactor called" where
  "loop_ends c =
     (case close_chan (doneCh c) of
        PanicCall \<Rightarrow> PanicCall
      | HangCall \<Rightarrow> HangCall
      | Returns closed \<Rightarrow> Returns (c\<lparr>doneCh := closed, cp_loops := cp_loops c - 1\<rparr>))"

text \<open>
  \<open>Stop\<close>, with the ticks that the loop takes before the stop.  It waits for \<open>doneCh\<close>: for ever if no
  loop runs or a pass does not return.  With a second loop the program panics when that one ends.
\<close>

definition StopCompactor ::
  "'w zstd \<Rightarrow> 's selected list \<Rightarrow> 's Compactor \<Rightarrow> 's \<Rightarrow> ('s Compactor \<times> 's) called" where
  "StopCompactor zs before c s =
     (case close_chan (stopCh c) of
        PanicCall \<Rightarrow> PanicCall
      | HangCall \<Rightarrow> HangCall
      | Returns closed \<Rightarrow>
          let c = c\<lparr>stopCh := closed\<rparr> in
          if doneCh c then Returns (c, s)
          else if cp_loops c = 0 then HangCall
          else (case Stop zs (cp_store c) before s of
                  None \<Rightarrow> HangCall
                | Some s' \<Rightarrow>
                    (case loop_ends c of
                       PanicCall \<Rightarrow> PanicCall
                     | HangCall \<Rightarrow> HangCall
                     | Returns c' \<Rightarrow> if cp_loops c' = 0 then Returns (c', s') else PanicCall)))"

lemmas compactor_object_defs = NewCompactor_def NewCompactorWithLogger_def StartCompactor_def loop_ends_def
  StopCompactor_def close_chan_def

subsection \<open>The life of a compactor\<close>

lemma started_once:
  "StopCompactor zs before (StartCompactor (NewCompactorWithLogger S lg)) s =
     (case Stop zs S before s of
        None \<Rightarrow> HangCall
      | Some s' \<Rightarrow> Returns (\<lparr>cp_store = S, cp_logger = lg, stopCh = True, doneCh = True, cp_loops = 0\<rparr>, s'))"
  by (simp add: compactor_object_defs split: option.split)

text \<open>A compactor that was started twice takes the program down when it is stopped.\<close>

lemma started_twice:
  "Stop zs S before s = Some s' \<Longrightarrow>
    StopCompactor zs before (StartCompactor (StartCompactor (NewCompactorWithLogger S lg))) s = PanicCall"
  by (simp add: compactor_object_defs)

text \<open>C22: On a healthy store a compactor that was started can always be stopped, once: whatever ticks it takes
  first, and whatever the other goroutines do to the store in between, as long as they keep its
  blocks compactable, each pass returns and \<open>Stop\<close> returns.  A second \<open>Stop\<close> panics at the closed
  channel, and one before the start waits for ever.\<close>

theorem compactor_stops:
  assumes "healthy_store S absf okf tracked" "healthy_zstd zs written" "compactable absf okf tracked s"
    and "\<forall>e \<in> set ticks. \<exists>others. e = Tick (\<lambda>_. False) others \<and>
      (\<forall>x. compactable absf okf tracked x \<longrightarrow> compactable absf okf tracked (others x))"
  shows "\<exists>c s'. StopCompactor zs ticks (StartCompactor (NewCompactorWithLogger S logger)) s = Returns (c, s') \<and>
    compactable absf okf tracked s' \<and> StopCompactor zs again c s' = PanicCall \<and>
    StopCompactor zs ticks (NewCompactorWithLogger S logger) s = HangCall"
proof -
  obtain s' where "Stop zs S ticks s = Some s'" "compactable absf okf tracked s'"
    using Stop_returns [OF assms] by blast
  then show ?thesis unfolding started_once by (simp add: compactor_object_defs)
qed

theorem compactor_stops_witness:
  "\<exists>c s'. StopCompactor stored_codec [Tick (\<lambda>_. False) (\<lambda>s. s), Tick (\<lambda>_. False) (\<lambda>s. s)]
      (StartCompactor (NewCompactorWithLogger (PebbleStorage mem_pebble) defaultLogger)) (demo_db 1200) = Returns (c, s') \<and>
    StopCompactor stored_codec [] c s' = PanicCall"
  using compactor_stops [where logger = defaultLogger and again = "[]",
      OF mem_pebble.refines_healthy stored_codec.healthy_zstd_axioms demo_compactable,
      of "[Tick (\<lambda>_. False) (\<lambda>s. s), Tick (\<lambda>_. False) (\<lambda>s. s)]"] by auto

end
