(* ===== verification/Reflection.thy ===== *)
theory Reflection
  imports Handles
begin

section \<open>The start of the plugin, with what it takes out of the wrapped VM\<close>

text \<open>
  indexing-subnet-evm/vm.go and main.go: the indexer reaches three unexported fields of the wrapped
  VM by reflection.  The VM's struct is code of subnet-evm, so what its fields hold is a parameter:
  the value that \<open>FieldByName\<close> finds for a name.  Here \<open>Initialize\<close> is followed with these
  fields and with everything it leaves in the \<open>IndexingVM\<close>, also when it fails; the property is
  that it refines the \<open>Initialize\<close> of IndexVM, on which the properties of the plugin rest.
\<close>

subsection \<open>Values behind reflection\<close>

text \<open>
  The two pointers the indexer wants (\<open>None\<close> is nil), any other value of a kind that can be nil, an
  interface, a struct, an unsigned integer, and values of the remaining kinds, with the name of the
  type where \<open>%T\<close> may print it.
\<close>

datatype ('d, 'e) rvalue =
    is_VersionDBPtr: VersionDBPtr "'d option"
  | is_EthPtr: EthPtr "'e option"
  | Nilable string bool
  | Iface "('d, 'e) rvalue option"
  | StructVal string "string \<Rightarrow> ('d, 'e) rvalue option"
  | is_UintVal: UintVal string u64
  | OtherVal string

type_synonym ('d, 'e) fields = "string \<Rightarrow> ('d, 'e) rvalue option"

text \<open>\<open>Value.IsNil\<close>; it panics (\<open>None\<close>) for a kind that cannot be nil.\<close>

fun IsNil :: "('d, 'e) rvalue \<Rightarrow> bool option" where
  "IsNil (VersionDBPtr p) = Some (p = None)"
| "IsNil (EthPtr p) = Some (p = None)"
| "IsNil (Nilable t n) = Some n"
| "IsNil (Iface x) = Some (x = None)"
| "IsNil _ = None"

text \<open>\<open>Value.Interface\<close>: of an interface its dynamic value.\<close>

fun dynamic :: "('d, 'e) rvalue \<Rightarrow> ('d, 'e) rvalue" where
  "dynamic (Iface (Some x)) = x"
| "dynamic x = x"

fun type_name :: "('d, 'e) rvalue \<Rightarrow> string" where
  "type_name (VersionDBPtr p) = ''*versiondb.Database''"
| "type_name (EthPtr p) = ''*eth.Ethereum''"
| "type_name (Nilable t n) = t"
| "type_name (Iface x) = ''<nil>''"
| "type_name (StructVal t fs) = t"
| "type_name (UintVal t n) = t"
| "type_name (OtherVal t) = t"

subsection \<open>The reflection helpers\<close>

text \<open>The outer \<open>None\<close> is a panic.\<close>

definition getVersionDB :: "('d, 'e) fields \<Rightarrow> 'd option result option" where
  "getVersionDB vm_fields =
     (case vm_fields ''versiondb'' of
        None \<Rightarrow> Some (Inl (Fail ''versiondb field not found in VM''))
      | Some vdbPtr \<Rightarrow>
          (case IsNil vdbPtr of
             None \<Rightarrow> None
           | Some True \<Rightarrow> Some (Inl (Fail ''versiondb is nil''))
           | Some False \<Rightarrow>
               (case dynamic vdbPtr of
                  VersionDBPtr vdbase \<Rightarrow> Some (Inr vdbase)
                | x \<Rightarrow> Some (Inl (Fail (''versiondb has unexpected type: '' @ type_name x))))))"

definition getEthFromVM :: "('d, 'e) fields \<Rightarrow> 'e option option" where
  "getEthFromVM vm_fields =
     (case vm_fields ''eth'' of
        None \<Rightarrow> Some None
      | Some ethPtr \<Rightarrow>
          (case IsNil ethPtr of
             None \<Rightarrow> None
           | Some True \<Rightarrow> Some None
           | Some False \<Rightarrow> (case dynamic ethPtr of EthPtr e \<Rightarrow> Some e | _ \<Rightarrow> None)))"

text \<open>\<open>FieldByName\<close> panics on what is no struct, \<open>Uint\<close> on what is no unsigned integer.\<close>

definition getStateHistory :: "('d, 'e) fields \<Rightarrow> u64 option" where
  "getStateHistory vm_fields =
     (case vm_fields ''config'' of
        None \<Rightarrow> Some 32
      | Some (StructVal t config) \<Rightarrow>
          (case config ''StateHistory'' of
             None \<Rightarrow> Some 32
           | Some (UintVal t n) \<Rightarrow> Some n
           | Some _ \<Rightarrow> None)
      | Some _ \<Rightarrow> None)"

subsection \<open>The whole of Initialize\<close>

text \<open>
  The \<open>IndexingVM\<close>, as far as \<open>Initialize\<close> fills it with more than what it gets from the wrapped VM:
  \<open>iv_eth\<close> says that \<open>eth\<close> was found, from which the tracer, the chain and its configuration are
  taken (\<open>chain_api\<close> in IndexVM).
\<close>

record 's IndexingVM =
  iv_store :: "'s option"
  iv_eth :: bool
  iv_stateHistory :: u64
  iv_lastAccepted :: u64
  iv_lastIndexed :: u64
  iv_compactor :: "'s Compactor option"
  iv_server :: "u64 option"

definition NewIndexingVM :: "'s IndexingVM" where
  "NewIndexingVM = \<lparr>iv_store = None, iv_eth = False, iv_stateHistory = 0, iv_lastAccepted = 0,
     iv_lastIndexed = 0, iv_compactor = None, iv_server = None\<rparr>"

definition indexerDBPrefix :: bytes where "indexerDBPrefix = ''grpc_indexer''"

text \<open>From the restored heights on: the gap check, the compactor and the server.\<close>

definition initialize_indexer ::
  "'s Storage \<Rightarrow> 's init_env \<Rightarrow> 's \<Rightarrow> 's IndexingVM \<Rightarrow> error option \<times> 's IndexingVM" where
  "initialize_indexer S env s vm =
     (let lastIndexed = restored_height S s;
          lastAccepted = iv_lastAccepted vm;
          vm = (if lastIndexed > 0 then vm\<lparr>iv_lastIndexed := lastIndexed\<rparr> else vm)
      in if lastIndexed > 0 \<and> lastAccepted > lastIndexed
         then (Some (gap_error (lastAccepted - lastIndexed)), vm)
         else
           let compactor = NewCompactorWithLogger S pluginLogger;
               vm = vm\<lparr>iv_compactor := Some (StartCompactor compactor),
                 iv_server := Some (if lastIndexed > 0 then UpdateLatestBlock [] 0 lastIndexed else 0)\<rparr>
           in (case listen env of
                 Inl err \<Rightarrow> (Some (Wrap ''firehose server failed'' err), vm)
               | Inr actualAddr \<Rightarrow> (None, vm)))"

text \<open>
  \<open>prefixed\<close> is \<open>prefixdb.New\<close>.  Of \<open>env\<close> everything is used but the two fields that reflection
  replaces.  A nil database panics when it is read, a \<open>config\<close> of another shape in \<open>getStateHistory\<close>.
\<close>

definition InitializeVM ::
  "(bytes \<Rightarrow> 'd \<Rightarrow> 'db) \<Rightarrow> ('db, 'batch) avadb \<Rightarrow> ('d, 'e) fields \<Rightarrow> 'db vdbs init_env \<Rightarrow> 'db vdbs IndexingVM \<Rightarrow>
    (error option \<times> 'db vdbs IndexingVM) called" where
  "InitializeVM prefixed av vm_fields env vm =
     (if allowedChainID env = [] then Returns (Some errChainIDRequired, vm)
      else if ChainID env \<noteq> allowedChainID env then Returns (Some errChainNotAllowed, vm)
      else (case inner_init env of
          Some err \<Rightarrow> Returns (Some err, vm)
        | None \<Rightarrow>
            (case getVersionDB vm_fields of
               None \<Rightarrow> PanicCall
             | Some (Inl err) \<Rightarrow> Returns (Some (Wrap ''failed to get versiondb'' err), vm)
             | Some (Inr None) \<Rightarrow> PanicCall
             | Some (Inr (Some vdbase)) \<Rightarrow>
                 let s = NewVersionDBStorage av (prefixed indexerDBPrefix vdbase); vm = vm\<lparr>iv_store := Some s\<rparr> in
                 (case getEthFromVM vm_fields of
                    None \<Rightarrow> PanicCall
                  | Some None \<Rightarrow> Returns (Some (Fail ''failed to get eth.Ethereum via reflection''), vm)
                  | Some (Some e) \<Rightarrow>
                      let vm = vm\<lparr>iv_eth := True\<rparr>;
                          vm = (case CurrentBlock env of None \<Rightarrow> vm | Some n \<Rightarrow> vm\<lparr>iv_lastAccepted := n\<rparr>)
                      in (case getStateHistory vm_fields of
                            None \<Rightarrow> PanicCall
                          | Some h \<Rightarrow>
                              Returns (initialize_indexer (VersionDBStorage av) env s (vm\<lparr>iv_stateHistory := h\<rparr>)))))))"

text \<open>The calls of the plugin's \<open>main\<close>.\<close>

datatype 'vm plugin_call = RegisterAllLibEVMExtras | Serve 'vm

definition plugin_main :: "'s IndexingVM plugin_call list" where
  "plugin_main = [RegisterAllLibEVMExtras, Serve NewIndexingVM]"

subsection \<open>What reflection finds\<close>

text \<open>The layout the indexer was written for.\<close>

definition expected_layout :: "('d, 'e) fields \<Rightarrow> bool" where
  "expected_layout vm_fields \<longleftrightarrow>
     (case vm_fields ''versiondb'' of None \<Rightarrow> False | Some r \<Rightarrow> is_VersionDBPtr r) \<and>
     (case vm_fields ''eth'' of None \<Rightarrow> False | Some r \<Rightarrow> is_EthPtr r) \<and>
     (case vm_fields ''config'' of
        Some (StructVal t config) \<Rightarrow> (case config ''StateHistory'' of None \<Rightarrow> False | Some r \<Rightarrow> is_UintVal r)
      | _ \<Rightarrow> False)"

lemma expected_layoutE:
  assumes "expected_layout vm_fields"
  obtains p q t config t' n where "vm_fields ''versiondb'' = Some (VersionDBPtr p)"
    "vm_fields ''eth'' = Some (EthPtr q)" "vm_fields ''config'' = Some (StructVal t config)"
    "config ''StateHistory'' = Some (UintVal t' n)"
  using assms by (auto simp: expected_layout_def is_VersionDBPtr_def is_EthPtr_def is_UintVal_def
      split: option.split_asm rvalue.split_asm)

lemma expected_layout_found:
  assumes "expected_layout vm_fields"
  shows "\<exists>r. getVersionDB vm_fields = Some r \<and> r \<noteq> Inr None" "\<exists>q. getEthFromVM vm_fields = Some q"
    "\<exists>h. getStateHistory vm_fields = Some h"
  using assms by (auto elim!: expected_layoutE simp: getVersionDB_def getEthFromVM_def getStateHistory_def
      split: option.split bool.split)

text \<open>The environment of \<open>Initialize\<close> in IndexVM, with what reflection finds.\<close>

definition reflected ::
  "(bytes \<Rightarrow> 'd \<Rightarrow> 'db) \<Rightarrow> ('db, 'batch) avadb \<Rightarrow> ('d, 'e) fields \<Rightarrow> 'db vdbs init_env \<Rightarrow> 'db vdbs init_env" where
  "reflected prefixed av vm_fields env = env\<lparr>
     opened_store := (case getVersionDB vm_fields of
         Some (Inr (Some vdbase)) \<Rightarrow> Inr (NewVersionDBStorage av (prefixed indexerDBPrefix vdbase))
       | Some (Inl err) \<Rightarrow> Inl err
       | _ \<Rightarrow> Inl (Fail [])),
     eth_found := (case getEthFromVM vm_fields of Some (Some e) \<Rightarrow> True | _ \<Rightarrow> False)\<rparr>"

text \<open>The part of the \<open>IndexingVM\<close> that the model of IndexVM follows.\<close>

definition running_vm :: "'s IndexingVM \<Rightarrow> 's vm option" where
  "running_vm v = map_option (\<lambda>s. \<lparr>vm_store = s, vm_server = iv_server v, lastAcceptedHeight = iv_lastAccepted v,
     lastIndexedHeight = iv_lastIndexed v\<rparr>) (iv_store v)"

lemma initialize_indexer_refines:
  assumes "iv_store vm = Some s" "initialize_indexer S env s vm = (r, vm')"
    and "iv_lastAccepted vm = (case CurrentBlock env of None \<Rightarrow> 0 | Some n \<Rightarrow> n)"
    and "allowedChainID env \<noteq> []" "ChainID env = allowedChainID env" "inner_init env = None"
    and "opened_store env' = Inr s" "eth_found env'" "iv_lastIndexed vm = 0" "iv_compactor vm = None"
    and "env' = env\<lparr>opened_store := opened_store env', eth_found := eth_found env'\<rparr>"
  shows "case r of
      Some err \<Rightarrow> Initialize S env' = Inl err \<and> (iv_compactor vm' = None \<or> isl (listen env))
    | None \<Rightarrow> \<exists>v. Initialize S env' = Inr v \<and> running_vm vm' = Some v \<and>
        iv_compactor vm' = Some (StartCompactor (NewCompactorWithLogger S pluginLogger))"
proof -
  let ?rh = "restored_height S s" and ?la = "iv_lastAccepted vm"
  have env: "allowedChainID env' = allowedChainID env" "ChainID env' = ChainID env" "inner_init env' = inner_init env"
    "CurrentBlock env' = CurrentBlock env" "listen env' = listen env" by (subst assms(11), simp)+
  have la: "(case CurrentBlock env' of None \<Rightarrow> 0 | Some n \<Rightarrow> n) = ?la" using assms(3) env(4) by simp
  note start = Initialize_def env(1-3,5) assms(4-8) la
  show ?thesis
  proof (cases "0 < ?rh \<and> ?rh < ?la")
    case True
    then have "initialize_indexer S env s vm = (Some (gap_error (?la - ?rh)), vm\<lparr>iv_lastIndexed := ?rh\<rparr>)"
      by (simp add: initialize_indexer_def Let_def)
    with assms(2,10) have "r = Some (gap_error (?la - ?rh))" "iv_compactor vm' = None" by auto
    then show ?thesis using True by (simp add: start Let_def)
  next
    case False
    have rh: "?rh = 0 \<or> 0 < ?rh" by (simp add: word_gt_0)
    define w where "w = (if 0 < ?rh then vm\<lparr>iv_lastIndexed := ?rh\<rparr> else vm)\<lparr>
      iv_compactor := Some (StartCompactor (NewCompactorWithLogger S pluginLogger)),
      iv_server := Some (if ?rh > 0 then UpdateLatestBlock [] 0 ?rh else 0)\<rparr>"
    have "initialize_indexer S env s vm =
        (case listen env of Inl err \<Rightarrow> (Some (Wrap ''firehose server failed'' err), w) | Inr addr \<Rightarrow> (None, w))"
      using False unfolding w_def initialize_indexer_def Let_def by (auto split: sum.split)
    then have w: "vm' = w" "r = (case listen env of Inl err \<Rightarrow> Some (Wrap ''firehose server failed'' err) | Inr addr \<Rightarrow> None)"
      using assms(2) by (auto split: sum.splits)
    show ?thesis
    proof (cases "listen env")
      case (Inl err)
      then show ?thesis using w False by (auto simp add: start Let_def)
    next
      case (Inr addr)
      then show ?thesis using w False rh assms(1,9)
        by (auto simp add: start Let_def running_vm_def w_def)
    qed
  qed
qed

text \<open>C33: \<open>Initialize\<close> with everything it takes out of the wrapped VM by reflection refines the start-up that
  the properties of the plugin rest on: the same result, and on success the same state, with the
  compactor started.  It panics only if the fields of the wrapped VM do not have the layout the
  indexer was written for, and then only for the allowed chain.  When it fails, it leaves no
  compactor running, unless the server could not listen.\<close>

theorem initialize_by_reflection:
  "case InitializeVM prefixed av vm_fields env NewIndexingVM of
     HangCall \<Rightarrow> False
   | PanicCall \<Rightarrow>
       \<not> expected_layout vm_fields \<and> allowedChainID env \<noteq> [] \<and>
       ChainID env = allowedChainID env \<and> inner_init env = None
   | Returns (r, vm) \<Rightarrow>
       (case r of
          Some err \<Rightarrow> Initialize (VersionDBStorage av) (reflected prefixed av vm_fields env) = Inl err \<and>
            (iv_compactor vm = None \<or> isl (listen env))
        | None \<Rightarrow> \<exists>v. Initialize (VersionDBStorage av) (reflected prefixed av vm_fields env) = Inr v \<and>
            running_vm vm = Some v \<and>
            iv_compactor vm = Some (StartCompactor (NewCompactorWithLogger (VersionDBStorage av) pluginLogger)))"
proof (cases "allowedChainID env = [] \<or> ChainID env \<noteq> allowedChainID env \<or> inner_init env \<noteq> None")
  case True
  then show ?thesis by (auto simp: InitializeVM_def Initialize_def reflected_def NewIndexingVM_def)
next
  case False
  then have ok: "allowedChainID env \<noteq> []" "ChainID env = allowedChainID env" "inner_init env = None" by auto
  let ?env = "reflected prefixed av vm_fields env"
  show ?thesis
  proof (cases "\<exists>d e h. getVersionDB vm_fields = Some (Inr (Some d)) \<and> getEthFromVM vm_fields = Some (Some e) \<and>
      getStateHistory vm_fields = Some h")
    case True
    then obtain d e h where f: "getVersionDB vm_fields = Some (Inr (Some d))" "getEthFromVM vm_fields = Some (Some e)"
      "getStateHistory vm_fields = Some h" by blast
    define s where "s = NewVersionDBStorage av (prefixed indexerDBPrefix d)"
    define vm where "vm = NewIndexingVM\<lparr>iv_store := Some s, iv_eth := True,
      iv_lastAccepted := (case CurrentBlock env of None \<Rightarrow> 0 | Some n \<Rightarrow> n), iv_stateHistory := h\<rparr>"
    obtain r vm' where run: "initialize_indexer (VersionDBStorage av) env s vm = (r, vm')" by fastforce
    have "InitializeVM prefixed av vm_fields env NewIndexingVM = Returns (r, vm')"
      using ok f run by (simp add: InitializeVM_def Let_def s_def vm_def NewIndexingVM_def split: option.splits)
    moreover have "opened_store ?env = Inr s" "eth_found ?env" using f by (simp_all add: reflected_def s_def)
    ultimately show ?thesis
      using initialize_indexer_refines [OF _ run _ ok, of ?env] by (simp add: vm_def NewIndexingVM_def reflected_def)
  next
    case False
    have bad: "\<not> expected_layout vm_fields" if "getVersionDB vm_fields = None \<or> getVersionDB vm_fields = Some (Inr None) \<or>
        getEthFromVM vm_fields = None \<or> getStateHistory vm_fields = None"
      using that expected_layout_found [of vm_fields] by fastforce
    note run = InitializeVM_def Initialize_def reflected_def NewIndexingVM_def Let_def ok
    consider (db) "getVersionDB vm_fields = None \<or> getVersionDB vm_fields = Some (Inr None)"
      | (err) e where "getVersionDB vm_fields = Some (Inl e)"
      | (eth) d where "getVersionDB vm_fields = Some (Inr (Some d))" "getEthFromVM vm_fields = None"
      | (nil) d where "getVersionDB vm_fields = Some (Inr (Some d))" "getEthFromVM vm_fields = Some None"
      | (hist) d e where "getVersionDB vm_fields = Some (Inr (Some d))" "getEthFromVM vm_fields = Some (Some e)"
          "getStateHistory vm_fields = None"
      using False by (metis not_None_eq sum.exhaust)
    then show ?thesis
    proof cases
      case db
      with bad show ?thesis by (auto simp: run)
    qed (use bad in \<open>simp_all add: run\<close>)
  qed
qed

text \<open>A VM of the expected layout, with an empty database, on a chain without blocks.\<close>

definition demo_fields :: "(memdb, nat) fields" where
  "demo_fields = [''versiondb'' \<mapsto> VersionDBPtr (Some []), ''eth'' \<mapsto> EthPtr (Some 1),
     ''config'' \<mapsto> StructVal ''evm.Config'' [''StateHistory'' \<mapsto> UintVal ''uint64'' 32]]"

definition demo_start :: "memdb vdbs init_env" where
  "demo_start = \<lparr>allowedChainID = ''C'', ChainID = ''C'', inner_init = None, opened_store = Inl (Fail []),
     eth_found = False, CurrentBlock = None, listen = Inr '':9090''\<rparr>"

lemma demo_starts:
  "\<exists>vm. InitializeVM (\<lambda>p d. d) mem_avadb demo_fields demo_start NewIndexingVM = Returns (None, vm) \<and>
    iv_stateHistory vm = 32"
proof -
  have "getVersionDB demo_fields = Some (Inr (Some []))" "getEthFromVM demo_fields = Some (Some 1)"
    "getStateHistory demo_fields = Some 32"
    by (simp_all add: demo_fields_def getVersionDB_def getEthFromVM_def getStateHistory_def)
  moreover have "restored_height (VersionDBStorage mem_avadb) (NewVersionDBStorage mem_avadb []) = 0" by code_simp
  ultimately show ?thesis
    by (simp add: InitializeVM_def demo_start_def initialize_indexer_def NewIndexingVM_def Let_def)
qed

theorem initialize_by_reflection_witness:
  "\<exists>vm v. InitializeVM (\<lambda>p d. d) mem_avadb demo_fields demo_start NewIndexingVM = Returns (None, vm) \<and>
    Initialize (VersionDBStorage mem_avadb) (reflected (\<lambda>p d. d) mem_avadb demo_fields demo_start) = Inr v \<and>
    running_vm vm = Some v"
proof -
  obtain vm where "InitializeVM (\<lambda>p d. d) mem_avadb demo_fields demo_start NewIndexingVM = Returns (None, vm)"
    using demo_starts by blast
  with initialize_by_reflection [where prefixed = "\<lambda>p d. d" and av = mem_avadb and vm_fields = demo_fields and env = demo_start]
  show ?thesis by auto
qed

end
