(* ===== verification/Spec2Isabelle.thy ===== *)
theory Spec2Isabelle
  imports Pebble VersionDB Compactor Server Client CompactSteps Ingest Service Controller Json Types Rpc Fetch Window Heads Delivery Upstream Example
    ChainStore IndexVM Marshal VMCompactor Plugin PluginDelivery Validate Startup Lifecycle LatePlugin
    Metrics Reports Handles Reflection
begin

text \<open>
  \<^bold>\<open>A verification development for the l1-data-tools repository\<close>

  \<^bold>\<open>The program.\<close>  The repository ingests the blocks of an EVM chain, stores them, and streams
  them to clients.  It has three Go modules:

  \<^item> \<open>evm-ingestion\<close>, a standalone service: \<open>main.go\<close> pulls normalized blocks from an RPC node
    (\<open>rpc/fetcher.go\<close>, throttled by \<open>rpc/controller.go\<close>), checks that they arrive in order and
    saves them one by one in a block store (\<open>storage/\<close>); a background compactor
    (\<open>storage/compactor.go\<close>) moves every hundred old blocks into one zstd-compressed batch; a
    WebSocket server (\<open>api/server.go\<close>) sends clients single blocks or whole batches.
  \<^item> \<open>evm-ingestion-client\<close>, the client library (\<open>client.go\<close>): it opens the stream at a block,
    decodes frames, drops what it already has and reconnects after failures.
  \<^item> \<open>indexing-subnet-evm\<close>, a plugin of avalanchego: \<open>vm.go\<close> and \<open>block.go\<close> wrap a VM so that every
    accepted block is indexed (\<open>indexer.go\<close>) into the same kind of store, kept in the versioned
    database of the VM, whose writes become durable when the wrapped block is accepted.

  \<^bold>\<open>How the model corresponds to the code.\<close>  The theories import one another in this order.

  \<^item> \<open>Prelude\<close>: types (\<open>u64\<close> is \<open>64 word\<close>, \<open>bytes\<close> is a list of \<open>char\<close>, \<open>error\<close>, \<open>result\<close>) and the
    generic lemmas.  \<open>GoText\<close>: what the source uses of \<open>fmt\<close>, \<open>strconv\<close>, \<open>strings\<close>, \<open>bytes\<close>,
    \<open>bufio\<close>, \<open>encoding/binary\<close>.  \<open>GoFloat\<close>: rounding of \<open>float64\<close>.  \<open>Consts\<close>: \<open>consts/consts.go\<close>.
  \<^item> \<open>KV\<close>: the two databases the stores are built on, as records of operations with their
    documented laws (locales \<open>pebble_laws\<close>, \<open>avadb_laws\<close> and their error-free extensions), and
    a concrete in-memory instance of both.
  \<^item> \<open>Keys\<close>, \<open>Pebble\<close> (\<open>storage/pebble.go\<close>), \<open>VersionDB\<close> (\<open>storage/versiondb.go\<close>), \<open>Storage\<close> and
    \<open>StoreView\<close> (\<open>storage/interface.go\<close> and its contract), \<open>Batch\<close> (\<open>storage/batch.go\<close>).  The
    contract is the locale \<open>block_store\<close>: every method against an abstract store \<open>absstore\<close> with
    the individual blocks, the batches and the meta record as maps; each method may fail, and
    then changed nothing.  \<open>healthy_store\<close> adds what holds when the database reports no error.
  \<^item> \<open>AtomicMax\<close>: the compare-and-swap loop of \<open>versiondb.go\<close> and \<open>server.go\<close> under interference.
  \<^item> \<open>Content\<close>: \<open>view\<close>, the data a reader finds for a block number (individual block first, the
    covering batch second).  \<open>Chain\<close>: stores that hold nothing but parts of one chain.
  \<^item> \<open>Compactor\<close> (\<open>storage/compactor.go\<close>): \<open>compactOneBatch\<close> and \<open>compactAll\<close> against any store with
    the contract (locales \<open>compaction\<close>, \<open>healthy_compaction\<close>).  \<open>CompactSteps\<close>: the same, one
    access to the store at a time, for interleavings.
  \<^item> \<open>ChainStore\<close>: stores that hold exactly the blocks \<open>1..t\<close> of a chain, and that each access of the
    compactor keeps them so (locale \<open>chain_store\<close>, shared by the service and the plugin).
  \<^item> \<open>Server\<close> (\<open>api/server.go\<close>, locales \<open>serving\<close>, \<open>healthy_serving\<close>), \<open>Client\<close> (\<open>client.go\<close>),
    \<open>Ingest\<close> (\<open>main.go\<close>: configuration, resuming, one received block).
  \<^item> \<open>Pipeline\<close>: the step relation \<open>sys_step\<close> of the running service.  Its state holds the store, the
    program counters of compactor and ingestion loop, and the server's latest block; a step is
    one access to the store, or a crash that keeps only the store.  Failures may happen at every
    access.  \<open>Service\<close>: the contracts put together on the two real stores, and the properties of
    the service as a whole.
  \<^item> \<open>Controller\<close> (\<open>rpc/controller.go\<close>): the semaphore, the window of metrics, the adjustment.
  \<^item> \<open>Json\<close>: JSON values and what \<open>encoding/json\<close> does with them, decoding into a variable that
    already holds a value included (null, missing and repeated keys, case folding, unknown
    fields); \<open>Types\<close> (\<open>rpc/types.go\<close>): every struct with its fields, its zero value, its decoder
    and encoder (locales \<open>json_laws\<close> for the text form, \<open>json_codec\<close> for each struct).
  \<^item> \<open>Rpc\<close> (\<open>batchRpcCall\<close> of \<open>rpc/fetcher.go\<close> with its retries), \<open>Fetch\<close> (the fetching of blocks,
    receipts and traces), \<open>Window\<close> (\<open>StreamBlocks\<close>, the sliding window), \<open>Heads\<close> (\<open>rpc/heads.go\<close>).
    \<open>Upstream\<close> puts them together with the ingestion of a stream; \<open>Startup\<close> (\<open>main.go\<close>: \<open>main\<close> with its
    configuration, \<open>runIngestion\<close> with its rounds).  \<open>Metrics\<close> (\<open>metrics/metrics.go\<close> and the places that
    count), \<open>Reports\<close> (\<open>formatDuration\<close>, \<open>formatSize\<close>, \<open>updateStats\<close>: the texts of log lines).
  \<^item> \<open>Delivery\<close>: the running service and the client library put together, from the struct that was
    fetched to the struct that the client hands over; \<open>Example\<close> (\<open>example/main.go\<close>).
  \<^item> \<open>IndexVM\<close> (\<open>vm.go\<close>, \<open>block.go\<close>, \<open>indexer.go\<close> of the plugin) and \<open>VMCompactor\<close>, the compactor
    running in the plugin beside block acceptance.  \<open>Marshal\<close> (\<open>marshal.go\<close>): the RPC form of a
    block, and what the client library reads out of it.
  \<^item> \<open>Plugin\<close>: the step relation \<open>plugin_step\<close> of the running plugin: acceptance in two phases, single
    accesses of the compactor, failed acceptances, restarts.  \<open>PluginDelivery\<close>: plugin, server and
    client library put together.  \<open>LatePlugin\<close>: the plugin on a chain that already has blocks.
    \<open>Validate\<close> (\<open>validate.go\<close>, and \<open>SetState\<close> that starts it).  \<open>Lifecycle\<close>: the loop and the stop of the
    compactor, \<open>Shutdown\<close> of the plugin, the wrapping of blocks.  \<open>Handles\<close>: the compactor as an object
    with its channels, its constructors and loggers, \<open>Start\<close> and \<open>Stop\<close>.  \<open>Reflection\<close>: the helpers by
    which \<open>vm.go\<close> reaches into the wrapped VM, \<open>Initialize\<close> with everything it leaves in the
    \<open>IndexingVM\<close> (it refines the one of \<open>IndexVM\<close>), and the plugin's \<open>main.go\<close>.

  \<^bold>\<open>Interfaces.\<close>  Clients of the store are verified once, inside the locales, for every store that
  keeps the contract; \<open>pebble_laws\<close> and \<open>avadb_laws\<close> are sublocales of \<open>block_store\<close> (the
  refinement proofs of \<open>Pebble\<close> and \<open>VersionDB\<close>), so the lemmas about compactor, server, ingestion
  and the whole pipeline hold for the two real stores, and the properties state them there with
  all hypotheses written out.  Every locale is interpreted on the in-memory database as well,
  which also gives the witnesses.

  \<^bold>\<open>What the properties show.\<close>  For the standalone service: a client receives exactly the
  consecutive blocks of the chain from the one it asked for, over any interleaving, failures,
  crashes and reconnections; the readable blocks are always exactly \<open>1..t\<close>, and each step of the
  service is a step of an abstract log that only grows at its end (\<open>log_step\<close>, \<open>log_of\<close>);
  ingestion resumes after the highest of them; a held block is sent, in a frame that reads back as
  it or as its batch; the example client stops with its fatal message only when it is started at
  block 0.  For the way from the node
  to the store: \<open>main\<close> starts exactly when its checks and calls succeed, and with a look-ahead of
  0 its first stream runs on and brings nothing; \<open>StreamBlocks\<close> sends every
  block once and in order; \<open>runIngestion\<close> receives and stores exactly the blocks after the highest
  readable one, however its streams end; the metrics count blocks and requests, and a label is
  wrong; a
  fetched block has, for every transaction, what the node answered when asked for the receipt and the
  trace of just that hash;
  answers are matched with requests; a node that answers within the retries is enough; and what
  happens with stale errors and the answer null.  For the compactor: its
  functional effect, what it preserves when any operation fails, its termination on a healthy
  store, that it can be stopped there, but once only, and that with failing deletions it never ends, so that the
  plugin cannot be shut down.  For the stores: refinement of the
  abstract store, with and without failures, and the round trips of keys and batches.  For the
  controller: slots are conserved, and requests in flight can exceed the configured maximum (its
  decision and the \<open>float64\<close> arithmetic are lemmas).  For the plugin: with the compactor interleaved,
  over failed acceptances, retries and restarts, the durable data holds exactly the accepted blocks
  and a restart finds no gap; a client is handed exactly these blocks; the one way in which an
  aborted acceptance during a compaction loses a batch; on a chain that already has blocks, the
  earlier ones are never served; \<open>Initialize\<close> panics only if the wrapped VM has another layout than
  expected; and the format validation never compares.  What the plugin stores is read back by
  the client library field by field, and the strict decoder of the fetcher accepts it exactly when
  the block has no field the struct lacks.

  \<^bold>\<open>Parameters.\<close>  Code that is not in the repository is an argument of the definitions: Pebble and
  the database of avalanchego (\<open>pebble\<close>, \<open>avadb\<close>), the zstd codec (\<open>zstd\<close>), the text
  form of JSON (\<open>json_text\<close>; the values and the decoding into structs are modelled), the wrapped VM
  with its chain and tracer (\<open>chain_api\<close>), what the fields of that VM hold (\<open>fields\<close>, values of \<open>rvalue\<close>), the values of libevm (headers, transactions, receipts,
  the record \<open>hexutil\<close> of their text form, the function \<open>sender\<close>), the API of the wrapped node, the text
  of a float and the indentation of JSON in the format validation (\<open>api_backend\<close> and arguments of
  \<open>Validate\<close>), the Prometheus registry (\<open>prometheus\<close>), sockets and the clock (the record
  \<open>tick\<close> and the frames of a \<open>session\<close>), the HTTP attempts of a call, the order in which goroutines
  finish and the moments at which the context is cancelled (arguments of \<open>Rpc\<close>, \<open>Fetch\<close>, \<open>Window\<close>);
  what the attempts of a call bring depends on the requests that are sent.

  \<^bold>\<open>Bounds.\<close>  Block numbers keep their 64 bits.  Where a batch end or a successor would wrap, the
  properties assume numbers below \<open>2 ^ 64 - 16\<close>, the end of the last full batch.  The undisturbed
  run of the stepwise compactor takes 106 steps, which is the fuel of the equivalence: the first
  block, the tip, 100 reads, the compression and the three writes.  The percentile index is exact
  for fewer than \<open>2 ^ 45\<close> metrics.  A JSON document is at most 10000
  levels deep, the limit of the scanner of Go; lists are shorter than \<open>2 ^ 64\<close>.  A batch call makes
  at most 20 retries, so that the environment of a call is a list of 21 attempts.  Metrics are
  counted up to \<open>2 ^ 53\<close>, what \<open>float64\<close> holds exactly.  Loops that may not end (\<open>compactAll\<close>) are partial functions, so
  that not returning is a value; the termination property proves that they return.  Durations are
  integers of nanoseconds.

  \<^bold>\<open>Not modelled.\<close>  Which log lines are written when (their texts and statistics are in \<open>Reports\<close>, the
  loggers of the compactor in \<open>Handles\<close>); what the time limits and buffer sizes of HTTP clients,
  dialers and sockets do (the settings of the fetcher's client are in \<open>Rpc\<close>); signals and process
  handling; the ticker loop around \<open>adjustParallelism\<close> (a run is any sequence of its calls); flags and
  printing of the example client.  What is left of the files are package clauses and imports.
\<close>

end
